(* ===== verification/Drunix_Prelude.thy ===== *)
theory Drunix_Prelude
  imports Main "HOL-Library.AList" "HOL-Library.Word" "HOL-Library.List_Lexorder" "HOL-Library.Char_ord"
begin

text \<open>
  Shared vocabulary of the development: Go values, error results, loops that stop at the first
  error, and Go maps.

  \<^item> A Go \<open>string\<close> and the contents of a \<open>[]byte\<close> are lists of \<open>char\<close>
    (HOL's \<open>char\<close> is an 8-bit byte); a \<open>[]byte\<close> that may be nil is an option, \<open>None\<close>
    being nil. The order on strings is Go's: lexicographic on unsigned bytes.
  \<^item> An error return is \<open>Inl (Error msg)\<close>, a run-time panic \<open>Inl (Panic msg)\<close>; a normal
    return is \<open>Inr\<close>.
  \<^item> A Go map is an association list with distinct keys. Go iterates over a map in an
    unspecified order: the order of the list stands for the order one run happens to use, and what
    must not depend on it is proved not to.
\<close>

section \<open>Go values\<close>

type_synonym bytes = "char list"
type_synonym gostring = "char list"
type_synonym gobytes = "char list option"
type_synonym u8 = "8 word"
type_synonym u32 = "32 word"
type_synonym u64 = "64 word"
type_synonym ('k, 'v) gomap = "('k \<times> 'v) list"

named_theorems go_res "how error results compose"
named_theorems go_map "lookup after an update of a Go map"

fun content :: "gobytes \<Rightarrow> bytes" where
  "content None = []"
| "content (Some b) = b"

text \<open>\<open>len\<close> of a byte slice: a nil slice has length 0.\<close>

definition len_bytes :: "gobytes \<Rightarrow> nat" where
  "len_bytes b = length (content b)"

text \<open>\<open>bytes.Equal\<close>: a nil slice equals an empty one.\<close>

definition bytesEqual :: "gobytes \<Rightarrow> gobytes \<Rightarrow> bool" where
  "bytesEqual a b = (content a = content b)"

section \<open>Error results\<close>

datatype goerr = Error string | Panic string

type_synonym 'a res = "goerr + 'a"

fun bindE :: "'a res \<Rightarrow> ('a \<Rightarrow> 'b res) \<Rightarrow> 'b res" where
  "bindE (Inl e) f = Inl e"
| "bindE (Inr x) f = f x"

text \<open>Dereferencing a pointer that may be nil.\<close>

fun deref :: "'a option \<Rightarrow> 'a res" where
  "deref None = Inl (Panic ''nil pointer dereference'')"
| "deref (Some x) = Inr x"

text \<open>A loop over a slice that updates a state and returns at the first error.\<close>

fun foldE :: "('a \<Rightarrow> 's \<Rightarrow> 's res) \<Rightarrow> 'a list \<Rightarrow> 's \<Rightarrow> 's res" where
  "foldE f [] s = Inr s"
| "foldE f (x # xs) s = bindE (f x s) (foldE f xs)"

text \<open>A loop that collects one result per element and returns at the first error.\<close>

fun mapE :: "('a \<Rightarrow> 'b res) \<Rightarrow> 'a list \<Rightarrow> 'b list res" where
  "mapE f [] = Inr []"
| "mapE f (x # xs) = bindE (f x) (\<lambda>y. bindE (mapE f xs) (\<lambda>ys. Inr (y # ys)))"

text \<open>
  The validation loop \<open>for _, x := range xs { if valid, err := f(x); !valid || err != nil
  { return valid, err } }; return true, nil\<close>.
\<close>

fun checkAll :: "('a \<Rightarrow> bool res) \<Rightarrow> 'a list \<Rightarrow> bool res" where
  "checkAll f [] = Inr True"
| "checkAll f (x # xs) =
     (case f x of Inl e \<Rightarrow> Inl e | Inr valid \<Rightarrow> if valid then checkAll f xs else Inr False)"

lemma bindE_Inr_iff [go_res]: "bindE r f = Inr y \<longleftrightarrow> (\<exists>x. r = Inr x \<and> f x = Inr y)"
  by (cases r) auto

lemma bindE_Inl_iff [go_res]:
  "bindE r f = Inl e \<longleftrightarrow> r = Inl e \<or> (\<exists>x. r = Inr x \<and> f x = Inl e)"
  by (cases r) auto

lemma bindE_assoc: "bindE (bindE r f) g = bindE r (\<lambda>x. bindE (f x) g)"
  by (cases r) auto

lemma bindE_cong [fundef_cong]:
  "r = r' \<Longrightarrow> (\<And>x. r' = Inr x \<Longrightarrow> f x = g x) \<Longrightarrow> bindE r f = bindE r' g"
  by (cases r') auto

lemma foldE_append: "foldE f (xs @ ys) s = bindE (foldE f xs s) (foldE f ys)"
  by (induction xs arbitrary: s) (auto simp: bindE_assoc intro!: arg_cong2 [where f = bindE])

lemma foldE_cong [fundef_cong]:
  "xs = ys \<Longrightarrow> s = t \<Longrightarrow> (\<And>x s. x \<in> set ys \<Longrightarrow> f x s = g x s) \<Longrightarrow> foldE f xs s = foldE g ys t"
proof (induction ys arbitrary: xs s t)
  case (Cons y ys)
  then show ?case by (cases "g y t") auto
qed simp

text \<open>A loop whose body never fails is a fold.\<close>

lemma foldE_Inr: "(\<And>x s. x \<in> set xs \<Longrightarrow> f x s = Inr (g x s)) \<Longrightarrow> foldE f xs s = Inr (fold g xs s)"
  by (induction xs arbitrary: s) auto

lemma foldE_invariant:
  assumes "foldE f xs s = Inr t" and "P s"
    and "\<And>x s s'. x \<in> set xs \<Longrightarrow> P s \<Longrightarrow> f x s = Inr s' \<Longrightarrow> P s'"
  shows "P t"
  using assms
proof (induction xs arbitrary: s)
  case (Cons x xs)
  then show ?case by (auto simp: go_res)
qed simp

lemma mapE_Inr_iff: "mapE f xs = Inr ys \<longleftrightarrow> list_all2 (\<lambda>x y. f x = Inr y) xs ys"
proof (induction xs arbitrary: ys)
  case (Cons x xs)
  then show ?case by (cases ys) (auto simp: go_res)
qed auto

lemma mapE_map: "(\<And>x. x \<in> set xs \<Longrightarrow> f x = Inr (g x)) \<Longrightarrow> mapE f xs = Inr (map g xs)"
  by (induction xs) auto

lemma checkAll_True_iff: "checkAll f xs = Inr True \<longleftrightarrow> (\<forall>x \<in> set xs. f x = Inr True)"
  by (induction xs) (auto split: sum.splits)

lemma checkAll_False_iff:
  "checkAll f xs = Inr False \<longleftrightarrow>
     (\<exists>ys x zs. xs = ys @ x # zs \<and> (\<forall>y \<in> set ys. f y = Inr True) \<and> f x = Inr False)"
proof (induction xs)
  case (Cons x xs)
  show ?case
  proof (cases "f x = Inr True")
    case True
    with Cons show ?thesis
      by (auto simp: Cons_eq_append_conv) (metis set_ConsD)+
  next
    case False
    then show ?thesis
      by (fastforce simp: Cons_eq_append_conv split: sum.splits)
  qed
qed simp

lemma checkAll_no_error: "(\<And>x. x \<in> set xs \<Longrightarrow> \<exists>b. f x = Inr b) \<Longrightarrow> \<exists>b. checkAll f xs = Inr b"
  by (induction xs) (force split: sum.splits)+

lemma checkAll_cong [fundef_cong]:
  "xs = ys \<Longrightarrow> (\<And>x. x \<in> set ys \<Longrightarrow> f x = g x) \<Longrightarrow> checkAll f xs = checkAll g ys"
  by (induction ys arbitrary: xs) (auto split: sum.splits)

section \<open>Go maps\<close>

text \<open>\<open>GetSortedKeys\<close> and \<open>GetValuesBySortedKeys\<close> of core/ledger/util/util.go.\<close>

definition GetSortedKeys :: "(gostring, 'v) gomap \<Rightarrow> gostring list" where
  "GetSortedKeys m = sort (map fst m)"

definition GetValuesBySortedKeys :: "(gostring, 'v) gomap \<Rightarrow> 'v list" where
  "GetValuesBySortedKeys m = map (\<lambda>k. the (map_of m k)) (GetSortedKeys m)"

text \<open>A well-formed Go map holds each key once.\<close>

definition wf_map :: "('k, 'v) gomap \<Rightarrow> bool" where
  "wf_map m = distinct (map fst m)"

lemma wf_map_empty [simp]: "wf_map []"
  by (simp add: wf_map_def)

lemma wf_map_update [simp]: "wf_map m \<Longrightarrow> wf_map (AList.update k v m)"
  by (simp add: wf_map_def distinct_update)

lemma wf_map_delete [simp]: "wf_map m \<Longrightarrow> wf_map (AList.delete k m)"
  by (simp add: wf_map_def distinct_delete)

lemma map_of_AList_update [go_map, simp]: "map_of (AList.update k v m) = (map_of m)(k \<mapsto> v)"
  by (simp add: update_conv')

lemma map_of_AList_delete [go_map, simp]: "map_of (AList.delete k m) = (map_of m)(k := None)"
  by (simp add: delete_conv')

lemma sorted_GetSortedKeys [simp]: "sorted (GetSortedKeys m)"
  by (simp add: GetSortedKeys_def)

lemma set_GetSortedKeys [simp]: "set (GetSortedKeys m) = dom (map_of m)"
  by (simp add: GetSortedKeys_def dom_map_of_conv_image_fst)

lemma distinct_GetSortedKeys [simp]: "wf_map m \<Longrightarrow> distinct (GetSortedKeys m)"
  by (simp add: GetSortedKeys_def wf_map_def)

text \<open>
  The sorted keys, and hence everything built from them, depend only on the contents of the map
  and not on the order in which Go happens to iterate over it.
\<close>

lemma GetSortedKeys_canonical:
  assumes "wf_map m" and "wf_map m'" and "map_of m = map_of m'"
  shows "GetSortedKeys m = GetSortedKeys m'"
proof (rule sorted_distinct_set_unique)
  show "set (GetSortedKeys m) = set (GetSortedKeys m')" using assms(3) by simp
qed (use assms in simp_all)

lemma GetValuesBySortedKeys_canonical:
  assumes "wf_map m" and "wf_map m'" and "map_of m = map_of m'"
  shows "GetValuesBySortedKeys m = GetValuesBySortedKeys m'"
  using GetSortedKeys_canonical [OF assms] assms(3) by (simp add: GetValuesBySortedKeys_def)

text \<open>A binary search splits a sorted list where a filter would.\<close>

lemma sorted_takeWhile_less:
  assumes "sorted ks"
  shows "takeWhile (\<lambda>k. k < x) ks = filter (\<lambda>k. k < (x :: 'a :: linorder)) ks"
  using assms
proof (induction ks)
  case (Cons k ks)
  then have "\<not> k < x \<Longrightarrow> filter (\<lambda>k. k < x) ks = []" by (force simp: filter_empty_conv)
  with Cons show ?case by auto
qed simp

lemma sorted_dropWhile_less:
  assumes "sorted ks"
  shows "dropWhile (\<lambda>k. k < x) ks = filter (\<lambda>k. (x :: 'a :: linorder) \<le> k) ks"
  using assms
proof (induction ks)
  case (Cons k ks)
  then have "\<not> k < x \<Longrightarrow> filter (\<lambda>k. x \<le> k) ks = ks" by (force simp: filter_id_conv)
  with Cons show ?case by auto
qed simp

text \<open>A map whose values carry their own key.\<close>

definition keyed :: "('v \<Rightarrow> 'k) \<Rightarrow> ('k, 'v) gomap \<Rightarrow> bool" where
  "keyed kf m = (wf_map m \<and> (\<forall>k v. map_of m k = Some v \<longrightarrow> kf v = k))"

lemma keyed_empty [simp]: "keyed kf []"
  by (simp add: keyed_def)

lemma keyed_update [simp]: "keyed kf m \<Longrightarrow> kf v = k \<Longrightarrow> keyed kf (AList.update k v m)"
  by (simp add: keyed_def)

lemma keyed_wf [simp, dest]: "keyed kf m \<Longrightarrow> wf_map m"
  by (simp add: keyed_def)

lemma keyed_values:
  assumes "keyed kf m"
  shows "map kf (GetValuesBySortedKeys m) = GetSortedKeys m"
proof -
  have "kf (the (map_of m k)) = k" if "k \<in> set (GetSortedKeys m)" for k
    using assms that by (auto simp: keyed_def)
  then have "map (kf \<circ> (\<lambda>k. the (map_of m k))) (GetSortedKeys m) = GetSortedKeys m"
    by (intro map_idI) simp
  then show ?thesis by (simp add: GetValuesBySortedKeys_def)
qed

lemma find_unique:
  "x \<in> set xs \<Longrightarrow> distinct (map kf xs) \<Longrightarrow> List.find (\<lambda>v. kf v = kf x) xs = Some x"
proof (induction xs)
  case (Cons a xs)
  then show ?case by (cases "kf a = kf x") force+
qed simp

lemma keyed_find:
  assumes "keyed kf m"
  shows "List.find (\<lambda>v. kf v = k) (GetValuesBySortedKeys m) = map_of m k"
proof (cases "map_of m k")
  case None
  then have "k \<notin> kf ` set (GetValuesBySortedKeys m)"
    using keyed_values [OF assms] by (metis domIff set_GetSortedKeys set_map)
  then show ?thesis using None by (auto simp: find_None_iff)
next
  case (Some v)
  then have "v \<in> set (GetValuesBySortedKeys m)"
    by (auto simp: GetValuesBySortedKeys_def image_iff intro!: bexI [of _ k])
  moreover have "kf v = k" using assms Some by (simp add: keyed_def)
  moreover have "distinct (map kf (GetValuesBySortedKeys m))"
    using assms by (simp add: keyed_values)
  ultimately show ?thesis using find_unique [of v _ kf] Some by metis
qed

lemma strict_sorted_keyed_values:
  "keyed kf m \<Longrightarrow> sorted_wrt (<) (map kf (GetValuesBySortedKeys m))"
  by (simp add: keyed_values strict_sorted_iff)

lemma mapE_roundtrip:
  assumes "mapE f xs = Inr ys" and "\<And>x y. f x = Inr y \<Longrightarrow> g y = Inr x"
  shows "mapE g ys = Inr xs"
  using assms by (simp add: mapE_Inr_iff list_all2_conv_all_nth)

lemma find_map: "List.find P (map f xs) = map_option f (List.find (P \<circ> f) xs)"
  by (induction xs) auto

lemma find_list_all2:
  "list_all2 R xs ys \<Longrightarrow> (\<And>x y. R x y \<Longrightarrow> P x = Q y) \<Longrightarrow> rel_option R (List.find P xs) (List.find Q ys)"
  by (induction rule: list_all2_induct) auto

text \<open>The keys of a two-level map, as pairs.\<close>

lemma distinct_nested:
  assumes "distinct (map kf xs)" and "\<And>x. x \<in> set xs \<Longrightarrow> distinct (map jf (g x))"
  shows "distinct (concat (map (\<lambda>x. map (\<lambda>y. (kf x, jf y)) (g x)) xs))"
  using assms
proof (induction xs)
  case (Cons x xs)
  have "distinct (map (\<lambda>y. (kf x, jf y)) (g x))"
    using Cons.prems(2) [of x] by (auto simp: distinct_map inj_on_def)
  with Cons show ?case by auto
qed simp

section \<open>Byte strings with a common prefix\<close>

text \<open>\<open>bytes.SplitN(s, []byte{0x00}, 2)\<close>: cut at the first zero byte, if there is one.\<close>

definition SplitN_NUL :: "bytes \<Rightarrow> bytes list" where
  "SplitN_NUL s =
     (let a = takeWhile (\<lambda>c. c \<noteq> CHR 0x00) s in
      if length a = length s then [s] else [a, drop (Suc (length a)) s])"

definition no_NUL :: "bytes \<Rightarrow> bool" where
  "no_NUL s = (CHR 0x00 \<notin> set s)"

lemma SplitN_NUL_append:
  assumes "no_NUL a"
  shows "SplitN_NUL (a @ CHR 0x00 # b) = [a, b]"
proof -
  have "takeWhile (\<lambda>c. c \<noteq> CHR 0x00) (a @ CHR 0x00 # b) = a"
    using assms unfolding no_NUL_def by (subst takeWhile_append2) auto
  then show ?thesis by (simp add: SplitN_NUL_def Let_def)
qed

lemma append_le_append [simp]: "p @ s \<le> p @ t \<longleftrightarrow> s \<le> (t :: bytes)"
  by (induction p) auto

lemma append_less_append [simp]: "p @ s < p @ t \<longleftrightarrow> s < (t :: bytes)"
  by (induction p) auto

lemma between_prefix:
  "p @ s \<le> k \<Longrightarrow> k < p @ e \<Longrightarrow> \<exists>k'. k = p @ (k' :: bytes)"
proof (induction p arbitrary: k)
  case (Cons a p)
  then show ?case by (cases k) auto
qed simp

text \<open>Between a prefix with byte 0 and the same prefix with byte 1 lies only the former.\<close>

lemma below_one: "c < CHR 0x01 \<longleftrightarrow> c = CHR 0x00"
proof
  assume "c < CHR 0x01"
  then have "of_char c < (1 :: nat)" by (simp add: less_char_def)
  then show "c = CHR 0x00"
    using of_char_eq_iff [where 'a = nat, of c "CHR 0x00"] by simp
qed (simp add: less_char_def)

lemma not_below_zero [simp]: "\<not> c < CHR 0x00"
  by (simp add: less_char_def)

end
