(* ===== verification/Version.thy ===== *)
theory Version
  imports Drunix_Prelude
begin

text \<open>
  Transaction heights (core/ledger/internal/version/version.go) and the order-preserving
  variable-length encoding of \<open>uint64\<close> they are stored in (common/ledger/util/util.go).
  Shown: the encoding decodes back from the front of any byte string, it never reaches its panic,
  byte order is height order, \<open>Compare\<close> orders heights whose distance is below \<open>2 ^ 63\<close>,
  and \<open>AreSame\<close> is equality of optional heights.
\<close>

section \<open>Big-endian bytes and protobuf varints\<close>

text \<open>\<open>binary.BigEndian.PutUint64\<close> and \<open>binary.BigEndian.Uint64\<close>.\<close>

definition PutUint64 :: "u64 \<Rightarrow> bytes" where
  "PutUint64 n = map (\<lambda>i. char_of (unat n div 256 ^ (7 - i))) [0..<8]"

definition be_value :: "bytes \<Rightarrow> nat" where
  "be_value bs = foldl (\<lambda>a b. a * 256 + of_char b) 0 bs"

definition Uint64 :: "bytes \<Rightarrow> u64" where
  "Uint64 bs = of_nat (be_value bs)"

text \<open>
  \<open>proto.EncodeVarint\<close> and \<open>proto.DecodeVarint\<close>: seven bits per byte, lowest first, the top
  bit set on every byte but the last. A failed decode is \<open>(0, 0)\<close>.
\<close>

fun EncodeVarint :: "nat \<Rightarrow> bytes" where
  "EncodeVarint v =
     (if v < 128 then [char_of v] else char_of (v mod 128 + 128) # EncodeVarint (v div 128))"

declare EncodeVarint.simps [simp del]

fun ConsumeVarint :: "nat \<Rightarrow> bytes \<Rightarrow> (nat \<times> nat) option" where
  "ConsumeVarint i [] = None"
| "ConsumeVarint i (b # bs) =
     (let y = (of_char b :: nat) in
      if i < 9 then
        (if y < 128 then Some (y * 2 ^ (7 * i), 1)
         else map_option (\<lambda>(v, n). ((y - 128) * 2 ^ (7 * i) + v, Suc n)) (ConsumeVarint (Suc i) bs))
      else if y < 2 then Some (y * 2 ^ (7 * i), 1) else None)"

definition DecodeVarint :: "bytes \<Rightarrow> nat \<times> nat" where
  "DecodeVarint bs = (case ConsumeVarint 0 bs of Some r \<Rightarrow> r | None \<Rightarrow> (0, 0))"

section \<open>Order-preserving encoding of uint64\<close>

text \<open>The loop that looks for the first non-zero byte: \<open>(startingIndex, size)\<close>.\<close>

fun firstNonZero :: "nat \<Rightarrow> bytes \<Rightarrow> nat \<times> nat" where
  "firstNonZero i [] = (0, 0)"
| "firstNonZero i (b # bs) = (if b \<noteq> CHR 0x00 then (i, 8 - i) else firstNonZero (Suc i) bs)"

definition EncodeOrderPreservingVarUint64 :: "u64 \<Rightarrow> bytes res" where
  "EncodeOrderPreservingVarUint64 number =
     (let bs = PutUint64 number;
          (startingIndex, size) = firstNonZero 0 bs;
          sizeBytes = EncodeVarint size
      in if length sizeBytes > 1 then Inl (Panic ''[]sizeBytes should not be more than one byte'')
         else Inr (sizeBytes ! 0 # take size (drop startingIndex bs)))"

definition DecodeOrderPreservingVarUint64 :: "bytes \<Rightarrow> (u64 \<times> nat) res" where
  "DecodeOrderPreservingVarUint64 bs =
     (let (s, numBytes) = DecodeVarint bs in
      if numBytes \<noteq> 1 then Inl (Error ''number of consumed bytes from DecodeVarint is invalid'')
      else if s > 8 then Inl (Error ''decoded size from DecodeVarint is invalid'')
      else if s > length bs - 1 then Inl (Error ''decoded size is more than available bytes'')
      else Inr (Uint64 (replicate (8 - s) (CHR 0x00) @ take s (drop 1 bs)), s + 1))"

section \<open>Heights\<close>

record Height =
  BlockNum :: u64
  TxNum :: u64

definition NewHeight :: "u64 \<Rightarrow> u64 \<Rightarrow> Height" where
  "NewHeight blockNum txNum = \<lparr>BlockNum = blockNum, TxNum = txNum\<rparr>"

definition NewHeightFromBytes :: "bytes \<Rightarrow> (Height \<times> nat) res" where
  "NewHeightFromBytes b =
     bindE (DecodeOrderPreservingVarUint64 b) (\<lambda>(blockNum, n1).
     bindE (DecodeOrderPreservingVarUint64 (drop n1 b)) (\<lambda>(txNum, n2).
     Inr (NewHeight blockNum txNum, n1 + n2)))"

definition ToBytes :: "Height \<Rightarrow> bytes res" where
  "ToBytes h =
     bindE (EncodeOrderPreservingVarUint64 (BlockNum h)) (\<lambda>blockNumBytes.
     bindE (EncodeOrderPreservingVarUint64 (TxNum h)) (\<lambda>txNumBytes.
     Inr (blockNumBytes @ txNumBytes)))"

text \<open>
  \<open>int(h.BlockNum - h1.BlockNum)\<close>: the subtraction wraps at 64 bits and the conversion reads
  the result as a signed number.
\<close>

definition Compare :: "Height \<Rightarrow> Height \<Rightarrow> int" where
  "Compare h h1 =
     (if BlockNum h \<noteq> BlockNum h1 then
        (if sint (BlockNum h - BlockNum h1) > 0 then 1 else -1)
      else if TxNum h \<noteq> TxNum h1 then
        (if sint (TxNum h - TxNum h1) > 0 then 1 else -1)
      else 0)"

fun AreSame :: "Height option \<Rightarrow> Height option \<Rightarrow> bool" where
  "AreSame None h2 = (h2 = None)"
| "AreSame (Some h1) None = False"
| "AreSame (Some h1) (Some h2) = (Compare h1 h2 = 0)"

section \<open>Lemmas on the encoding\<close>

lemma of_char_less_256 [simp]: "(of_char c :: nat) < 256"
  by (metis mod_less_divisor of_char_mod_256 zero_less_numeral)

lemma be_value_foldl: "foldl (\<lambda>a b. a * 256 + of_char b) x bs = x * 256 ^ length bs + be_value bs"
  unfolding be_value_def
proof (induction bs arbitrary: x)
  case (Cons b bs)
  show ?case
    using Cons [of "x * 256 + of_char b"] Cons [of "of_char b"] by (simp add: algebra_simps)
qed simp

lemma be_value_Nil [simp]: "be_value [] = 0"
  by (simp add: be_value_def)

lemma be_value_Cons [simp]: "be_value (b # bs) = of_char b * 256 ^ length bs + be_value bs"
  using be_value_foldl [of "of_char b" bs] by (simp add: be_value_def)

lemma be_value_bound: "be_value bs < 256 ^ length bs"
proof (induction bs)
  case (Cons b bs)
  have "of_char b * 256 ^ length bs \<le> 255 * (256 ^ length bs :: nat)"
    using of_char_less_256 [of b] by (intro mult_right_mono) linarith+
  with Cons show ?case by (simp only: be_value_Cons length_Cons power_Suc)
qed simp

lemma be_value_zeros [simp]: "be_value (replicate n (CHR 0x00) @ bs) = be_value bs"
  by (induction n) auto

lemma be_value_dropWhile: "be_value (dropWhile (\<lambda>b. b = CHR 0x00) bs) = be_value bs"
  by (induction bs) auto

text \<open>On byte strings of one length, numeric order is lexicographic order.\<close>

lemma be_value_less_iff:
  "length as = length bs \<Longrightarrow> be_value as < be_value bs \<longleftrightarrow> as < bs"
proof (induction as bs rule: list_induct2)
  case (Cons a as b bs)
  let ?m = "256 ^ length bs :: nat"
  have lt: "be_value as < ?m" "be_value bs < ?m"
    using be_value_bound [of as] be_value_bound [of bs] Cons.hyps by simp_all
  have step: "of_char x * ?m + be_value xs < of_char y * ?m + be_value ys"
    if "(of_char x :: nat) < of_char y" and "be_value xs < ?m" for x y xs ys
  proof -
    have "of_char x * ?m + be_value xs < Suc (of_char x) * ?m" using that(2) by simp
    also have "\<dots> \<le> of_char y * ?m" using that(1) by (intro mult_right_mono) auto
    finally show ?thesis by simp
  qed
  show ?case
  proof (cases "(of_char a :: nat)" "of_char b :: nat" rule: linorder_cases)
    case less
    then have "a < b" by (simp add: less_char_def)
    with step [OF less lt(1), of bs] show ?thesis by (simp add: Cons.hyps)
  next
    case equal
    with Cons show ?thesis by simp
  next
    case greater
    then have "a \<noteq> b" "\<not> a < b" by (auto simp: less_char_def)
    with step [OF greater lt(2), of as] show ?thesis by (simp add: Cons.hyps)
  qed
qed simp

lemma append_less_iff:
  fixes as bs :: bytes
  shows "length as = length bs \<Longrightarrow> as @ xs < bs @ ys \<longleftrightarrow> as < bs \<or> as = bs \<and> xs < ys"
  by (induction as bs rule: list_induct2) auto

lemma be_value_digits:
  "be_value (map (\<lambda>i. char_of (n div 256 ^ (k - Suc i))) [0..<k]) = n mod 256 ^ k"
proof (induction k)
  case (Suc k)
  have "map (\<lambda>i. char_of (n div 256 ^ (Suc k - Suc i)) :: char) [0..<Suc k]
      = char_of (n div 256 ^ k) # map (\<lambda>i. char_of (n div 256 ^ (k - Suc i))) [0..<k]"
    by (simp only: map_upt_Suc) simp
  moreover have "n mod 256 ^ Suc k = 256 ^ k * (n div 256 ^ k mod 256) + n mod 256 ^ k"
    using mod_mult2_eq [of n "256 ^ k" 256] by (simp add: mult.commute)
  ultimately show ?case
    by (simp only: be_value_Cons length_map length_upt Suc of_char_of) (simp add: mult.commute)
qed simp

lemma length_PutUint64 [simp]: "length (PutUint64 n) = 8"
  by (simp add: PutUint64_def)

lemma be_value_PutUint64 [simp]: "be_value (PutUint64 n) = unat n"
proof -
  have "PutUint64 n = map (\<lambda>i. char_of (unat n div 256 ^ (8 - Suc i))) [0..<8]"
    by (simp add: PutUint64_def)
  moreover have "unat n mod 256 ^ 8 = unat n"
    using unsigned_less [where 'a = nat, of n] by simp
  ultimately show ?thesis by (simp only: be_value_digits)
qed

text \<open>The significant bytes of a number, and its encoding without the loop.\<close>

definition sig_bytes :: "u64 \<Rightarrow> bytes" where
  "sig_bytes n = dropWhile (\<lambda>b. b = CHR 0x00) (PutUint64 n)"

definition opv_bytes :: "u64 \<Rightarrow> bytes" where
  "opv_bytes n = char_of (length (sig_bytes n)) # sig_bytes n"

lemma length_sig_bytes: "length (sig_bytes n) \<le> 8"
  using length_dropWhile_le [of "\<lambda>b. b = CHR 0x00" "PutUint64 n"] by (simp add: sig_bytes_def)

lemma be_value_sig_bytes [simp]: "be_value (sig_bytes n) = unat n"
  by (simp add: sig_bytes_def be_value_dropWhile)

lemma firstNonZero_eq:
  "i + length bs = 8 \<Longrightarrow> firstNonZero i bs =
     (let d = dropWhile (\<lambda>b. b = CHR 0x00) bs in if d = [] then (0, 0) else (8 - length d, length d))"
proof (induction i bs rule: firstNonZero.induct)
  case (2 i b bs)
  then have "8 - i = Suc (length bs)" "8 - Suc (length bs) = i" by simp_all
  with 2 show ?case by (cases "b = CHR 0x00") simp_all
qed simp

lemma EncodeVarint_small: "v < 128 \<Longrightarrow> EncodeVarint v = [char_of v]"
  by (subst EncodeVarint.simps) simp

lemma encode_opv: "EncodeOrderPreservingVarUint64 n = Inr (opv_bytes n)"
proof -
  let ?d = "sig_bytes n" and ?t = "takeWhile (\<lambda>b. b = CHR 0x00) (PutUint64 n)"
  have split: "?t @ ?d = PutUint64 n" by (simp add: sig_bytes_def)
  then have "length ?t + length ?d = 8" by (metis length_PutUint64 length_append)
  then have "drop (8 - length ?d) (PutUint64 n) = ?d"
    by (subst split [symmetric]) simp
  moreover have "EncodeVarint (length ?d) = [char_of (length ?d)]"
    using length_sig_bytes [of n] by (intro EncodeVarint_small) simp
  moreover have "EncodeVarint 0 = [char_of (0::nat)]"
    by (intro EncodeVarint_small) simp
  moreover have "firstNonZero 0 (PutUint64 n) = (if ?d = [] then (0, 0) else (8 - length ?d, length ?d))"
    using firstNonZero_eq [of 0 "PutUint64 n"] by (simp add: sig_bytes_def Let_def)
  ultimately show ?thesis
    by (auto simp: EncodeOrderPreservingVarUint64_def opv_bytes_def Let_def)
qed

lemma decode_opv: "DecodeOrderPreservingVarUint64 (opv_bytes n @ rest) = Inr (n, length (opv_bytes n))"
proof -
  let ?k = "length (sig_bytes n)"
  have k: "?k \<le> 8" by (rule length_sig_bytes)
  then have "DecodeVarint (opv_bytes n @ rest) = (?k, 1)"
    by (simp add: opv_bytes_def DecodeVarint_def Let_def)
  moreover have "take ?k (drop 1 (opv_bytes n @ rest)) = sig_bytes n"
    by (simp add: opv_bytes_def)
  moreover have "Uint64 (replicate (8 - ?k) (CHR 0x00) @ sig_bytes n) = n"
    by (simp add: Uint64_def)
  ultimately show ?thesis
    using k by (simp add: DecodeOrderPreservingVarUint64_def opv_bytes_def)
qed

lemma sig_bytes_lower_bound:
  assumes "sig_bytes n \<noteq> []"
  shows "256 ^ (length (sig_bytes n) - 1) \<le> unat n"
proof -
  from assms obtain b bs where d: "sig_bytes n = b # bs" by (cases "sig_bytes n") auto
  have "b \<noteq> CHR 0x00"
    using hd_dropWhile [of "\<lambda>b. b = CHR 0x00" "PutUint64 n"] d unfolding sig_bytes_def
    by (metis list.discI list.sel(1))
  then have "(of_char b :: nat) \<noteq> 0"
    using of_char_eq_iff [where 'a = nat, of b "CHR 0x00"] by simp
  then have "256 ^ length bs \<le> of_char b * (256 ^ length bs :: nat)"
    by simp
  also have "\<dots> \<le> be_value (b # bs)" by simp
  also have "\<dots> = unat n" by (simp only: d [symmetric] be_value_sig_bytes)
  finally show ?thesis by (simp add: d)
qed

lemma sig_bytes_shorter: "length (sig_bytes m) < length (sig_bytes n) \<Longrightarrow> unat m < unat n"
proof -
  assume lt: "length (sig_bytes m) < length (sig_bytes n)"
  have "unat m < 256 ^ length (sig_bytes m)"
    using be_value_bound [of "sig_bytes m"] by simp
  also have "\<dots> \<le> 256 ^ (length (sig_bytes n) - 1)"
    using lt by (intro power_increasing) auto
  also have "\<dots> \<le> unat n" using lt by (intro sig_bytes_lower_bound) auto
  finally show ?thesis .
qed

text \<open>Encodings followed by anything compare like the numbers, then like what follows.\<close>

lemma opv_append_less_iff:
  "opv_bytes m @ xs < opv_bytes n @ ys \<longleftrightarrow> m < n \<or> m = n \<and> xs < ys"
proof (cases "length (sig_bytes m)" "length (sig_bytes n)" rule: linorder_cases)
  case less
  with sig_bytes_shorter [OF less] length_sig_bytes [of n] show ?thesis
    by (auto simp: opv_bytes_def less_char_def word_less_nat_alt)
next
  case equal
  then have "sig_bytes m < sig_bytes n \<longleftrightarrow> m < n"
    using be_value_less_iff [OF equal] by (simp add: word_less_nat_alt)
  moreover have "sig_bytes m = sig_bytes n \<longleftrightarrow> m = n"
    by (metis be_value_sig_bytes unsigned_word_eqI)
  ultimately show ?thesis
    using append_less_iff [OF equal] equal by (auto simp: opv_bytes_def)
next
  case greater
  with sig_bytes_shorter [OF greater] length_sig_bytes [of m] show ?thesis
    by (auto simp: opv_bytes_def less_char_def word_less_nat_alt)
qed

lemma ToBytes_opv: "ToBytes h = Inr (opv_bytes (BlockNum h) @ opv_bytes (TxNum h))"
  by (simp add: ToBytes_def encode_opv)

lemma Compare_0_iff: "Compare h h1 = 0 \<longleftrightarrow> h = h1"
  by (auto simp: Compare_def intro: Height.equality)

lemma AreSame_iff [simp]: "AreSame a b \<longleftrightarrow> a = b"
  by (cases "(a, b)" rule: AreSame.cases) (auto simp: Compare_0_iff)

lemma sint_below_2p63:
  fixes a :: u64
  assumes "a < 2 ^ 63"
  shows "sint a = uint a"
proof -
  from assms have "uint a < 2 ^ 63" by (simp add: word_less_def)
  moreover have "0 \<le> uint a" by simp
  ultimately have "signed_take_bit 63 (uint a) = uint a"
    by (intro signed_take_bit_int_eq_self) linarith+
  then show ?thesis by (simp add: sint_uint)
qed

lemma sint_diff_pos_iff:
  fixes a b :: u64
  assumes "a < 2 ^ 63" and "b < 2 ^ 63"
  shows "sint (a - b) > 0 \<longleftrightarrow> b < a"
proof -
  from assms have "uint a < 2 ^ 63" "uint b < 2 ^ 63" by (simp_all add: word_less_def)
  moreover have "0 \<le> uint a" "0 \<le> uint b" by simp_all
  ultimately have "signed_take_bit 63 (uint a - uint b) = uint a - uint b"
    by (intro signed_take_bit_int_eq_self) linarith+
  then have "sint (a - b) = uint a - uint b"
    using assms by (simp add: sint_word_ariths sint_below_2p63)
  then show ?thesis by (simp add: word_less_def)
qed

section \<open>Properties\<close>

text \<open>
  C17: reading a serialized height from the front of any byte string gives back the height and the
  number of bytes it takes, and serializing never panics.
\<close>

theorem height_roundtrip:
  "\<exists>b. ToBytes h = Inr b \<and> NewHeightFromBytes (b @ rest) = Inr (h, length b)"
  by (auto simp: ToBytes_opv NewHeightFromBytes_def decode_opv NewHeight_def)

text \<open>
  C18: the serialized form preserves order: comparing the bytes of two heights as a database does
  is comparing block numbers first and transaction numbers second.
\<close>

theorem height_bytes_order:
  "\<exists>b1 b2. ToBytes h1 = Inr b1 \<and> ToBytes h2 = Inr b2 \<and>
     (b1 < b2 \<longleftrightarrow> BlockNum h1 < BlockNum h2 \<or> BlockNum h1 = BlockNum h2 \<and> TxNum h1 < TxNum h2)"
  using opv_append_less_iff [of "TxNum h1" "[]" "TxNum h2" "[]"]
  by (auto simp: ToBytes_opv opv_append_less_iff)

text \<open>
  C19: while block and transaction numbers stay below \<open>2 ^ 63\<close>, \<open>Compare\<close> is the
  lexicographic order of heights: the wrapped 64-bit difference read as a signed number has the
  right sign. The bound is needed: at \<open>2 ^ 63\<close> the sign flips.
\<close>

theorem Compare_orders_heights:
  assumes "BlockNum h < 2 ^ 63" "BlockNum h1 < 2 ^ 63" "TxNum h < 2 ^ 63" "TxNum h1 < 2 ^ 63"
  shows "Compare h h1 =
      (if BlockNum h < BlockNum h1 \<or> BlockNum h = BlockNum h1 \<and> TxNum h < TxNum h1 then -1
       else if h = h1 then 0 else 1)
    \<and> Compare (NewHeight (2 ^ 63) 0) (NewHeight 0 0) = -1"
proof
  show "Compare h h1 =
      (if BlockNum h < BlockNum h1 \<or> BlockNum h = BlockNum h1 \<and> TxNum h < TxNum h1 then -1
       else if h = h1 then 0 else 1)"
    using assms by (auto simp: Compare_def sint_diff_pos_iff not_less_iff_gr_or_eq intro: Height.equality)
  show "Compare (NewHeight (2 ^ 63) 0) (NewHeight 0 0) = -1"
    by (simp add: Compare_def NewHeight_def)
qed

theorem Compare_orders_heights_witness:
  "Compare (NewHeight 5 2) (NewHeight 5 3) = -1 \<and> Compare (NewHeight 6 0) (NewHeight 5 3) = 1"
  using Compare_orders_heights [of "NewHeight 5 2" "NewHeight 5 3"]
    Compare_orders_heights [of "NewHeight 6 0" "NewHeight 5 3"]
  by (simp add: NewHeight_def)

end
