(* ===== verification/RWSet_Messages.thy ===== *)
theory RWSet_Messages
  imports Version
begin

text \<open>
  The data of read-write sets: the messages of packages kvrwset and rwset (generated from
  fabric-protos), the structs of core/ledger/kvledger/txmgmt/rwsetutil, and the part of the
  protobuf library they are serialized with.
\<close>

section \<open>Messages\<close>

record ProtoVersion =
  pv_BlockNum :: u64
  pv_TxNum :: u64

record KVRead =
  r_Key :: gostring
  r_Version :: "ProtoVersion option"

record KVWrite =
  w_Key :: gostring
  w_IsDelete :: bool
  w_Value :: gobytes

record KVMetadataEntry =
  me_Name :: gostring
  me_Value :: gobytes

text \<open>
  The empty list of entries is the nil slice: both the builder below and protobuf's decoder leave
  a repeated field without elements nil.
\<close>

record KVMetadataWrite =
  mw_Key :: gostring
  mw_Entries :: "KVMetadataEntry list"

record QueryReadsMerkleSummary =
  ms_MaxDegree :: u32
  ms_MaxLevel :: u32
  ms_MaxLevelHashes :: "bytes list"

datatype ReadsInfo = RawReads "KVRead list" | ReadsMerkleHashes QueryReadsMerkleSummary

record RangeQueryInfo =
  rq_StartKey :: gostring
  rq_EndKey :: gostring
  rq_ItrExhausted :: bool
  rq_ReadsInfo :: "ReadsInfo option"

record KVRWSet =
  Reads :: "KVRead list"
  RangeQueriesInfo :: "RangeQueryInfo list"
  Writes :: "KVWrite list"
  MetadataWrites :: "KVMetadataWrite list"

record KVReadHash =
  rh_KeyHash :: bytes
  rh_Version :: "ProtoVersion option"

record KVWriteHash =
  wh_KeyHash :: bytes
  wh_IsDelete :: bool
  wh_ValueHash :: gobytes
  wh_IsPurge :: bool

record KVMetadataWriteHash =
  mh_KeyHash :: bytes
  mh_Entries :: "KVMetadataEntry list"

record HashedRWSet =
  HashedReads :: "KVReadHash list"
  HashedWrites :: "KVWriteHash list"
  HashedMetadataWrites :: "KVMetadataWriteHash list"

record CollHashedRwSet =
  ch_CollectionName :: gostring
  HashedRwSet :: HashedRWSet
  PvtRwSetHash :: gobytes

record NsRwSet =
  NameSpace :: gostring
  KvRwSet :: KVRWSet
  CollHashedRwSets :: "CollHashedRwSet list"

record TxRwSet =
  NsRwSets :: "NsRwSet list"

record CollPvtRwSet =
  cp_CollectionName :: gostring
  cp_KvRwSet :: KVRWSet

record NsPvtRwSet =
  np_NameSpace :: gostring
  CollPvtRwSets :: "CollPvtRwSet list"

record TxPvtRwSet =
  NsPvtRwSets :: "NsPvtRwSet list"

text \<open>The messages of package rwset, in which the nested sets are already serialized.\<close>

record CollectionHashedReadWriteSet =
  chp_CollectionName :: gostring
  chp_HashedRwset :: bytes
  chp_PvtRwsetHash :: gobytes

record NsReadWriteSet =
  nrp_Namespace :: gostring
  nrp_Rwset :: bytes
  nrp_CollectionHashedRwset :: "CollectionHashedReadWriteSet list"

datatype DataModel = TxReadWriteSet_KV

record TxReadWriteSet =
  trp_DataModel :: DataModel
  trp_NsRwset :: "NsReadWriteSet list"

record CollectionPvtReadWriteSet =
  cpp_CollectionName :: gostring
  cpp_Rwset :: bytes

record NsPvtReadWriteSet =
  npp_Namespace :: gostring
  npp_CollectionPvtRwset :: "CollectionPvtReadWriteSet list"

record TxPvtReadWriteSet =
  tpp_DataModel :: DataModel
  tpp_NsPvtRwset :: "NsPvtReadWriteSet list"

section \<open>Lite messages\<close>

text \<open>
  The lite messages of package common. Reads, writes, metadata writes and range queries have the
  fields of their kvrwset counterparts and share their records; the hashed write has no purge flag,
  and nested sets are pointers that may be nil.
\<close>

record LtxKVWriteHash =
  lwh_KeyHash :: bytes
  lwh_IsDelete :: bool
  lwh_ValueHash :: gobytes

record LtxHashedRWSet =
  lh_HashedReads :: "KVReadHash list"
  lh_HashedWrites :: "LtxKVWriteHash list"
  lh_MetadataWrites :: "KVMetadataWriteHash list"

record LtxCollectionHashedRwset =
  lc_CollectionName :: gostring
  lc_HashedRwset :: "LtxHashedRWSet option"
  lc_PvtRwsetHash :: gobytes

record LtxNsReadWriteSet =
  ln_Namespace :: gostring
  ln_Rwset :: "KVRWSet option"
  ln_CollectionHashedRwset :: "LtxCollectionHashedRwset list"

record LtxReadWriteSet =
  lt_NsRwset :: "LtxNsReadWriteSet list"

section \<open>The protobuf library\<close>

text \<open>
  The protobuf library, as the conversions use it: one pair of \<open>proto.Marshal\<close> and
  \<open>proto.Unmarshal\<close> per message type.
\<close>

record proto_codec =
  Marshal_KVRWSet :: "KVRWSet \<Rightarrow> bytes res"
  Unmarshal_KVRWSet :: "bytes \<Rightarrow> KVRWSet res"
  Marshal_HashedRWSet :: "HashedRWSet \<Rightarrow> bytes res"
  Unmarshal_HashedRWSet :: "bytes \<Rightarrow> HashedRWSet res"
  Marshal_TxReadWriteSet :: "TxReadWriteSet \<Rightarrow> bytes res"
  Unmarshal_TxReadWriteSet :: "bytes \<Rightarrow> TxReadWriteSet res"
  Marshal_TxPvtReadWriteSet :: "TxPvtReadWriteSet \<Rightarrow> bytes res"
  Unmarshal_TxPvtReadWriteSet :: "bytes \<Rightarrow> TxPvtReadWriteSet res"

section \<open>The state of the read-write set builder\<close>

record rangeQueryKey =
  rk_startKey :: gostring
  rk_endKey :: gostring
  rk_itrExhausted :: bool

record collHashRwBuilder =
  chb_collName :: gostring
  chb_readMap :: "(gostring, KVReadHash) gomap"
  chb_writeMap :: "(gostring, KVWriteHash) gomap"
  chb_metadataWriteMap :: "(gostring, KVMetadataWriteHash) gomap"
  chb_pvtDataHash :: gobytes

record nsPubRwBuilder =
  pub_namespace :: gostring
  pub_readMap :: "(gostring, KVRead) gomap"
  pub_writeMap :: "(gostring, KVWrite) gomap"
  pub_metadataWriteMap :: "(gostring, KVMetadataWrite) gomap"
  rangeQueriesMap :: "(rangeQueryKey, RangeQueryInfo) gomap"
  rangeQueriesKeys :: "rangeQueryKey list"
  pub_collHashRwBuilder :: "(gostring, collHashRwBuilder) gomap"

record collPvtRwBuilder =
  cpb_collectionName :: gostring
  cpb_writeMap :: "(gostring, KVWrite) gomap"
  cpb_metadataWriteMap :: "(gostring, KVMetadataWrite) gomap"

record nsPvtRwBuilder =
  pvt_namespace :: gostring
  collPvtRwBuilders :: "(gostring, collPvtRwBuilder) gomap"

record RWSetBuilder =
  pubRwBuilderMap :: "(gostring, nsPubRwBuilder) gomap"
  pvtRwBuilderMap :: "(gostring, nsPvtRwBuilder) gomap"

record TxSimulationResults =
  PubSimulationResults :: TxReadWriteSet
  PvtSimulationResults :: "TxPvtReadWriteSet option"

end
