(* ===== verification/StateDB.thy ===== *)
theory StateDB
  imports Version
begin

text \<open>
  The versioned key-value vocabulary of core/ledger/kvledger/txmgmt/statedb/statedb.go: versioned
  values, the update batch a block accumulates, and the iterator over a key range of a batch.
  Two interfaces are stated here as locales and used throughout: a store whose lookups see the
  latest update (\<open>kv_store\<close>), and \<open>ResultsIterator\<close> (\<open>results_iterator\<close>).
\<close>

section \<open>Data\<close>

record CompositeKey =
  ck_Namespace :: gostring
  ck_Key :: gostring

record VersionedValue =
  vv_Value :: gobytes
  vv_Metadata :: gobytes
  vv_Version :: "Height option"

record VersionedKV =
  vkv_CompositeKey :: CompositeKey
  vkv_VersionedValue :: VersionedValue

type_synonym nsUpdates = "(gostring, VersionedValue) gomap"

record UpdateBatch =
  ContainsPostOrderWrites :: bool
  Updates :: "(gostring, nsUpdates) gomap"
  SchemaUpdates :: "gostring list"

abbreviation vkv_Key :: "VersionedKV \<Rightarrow> gostring" where
  "vkv_Key x \<equiv> ck_Key (vkv_CompositeKey x)"

abbreviation vkv_Value :: "VersionedKV \<Rightarrow> gobytes" where
  "vkv_Value x \<equiv> vv_Value (vkv_VersionedValue x)"

abbreviation vkv_Version :: "VersionedKV \<Rightarrow> Height option" where
  "vkv_Version x \<equiv> vv_Version (vkv_VersionedValue x)"

definition VersionedValue_IsDelete :: "VersionedValue \<Rightarrow> bool" where
  "VersionedValue_IsDelete vv = (vv_Value vv = None)"

section \<open>The update batch\<close>

definition NewUpdateBatch :: UpdateBatch where
  "NewUpdateBatch = \<lparr>ContainsPostOrderWrites = False, Updates = [], SchemaUpdates = []\<rparr>"

definition UpdateBatch_Get :: "UpdateBatch \<Rightarrow> gostring \<Rightarrow> gostring \<Rightarrow> VersionedValue option" where
  "UpdateBatch_Get batch ns key =
     (case map_of (Updates batch) ns of None \<Rightarrow> None
      | Some nsUpds \<Rightarrow> (case map_of nsUpds key of None \<Rightarrow> None | Some vv \<Rightarrow> Some vv))"

definition getOrCreateNsUpdates :: "UpdateBatch \<Rightarrow> gostring \<Rightarrow> nsUpdates" where
  "getOrCreateNsUpdates batch ns = (case map_of (Updates batch) ns of None \<Rightarrow> [] | Some m \<Rightarrow> m)"

definition UpdateBatch_Update :: "gostring \<Rightarrow> gostring \<Rightarrow> VersionedValue \<Rightarrow> UpdateBatch \<Rightarrow> UpdateBatch" where
  "UpdateBatch_Update ns key vv batch =
     batch\<lparr>Updates := AList.update ns (AList.update key vv (getOrCreateNsUpdates batch ns)) (Updates batch)\<rparr>"

definition PutValAndMetadata ::
  "gostring \<Rightarrow> gostring \<Rightarrow> gobytes \<Rightarrow> gobytes \<Rightarrow> Height option \<Rightarrow> UpdateBatch \<Rightarrow> UpdateBatch res" where
  "PutValAndMetadata ns key val metadata version batch =
     (if val = None then Inl (Panic ''Nil value not allowed. Instead call 'Delete' function'')
      else Inr (UpdateBatch_Update ns key
             \<lparr>vv_Value = val, vv_Metadata = metadata, vv_Version = version\<rparr> batch))"

definition UpdateBatch_Put ::
  "gostring \<Rightarrow> gostring \<Rightarrow> gobytes \<Rightarrow> Height option \<Rightarrow> UpdateBatch \<Rightarrow> UpdateBatch res" where
  "UpdateBatch_Put ns key val version batch = PutValAndMetadata ns key val None version batch"

definition UpdateBatch_Delete :: "gostring \<Rightarrow> gostring \<Rightarrow> Height option \<Rightarrow> UpdateBatch \<Rightarrow> UpdateBatch" where
  "UpdateBatch_Delete ns key version batch =
     UpdateBatch_Update ns key \<lparr>vv_Value = None, vv_Metadata = None, vv_Version = version\<rparr> batch"

definition UpdateBatch_Exists :: "UpdateBatch \<Rightarrow> gostring \<Rightarrow> gostring \<Rightarrow> bool" where
  "UpdateBatch_Exists batch ns key =
     (case map_of (Updates batch) ns of None \<Rightarrow> False | Some nsUpds \<Rightarrow> map_of nsUpds key \<noteq> None)"

definition GetUpdatedNamespaces :: "UpdateBatch \<Rightarrow> gostring list" where
  "GetUpdatedNamespaces batch = map fst (Updates batch)"

definition GetUpdates :: "UpdateBatch \<Rightarrow> gostring \<Rightarrow> nsUpdates" where
  "GetUpdates batch ns = (case map_of (Updates batch) ns of None \<Rightarrow> [] | Some m \<Rightarrow> m)"

definition Merge :: "UpdateBatch \<Rightarrow> UpdateBatch \<Rightarrow> UpdateBatch" where
  "Merge batch toMerge =
     fold (\<lambda>(ns, nsUpds). fold (\<lambda>(key, vv). UpdateBatch_Update ns key vv) nsUpds)
       (Updates toMerge)
       (batch\<lparr>ContainsPostOrderWrites := ContainsPostOrderWrites batch \<or> ContainsPostOrderWrites toMerge\<rparr>)"

section \<open>The iterator over a key range of a batch\<close>

record nsIterator =
  it_ns :: gostring
  it_nsUpdates :: nsUpdates
  sortedKeys :: "gostring list"
  nextIndex :: nat
  lastIndex :: nat

text \<open>\<open>sort.SearchStrings\<close>: the first index whose element is not less than \<open>x\<close>.\<close>

definition SearchStrings :: "gostring list \<Rightarrow> gostring \<Rightarrow> nat" where
  "SearchStrings a x = length (takeWhile (\<lambda>k. k < x) a)"

definition newNsIterator :: "gostring \<Rightarrow> gostring \<Rightarrow> gostring \<Rightarrow> UpdateBatch \<Rightarrow> nsIterator" where
  "newNsIterator ns startKey endKey batch =
     (case map_of (Updates batch) ns of
        None \<Rightarrow> \<lparr>it_ns = '''', it_nsUpdates = [], sortedKeys = [], nextIndex = 0, lastIndex = 0\<rparr>
      | Some nsUpds \<Rightarrow>
          (let keys = GetSortedKeys nsUpds in
           \<lparr>it_ns = ns, it_nsUpdates = nsUpds, sortedKeys = keys,
            nextIndex = (if startKey = '''' then 0 else SearchStrings keys startKey),
            lastIndex = (if endKey = '''' then length keys else SearchStrings keys endKey)\<rparr>))"

abbreviation GetRangeScanIterator :: "UpdateBatch \<Rightarrow> gostring \<Rightarrow> gostring \<Rightarrow> gostring \<Rightarrow> nsIterator" where
  "GetRangeScanIterator batch ns startKey endKey \<equiv> newNsIterator ns startKey endKey batch"

text \<open>
  \<open>Next\<close> of an iterator returns the result, \<open>None\<close> being nil, and the iterator afterwards. The
  map lookup of a key taken from the map's own key list always succeeds; where it does not, the
  source would dereference nil.
\<close>

definition nsIterator_Next :: "nsIterator \<Rightarrow> VersionedKV option res \<times> nsIterator" where
  "nsIterator_Next itr =
     (if nextIndex itr \<ge> lastIndex itr then (Inr None, itr)
      else if nextIndex itr \<ge> length (sortedKeys itr) then (Inl (Panic ''index out of range''), itr)
      else (let key = sortedKeys itr ! nextIndex itr in
            case map_of (it_nsUpdates itr) key of
              None \<Rightarrow> (Inl (Panic ''nil pointer dereference''), itr\<lparr>nextIndex := Suc (nextIndex itr)\<rparr>)
            | Some vv \<Rightarrow>
                (Inr (Some \<lparr>vkv_CompositeKey = \<lparr>ck_Namespace = it_ns itr, ck_Key = key\<rparr>,
                            vkv_VersionedValue = \<lparr>vv_Value = vv_Value vv, vv_Metadata = vv_Metadata vv,
                                                  vv_Version = vv_Version vv\<rparr>\<rparr>),
                 itr\<lparr>nextIndex := Suc (nextIndex itr)\<rparr>)))"

text \<open>
  A database iterator over a snapshot is the list of what its \<open>Next\<close> calls will give: a
  key-value pair or the error the call returns.
\<close>

type_synonym ResultsIterator = "VersionedKV res list"

fun ResultsIterator_Next :: "ResultsIterator \<Rightarrow> VersionedKV option res \<times> ResultsIterator" where
  "ResultsIterator_Next [] = (Inr None, [])"
| "ResultsIterator_Next (Inr x # itr) = (Inr (Some x), itr)"
| "ResultsIterator_Next (Inl e # itr) = (Inl e, itr)"

section \<open>The interface of a store\<close>

text \<open>
  What every client of a batch relies on: a lookup sees the latest update of its key and nothing
  else. Everything the validation and commit path shows about batches of batches rests on it.
\<close>

locale kv_store =
  fixes get :: "'s \<Rightarrow> 'k \<Rightarrow> 'v option"
    and upd :: "'k \<Rightarrow> 'v \<Rightarrow> 's \<Rightarrow> 's"
  assumes get_upd: "get (upd k v s) k' = (if k' = k then Some v else get s k')"
begin

lemma get_fold_upd:
  "get (fold (\<lambda>(k, v). upd k v) kvs s) k =
     (case map_of (rev kvs) k of Some v \<Rightarrow> Some v | None \<Rightarrow> get s k)"
  by (induction kvs arbitrary: s)
    (auto simp: get_upd map_add_def split: option.splits)

text \<open>Updates of distinct keys may be applied in any order.\<close>

lemma get_fold_upd_distinct:
  assumes "distinct (map fst kvs)"
  shows "get (fold (\<lambda>(k, v). upd k v) kvs s) k =
     (case map_of kvs k of Some v \<Rightarrow> Some v | None \<Rightarrow> get s k)"
proof -
  have "map_of (rev kvs) = map_of kvs"
    using assms by (subst map_of_inject_set) (simp_all flip: rev_map)
  then show ?thesis by (simp add: get_fold_upd)
qed

text \<open>Updates under renamed keys: the renaming must tell the key that is read from the others.\<close>

lemma get_fold_upd_image:
  assumes "distinct (map fst kvs)" and "\<And>k'. k' \<in> fst ` set kvs \<Longrightarrow> f k' = f k \<Longrightarrow> k' = k"
  shows "get (fold (\<lambda>(k, v). upd (f k) v) kvs s) (f k) =
     (case map_of kvs k of Some v \<Rightarrow> Some v | None \<Rightarrow> get s (f k))"
  using assms
proof (induction kvs arbitrary: s)
  case (Cons e kvs)
  obtain k' v where e: "e = (k', v)" by fastforce
  have "map_of kvs k' = None" using Cons.prems(1) e by (simp add: map_of_eq_None_iff)
  moreover have "k' = k \<or> f k' \<noteq> f k" using Cons.prems(2) [of k'] e by auto
  ultimately show ?case
    using Cons e by (auto simp: get_upd split: option.splits)
qed simp

lemma get_fold_upd_other:
  assumes "k \<notin> f ` fst ` set kvs"
  shows "get (fold (\<lambda>(k, v). upd (f k) v) kvs s) k = get s k"
  using assms by (induction kvs arbitrary: s) (auto simp: get_upd)

lemma get_fold_upd_cases:
  "get (fold (\<lambda>(k, v). upd (f k) v) kvs s) k = Some v \<Longrightarrow> get s k = Some v \<or> (\<exists>k'. (k', v) \<in> set kvs \<and> f k' = k)"
proof (induction kvs arbitrary: s)
  case (Cons e kvs)
  obtain k1 v1 where e: "e = (k1, v1)" by fastforce
  with Cons have "get (upd (f k1) v1 s) k = Some v \<or> (\<exists>k'. (k', v) \<in> set kvs \<and> f k' = k)" by simp
  then show ?case using e by (auto simp: get_upd split: if_splits)
qed simp

lemma fold_upd_order:
  assumes "distinct (map fst kvs)" and "distinct (map fst kvs')" and "set kvs = set kvs'"
  shows "get (fold (\<lambda>(k, v). upd k v) kvs s) k = get (fold (\<lambda>(k, v). upd k v) kvs' s) k"
proof -
  have "map_of kvs = map_of kvs'"
    using assms by (simp add: map_of_inject_set)
  then show ?thesis
    using assms by (simp add: get_fold_upd_distinct)
qed

end

abbreviation batch_get :: "UpdateBatch \<Rightarrow> gostring \<times> gostring \<Rightarrow> VersionedValue option" where
  "batch_get b \<equiv> \<lambda>(ns, key). UpdateBatch_Get b ns key"

abbreviation batch_upd :: "gostring \<times> gostring \<Rightarrow> VersionedValue \<Rightarrow> UpdateBatch \<Rightarrow> UpdateBatch" where
  "batch_upd \<equiv> \<lambda>(ns, key). UpdateBatch_Update ns key"

lemma UpdateBatch_Get_Update [simp]:
  "UpdateBatch_Get (UpdateBatch_Update ns key vv b) ns' key' =
     (if ns' = ns \<and> key' = key then Some vv else UpdateBatch_Get b ns' key')"
  by (auto simp: UpdateBatch_Get_def UpdateBatch_Update_def getOrCreateNsUpdates_def split: option.splits)

interpretation ub: kv_store batch_get batch_upd
proof
  fix k v s k'
  show "batch_get (batch_upd k v s) k' = (if k' = k then Some v else batch_get s k')"
    by (cases k; cases k') simp
qed

lemma UpdateBatch_Exists_iff [simp]: "UpdateBatch_Exists b ns key \<longleftrightarrow> UpdateBatch_Get b ns key \<noteq> None"
  by (simp add: UpdateBatch_Exists_def UpdateBatch_Get_def split: option.splits)

lemma UpdateBatch_Get_New [simp]: "UpdateBatch_Get NewUpdateBatch ns key = None"
  by (simp add: UpdateBatch_Get_def NewUpdateBatch_def)

lemma UpdateBatch_Get_Delete [simp]:
  "UpdateBatch_Get (UpdateBatch_Delete ns key ver b) ns' key' =
     (if ns' = ns \<and> key' = key
      then Some \<lparr>vv_Value = None, vv_Metadata = None, vv_Version = ver\<rparr>
      else UpdateBatch_Get b ns' key')"
  by (simp add: UpdateBatch_Delete_def)

lemma UpdateBatch_Get_flag [simp]:
  "UpdateBatch_Get (b\<lparr>ContainsPostOrderWrites := f\<rparr>) ns key = UpdateBatch_Get b ns key"
  by (simp add: UpdateBatch_Get_def)

text \<open>A well-formed batch: both levels of maps hold each key once.\<close>

definition wf_batch :: "UpdateBatch \<Rightarrow> bool" where
  "wf_batch b = (wf_map (Updates b) \<and> (\<forall>ns m. map_of (Updates b) ns = Some m \<longrightarrow> wf_map m))"

lemma wf_batch_New [simp]: "wf_batch NewUpdateBatch"
  by (simp add: wf_batch_def NewUpdateBatch_def)

lemma wf_batch_Update [simp]: "wf_batch b \<Longrightarrow> wf_batch (UpdateBatch_Update ns key vv b)"
  by (auto simp: wf_batch_def UpdateBatch_Update_def getOrCreateNsUpdates_def split: option.splits)

lemma wf_batch_Delete [simp]: "wf_batch b \<Longrightarrow> wf_batch (UpdateBatch_Delete ns key ver b)"
  by (simp add: UpdateBatch_Delete_def)

lemma wf_batch_flag [simp]: "wf_batch (b\<lparr>ContainsPostOrderWrites := f\<rparr>) = wf_batch b"
  by (simp add: wf_batch_def)

lemma wf_batch_PutValAndMetadata:
  "wf_batch b \<Longrightarrow> PutValAndMetadata ns key val md ver b = Inr b' \<Longrightarrow> wf_batch b'"
  by (auto simp: PutValAndMetadata_def split: if_splits)

lemma GetUpdates_Get: "map_of (GetUpdates b ns) key = UpdateBatch_Get b ns key"
  by (simp add: GetUpdates_def UpdateBatch_Get_def split: option.splits)

text \<open>All the entries of a batch, as composite keys with their values, in iteration order.\<close>

definition batch_entries :: "UpdateBatch \<Rightarrow> ((gostring \<times> gostring) \<times> VersionedValue) list" where
  "batch_entries b = concat (map (\<lambda>(ns, m). map (\<lambda>(key, vv). ((ns, key), vv)) m) (Updates b))"

lemma fold_batch_entries:
  "fold (\<lambda>(ns, m). fold (\<lambda>(key, vv). f ns key vv) m) (Updates b) s =
     fold (\<lambda>((ns, key), vv). f ns key vv) (batch_entries b) s"
proof -
  have "fold (\<lambda>(ns, m). fold (\<lambda>(key, vv). f ns key vv) m) upds s =
      fold (\<lambda>((ns, key), vv). f ns key vv)
        (concat (map (\<lambda>(ns, m). map (\<lambda>(key, vv). ((ns, key), vv)) m) upds)) s" for upds
    by (induction upds arbitrary: s) (auto simp: fold_map comp_def case_prod_unfold)
  then show ?thesis by (simp add: batch_entries_def)
qed

lemma distinct_batch_entries:
  assumes "wf_batch b"
  shows "distinct (map fst (batch_entries b))"
proof -
  have "distinct (map fst m)" if "(ns, m) \<in> set (Updates b)" for ns m
    using assms that by (auto simp: wf_batch_def wf_map_def)
  then have "distinct (concat (map (\<lambda>u. map (\<lambda>e. (fst u, fst e)) (snd u)) (Updates b)))"
    using assms by (intro distinct_nested) (auto simp: wf_batch_def wf_map_def)
  then show ?thesis
    by (simp add: batch_entries_def map_concat case_prod_unfold comp_def)
qed

lemma map_of_batch_entries:
  assumes "wf_batch b"
  shows "map_of (batch_entries b) (ns, key) = UpdateBatch_Get b ns key"
proof -
  have keyed: "map_of (map (\<lambda>(key, vv). ((n, key), vv)) m) (ns, key) = (if n = ns then map_of m key else None)"
    for n and m :: nsUpdates
    by (induction m) auto
  have "map_of (concat (map (\<lambda>(ns, m). map (\<lambda>(key, vv). ((ns, key), vv)) m) upds)) (ns, key) =
      (case map_of upds ns of None \<Rightarrow> None | Some m \<Rightarrow> map_of m key)"
    if "distinct (map fst upds)" for upds :: "(gostring \<times> nsUpdates) list"
    using that
  proof (induction upds)
    case (Cons u upds)
    obtain n m where u: "u = (n, m)" by fastforce
    have "map_of upds n = None"
      using Cons.prems u by (simp add: map_of_eq_None_iff)
    with Cons u show ?case
      by (auto simp: map_add_def keyed split: option.splits)
  qed simp
  from this [of "Updates b"] show ?thesis
    using assms
    by (simp add: batch_entries_def UpdateBatch_Get_def wf_batch_def wf_map_def split: option.splits)
qed

lemma batch_entries_GetUpdates:
  assumes "wf_batch b"
  shows "concat (map (\<lambda>ns. map (\<lambda>(k, vv). ((ns, k), vv)) (GetUpdates b ns)) (GetUpdatedNamespaces b)) = batch_entries b"
proof -
  have "GetUpdates b ns = m" if "(ns, m) \<in> set (Updates b)" for ns m
    using assms that by (simp add: wf_batch_def wf_map_def GetUpdates_def)
  then have "map (\<lambda>u. map (\<lambda>(k, vv). ((fst u, k), vv)) (GetUpdates b (fst u))) (Updates b) =
      map (\<lambda>(ns, m). map (\<lambda>(key, vv). ((ns, key), vv)) m) (Updates b)"
    by (auto intro!: map_cong simp: case_prod_unfold)
  then show ?thesis by (simp only: GetUpdatedNamespaces_def batch_entries_def map_map comp_def)
qed

lemma UpdateBatch_Get_Merge:
  assumes "wf_batch b"
  shows "UpdateBatch_Get (Merge a b) ns key =
     (case UpdateBatch_Get b ns key of Some vv \<Rightarrow> Some vv | None \<Rightarrow> UpdateBatch_Get a ns key)"
proof -
  have "Merge a b = fold (\<lambda>(k, vv). batch_upd k vv) (batch_entries b)
      (a\<lparr>ContainsPostOrderWrites := ContainsPostOrderWrites a \<or> ContainsPostOrderWrites b\<rparr>)"
    unfolding Merge_def fold_batch_entries
    by (rule fold_cong) auto
  then show ?thesis
    using ub.get_fold_upd_distinct [OF distinct_batch_entries [OF assms], of _ "(ns, key)"]
    by (simp add: map_of_batch_entries [OF assms] split: option.splits)
qed

section \<open>The interface of a results iterator\<close>

text \<open>
  \<open>statedb.ResultsIterator\<close>: \<open>remaining\<close> is what the calls of \<open>Next\<close> will give, a
  key-value pair or an error each, before nil. Which calls follow an error is not promised.
\<close>

locale results_iterator =
  fixes nxt :: "'i \<Rightarrow> VersionedKV option res \<times> 'i"
    and remaining :: "'i \<Rightarrow> VersionedKV res list"
    and invar :: "'i \<Rightarrow> bool"
  assumes nxt_nil: "invar i \<Longrightarrow> remaining i = [] \<Longrightarrow> fst (nxt i) = Inr None \<and> remaining (snd (nxt i)) = []"
    and nxt_result: "invar i \<Longrightarrow> remaining i = Inr x # r \<Longrightarrow>
      fst (nxt i) = Inr (Some x) \<and> remaining (snd (nxt i)) = r"
    and nxt_error: "invar i \<Longrightarrow> remaining i = Inl e # r \<Longrightarrow> fst (nxt i) = Inl e"
    and nxt_invar: "invar i \<Longrightarrow> invar (snd (nxt i))"

text \<open>The results of \<open>n\<close> calls of \<open>Next\<close>.\<close>

fun Next_n :: "('i \<Rightarrow> 'a option res \<times> 'i) \<Rightarrow> nat \<Rightarrow> 'i \<Rightarrow> 'a option res list" where
  "Next_n nxt 0 i = []"
| "Next_n nxt (Suc n) i = fst (nxt i) # Next_n nxt n (snd (nxt i))"

context results_iterator
begin

lemma Next_n_results:
  assumes "invar i" and "remaining i = map Inr xs"
  shows "Next_n nxt (length xs + k) i = map (\<lambda>x. Inr (Some x)) xs @ replicate k (Inr None)"
  using assms
proof (induction xs arbitrary: i)
  case Nil
  then show ?case
    by (induction k arbitrary: i) (auto simp: nxt_nil nxt_invar)
next
  case (Cons x xs)
  then show ?case by (auto simp: nxt_invar nxt_result [of i x "map Inr xs"])
qed

end

interpretation li: results_iterator ResultsIterator_Next "\<lambda>i. i" "\<lambda>_. True"
proof
  fix i :: ResultsIterator and e r
  assume "i = Inl e # r"
  then show "fst (ResultsIterator_Next i) = Inl e" by simp
qed auto

text \<open>The bounds of a range query; an empty end key stands for no bound.\<close>

definition in_range :: "gostring \<Rightarrow> gostring \<Rightarrow> gostring \<Rightarrow> bool" where
  "in_range startKey endKey key = (startKey \<le> key \<and> (endKey = '''' \<or> key < endKey))"

definition mk_kv :: "gostring \<Rightarrow> gostring \<Rightarrow> VersionedValue \<Rightarrow> VersionedKV" where
  "mk_kv ns key vv =
     \<lparr>vkv_CompositeKey = \<lparr>ck_Namespace = ns, ck_Key = key\<rparr>, vkv_VersionedValue = vv\<rparr>"

lemma mk_kv_sel [simp]:
  "vkv_Key (mk_kv ns key vv) = key" "ck_Namespace (vkv_CompositeKey (mk_kv ns key vv)) = ns"
  "vkv_VersionedValue (mk_kv ns key vv) = vv"
  by (simp_all add: mk_kv_def)

text \<open>The entries of a namespace of a batch in a key range, in key order.\<close>

definition range_entries :: "gostring \<Rightarrow> gostring \<Rightarrow> gostring \<Rightarrow> UpdateBatch \<Rightarrow> VersionedKV list" where
  "range_entries ns startKey endKey batch =
     map (\<lambda>key. mk_kv ns key (the (UpdateBatch_Get batch ns key)))
       (filter (in_range startKey endKey) (GetSortedKeys (GetUpdates batch ns)))"

definition ns_remaining :: "nsIterator \<Rightarrow> VersionedKV list" where
  "ns_remaining itr =
     map (\<lambda>key. mk_kv (it_ns itr) key (the (map_of (it_nsUpdates itr) key)))
       (drop (nextIndex itr) (take (lastIndex itr) (sortedKeys itr)))"

definition ns_invar :: "nsIterator \<Rightarrow> bool" where
  "ns_invar itr = (set (sortedKeys itr) \<subseteq> dom (map_of (it_nsUpdates itr)) \<and>
     lastIndex itr \<le> length (sortedKeys itr))"

lemma nsIterator_Next_end:
  "nextIndex itr \<ge> lastIndex itr \<Longrightarrow> nsIterator_Next itr = (Inr None, itr) \<and> ns_remaining itr = []"
  by (simp add: nsIterator_Next_def ns_remaining_def)

lemma nsIterator_Next_result:
  assumes "ns_invar itr" and "nextIndex itr < lastIndex itr"
  shows "\<exists>x. nsIterator_Next itr = (Inr (Some x), itr\<lparr>nextIndex := Suc (nextIndex itr)\<rparr>) \<and>
    ns_remaining itr = x # ns_remaining (itr\<lparr>nextIndex := Suc (nextIndex itr)\<rparr>)"
proof -
  let ?key = "sortedKeys itr ! nextIndex itr"
  have len: "nextIndex itr < length (sortedKeys itr)"
    using assms by (simp add: ns_invar_def)
  obtain vv where vv: "map_of (it_nsUpdates itr) ?key = Some vv"
    using assms(1) nth_mem [OF len] by (auto simp: ns_invar_def)
  have "drop (nextIndex itr) (take (lastIndex itr) (sortedKeys itr)) =
      ?key # drop (Suc (nextIndex itr)) (take (lastIndex itr) (sortedKeys itr))"
    using Cons_nth_drop_Suc [of "nextIndex itr" "take (lastIndex itr) (sortedKeys itr)"] len assms(2)
    by simp
  then show ?thesis
    using assms(2) len vv by (auto simp: nsIterator_Next_def ns_remaining_def mk_kv_def Let_def)
qed

lemma ns_remaining_Nil: "ns_invar itr \<Longrightarrow> ns_remaining itr = [] \<longleftrightarrow> nextIndex itr \<ge> lastIndex itr"
  by (auto simp: ns_remaining_def ns_invar_def)

interpretation ni: results_iterator nsIterator_Next "\<lambda>i. map Inr (ns_remaining i)" ns_invar
proof
  fix i x and r :: "VersionedKV res list"
  assume i: "ns_invar i"
  show "fst (nsIterator_Next i) = Inr None \<and> map Inr (ns_remaining (snd (nsIterator_Next i))) = []"
    if "map Inr (ns_remaining i) = []"
    using that nsIterator_Next_end [of i] ns_remaining_Nil [OF i] by simp
  show "fst (nsIterator_Next i) = Inr (Some x) \<and> map Inr (ns_remaining (snd (nsIterator_Next i))) = r"
    if "map Inr (ns_remaining i) = Inr x # r"
  proof -
    have "nextIndex i < lastIndex i" using that ns_remaining_Nil [OF i] by fastforce
    from nsIterator_Next_result [OF i this] that show ?thesis by auto
  qed
  show "ns_invar (snd (nsIterator_Next i))"
    using i by (auto simp: nsIterator_Next_def ns_invar_def Let_def split: option.splits)
qed (auto simp: map_eq_Cons_conv)

lemma SearchStrings_take: "sorted ks \<Longrightarrow> take (SearchStrings ks x) ks = filter (\<lambda>k. k < x) ks"
  by (metis SearchStrings_def sorted_takeWhile_less takeWhile_eq_take)

lemma SearchStrings_drop_take:
  assumes "sorted ks"
  shows "drop (SearchStrings ks x) (take j ks) = filter (\<lambda>k. x \<le> k) (take j ks)"
  using assms
proof (induction ks arbitrary: j)
  case (Cons k ks)
  show ?case
  proof (cases "k < x")
    case True
    with Cons show ?thesis by (cases j) (auto simp: SearchStrings_def)
  next
    case False
    with Cons.prems have "\<forall>k' \<in> set (take j (k # ks)). x \<le> k'"
      by (auto simp: not_less dest!: in_set_takeD intro: order_trans [of x k])
    with False show ?thesis by (simp add: SearchStrings_def filter_id_conv)
  qed
qed simp

lemma newNsIterator_invar: "ns_invar (newNsIterator ns startKey endKey batch)"
  by (auto simp: newNsIterator_def ns_invar_def SearchStrings_def Let_def length_takeWhile_le
      split: option.splits)

lemma ns_remaining_newNsIterator:
  "ns_remaining (newNsIterator ns startKey endKey batch) = range_entries ns startKey endKey batch"
proof (cases "map_of (Updates batch) ns")
  case None
  then show ?thesis
    by (simp add: newNsIterator_def ns_remaining_def range_entries_def GetUpdates_def GetSortedKeys_def)
next
  case (Some m)
  let ?ks = "GetSortedKeys m"
  define i where "i = (if startKey = '''' then 0 else SearchStrings ?ks startKey)"
  define j where "j = (if endKey = '''' then length ?ks else SearchStrings ?ks endKey)"
  have "take j ?ks = filter (\<lambda>k. endKey = '''' \<or> k < endKey) ?ks"
    by (simp add: j_def SearchStrings_take)
  moreover have "drop i (take j ?ks) = filter (\<lambda>k. startKey \<le> k) (take j ?ks)"
    using SearchStrings_drop_take [of ?ks startKey j] by (auto simp: i_def)
  moreover have "newNsIterator ns startKey endKey batch =
      \<lparr>it_ns = ns, it_nsUpdates = m, sortedKeys = ?ks, nextIndex = i, lastIndex = j\<rparr>"
    by (simp add: newNsIterator_def Some Let_def i_def j_def)
  moreover have "UpdateBatch_Get batch ns = map_of m"
    by (auto simp: UpdateBatch_Get_def Some split: option.splits)
  ultimately show ?thesis
    by (simp add: ns_remaining_def range_entries_def GetUpdates_def Some in_range_def [abs_def] conj_commute)
qed

section \<open>Properties\<close>

text \<open>
  C15: Merging a batch into another makes every lookup see the merged batch's entry where it has
  one and the original entry otherwise, whatever order Go iterates over the two levels of maps in.
\<close>

theorem Merge_lookup:
  assumes "wf_batch toMerge"
  shows "UpdateBatch_Get (Merge batch toMerge) ns key =
     (if UpdateBatch_Exists toMerge ns key then UpdateBatch_Get toMerge ns key
      else UpdateBatch_Get batch ns key)"
  using UpdateBatch_Get_Merge [OF assms] by (auto split: option.splits)

definition sample_batch :: UpdateBatch where
  "sample_batch =
     UpdateBatch_Delete ''ns1'' ''b'' (Some (NewHeight 7 2))
       (UpdateBatch_Update ''ns1'' ''a'' \<lparr>vv_Value = Some ''1'', vv_Metadata = None, vv_Version = Some (NewHeight 7 1)\<rparr>
         NewUpdateBatch)"

theorem Merge_lookup_witness:
  "UpdateBatch_Get (Merge (UpdateBatch_Delete ''ns1'' ''a'' None NewUpdateBatch) sample_batch) ''ns1'' ''a'' =
     Some \<lparr>vv_Value = Some ''1'', vv_Metadata = None, vv_Version = Some (NewHeight 7 1)\<rparr>"
  using Merge_lookup [of sample_batch "UpdateBatch_Delete ''ns1'' ''a'' None NewUpdateBatch" "''ns1''" "''a''"]
  by (simp add: sample_batch_def)

text \<open>
  C16: The range-scan iterator of a batch gives, one per call of \<open>Next\<close>, exactly the entries of
  the namespace whose key is in the range, in increasing key order, and then nil for ever. An
  empty start or end key leaves that side unbounded.
\<close>

theorem range_scan_iterator_complete:
  "Next_n nsIterator_Next (length (range_entries ns startKey endKey batch) + k)
     (newNsIterator ns startKey endKey batch) =
   map (\<lambda>kv. Inr (Some kv)) (range_entries ns startKey endKey batch) @ replicate k (Inr None)"
  by (rule ni.Next_n_results)
    (simp_all add: newNsIterator_invar ns_remaining_newNsIterator)

end
