(* ===== verification/RWSet.thy ===== *)
theory RWSet
  imports RWSet_Messages StateDB
begin

text \<open>
  Read-write sets: conversion to and from protobuf messages
  (core/ledger/kvledger/txmgmt/rwsetutil/rwset_proto_util.go), and the builder a
  simulation collects them with (rwset_builder.go). \<open>proto.Marshal\<close>, \<open>proto.Unmarshal\<close> and
  SHA-256 are parameters. Shown: conversion round trips, the built sets are sorted by key and hold
  the last operation on each key whatever the order of Go's map iteration, and the hash of every
  private collection is the one its public entry carries.
\<close>

section \<open>Small constructors and tests\<close>

definition newProtoVersion :: "Height option \<Rightarrow> ProtoVersion option" where
  "newProtoVersion height =
     (case height of None \<Rightarrow> None
      | Some h \<Rightarrow> Some \<lparr>pv_BlockNum = BlockNum h, pv_TxNum = TxNum h\<rparr>)"

definition NewVersion :: "ProtoVersion option \<Rightarrow> Height option" where
  "NewVersion protoVersion =
     (case protoVersion of None \<Rightarrow> None | Some v \<Rightarrow> Some (NewHeight (pv_BlockNum v) (pv_TxNum v)))"

definition NewKVRead :: "gostring \<Rightarrow> Height option \<Rightarrow> KVRead" where
  "NewKVRead key ver = \<lparr>r_Key = key, r_Version = newProtoVersion ver\<rparr>"

definition newKVWrite :: "gostring \<Rightarrow> gobytes \<Rightarrow> KVWrite" where
  "newKVWrite key value = \<lparr>w_Key = key, w_IsDelete = (len_bytes value = 0), w_Value = value\<rparr>"

definition newPvtKVReadHash :: "(bytes \<Rightarrow> bytes) \<Rightarrow> gostring \<Rightarrow> Height option \<Rightarrow> KVReadHash" where
  "newPvtKVReadHash ComputeHash key ver =
     \<lparr>rh_KeyHash = ComputeHash key, rh_Version = newProtoVersion ver\<rparr>"

definition newPvtKVWriteAndHash ::
  "(bytes \<Rightarrow> bytes) \<Rightarrow> gostring \<Rightarrow> gobytes \<Rightarrow> KVWrite \<times> KVWriteHash" where
  "newPvtKVWriteAndHash ComputeHash key value =
     (let kvWrite = newKVWrite key value;
          keyHash = ComputeHash key;
          valueHash = (if \<not> w_IsDelete kvWrite then Some (ComputeHash (content value)) else None)
      in (kvWrite, \<lparr>wh_KeyHash = keyHash, wh_IsDelete = w_IsDelete kvWrite,
                    wh_ValueHash = valueHash, wh_IsPurge = False\<rparr>))"

definition IsKVWriteDelete :: "KVWrite \<Rightarrow> bool" where
  "IsKVWriteDelete kvWrite = (w_IsDelete kvWrite \<or> len_bytes (w_Value kvWrite) = 0)"

definition hashOfZeroLengthByteArray :: "(bytes \<Rightarrow> bytes) \<Rightarrow> bytes" where
  "hashOfZeroLengthByteArray ComputeHash = ComputeHash []"

definition IsKVWriteHashDelete :: "(bytes \<Rightarrow> bytes) \<Rightarrow> KVWriteHash \<Rightarrow> bool" where
  "IsKVWriteHashDelete ComputeHash kvWriteHash =
     (wh_IsDelete kvWriteHash \<or> len_bytes (wh_ValueHash kvWriteHash) = 0 \<or>
      bytesEqual (Some (hashOfZeroLengthByteArray ComputeHash)) (wh_ValueHash kvWriteHash))"

section \<open>Conversion to and from protobuf\<close>

definition CollHashedRwSet_toProtoMsg :: "proto_codec \<Rightarrow> CollHashedRwSet \<Rightarrow> CollectionHashedReadWriteSet res" where
  "CollHashedRwSet_toProtoMsg pc collHashedRwSet =
     bindE (Marshal_HashedRWSet pc (HashedRwSet collHashedRwSet)) (\<lambda>b.
       Inr \<lparr>chp_CollectionName = ch_CollectionName collHashedRwSet, chp_HashedRwset = b,
            chp_PvtRwsetHash = PvtRwSetHash collHashedRwSet\<rparr>)"

definition collHashedRwSetFromProtoMsg :: "proto_codec \<Rightarrow> CollectionHashedReadWriteSet \<Rightarrow> CollHashedRwSet res" where
  "collHashedRwSetFromProtoMsg pc protoMsg =
     bindE (Unmarshal_HashedRWSet pc (chp_HashedRwset protoMsg)) (\<lambda>h.
       Inr \<lparr>ch_CollectionName = chp_CollectionName protoMsg, HashedRwSet = h,
            PvtRwSetHash = chp_PvtRwsetHash protoMsg\<rparr>)"

definition NsRwSet_toProtoMsg :: "proto_codec \<Rightarrow> NsRwSet \<Rightarrow> NsReadWriteSet res" where
  "NsRwSet_toProtoMsg pc nsRwSet =
     bindE (Marshal_KVRWSet pc (KvRwSet nsRwSet)) (\<lambda>b.
     bindE (mapE (CollHashedRwSet_toProtoMsg pc) (CollHashedRwSets nsRwSet)) (\<lambda>colls.
       Inr \<lparr>nrp_Namespace = NameSpace nsRwSet, nrp_Rwset = b, nrp_CollectionHashedRwset = colls\<rparr>))"

definition nsRwSetFromProtoMsg :: "proto_codec \<Rightarrow> NsReadWriteSet \<Rightarrow> NsRwSet res" where
  "nsRwSetFromProtoMsg pc protoMsg =
     bindE (Unmarshal_KVRWSet pc (nrp_Rwset protoMsg)) (\<lambda>kv.
     bindE (mapE (collHashedRwSetFromProtoMsg pc) (nrp_CollectionHashedRwset protoMsg)) (\<lambda>colls.
       Inr \<lparr>NameSpace = nrp_Namespace protoMsg, KvRwSet = kv, CollHashedRwSets = colls\<rparr>))"

definition TxRwSet_toProtoMsg :: "proto_codec \<Rightarrow> TxRwSet \<Rightarrow> TxReadWriteSet res" where
  "TxRwSet_toProtoMsg pc txRwSet =
     bindE (mapE (NsRwSet_toProtoMsg pc) (NsRwSets txRwSet)) (\<lambda>nss.
       Inr \<lparr>trp_DataModel = TxReadWriteSet_KV, trp_NsRwset = nss\<rparr>)"

definition TxRwSetFromProtoMsg :: "proto_codec \<Rightarrow> TxReadWriteSet \<Rightarrow> TxRwSet res" where
  "TxRwSetFromProtoMsg pc protoMsg =
     bindE (mapE (nsRwSetFromProtoMsg pc) (trp_NsRwset protoMsg)) (\<lambda>nss. Inr \<lparr>NsRwSets = nss\<rparr>)"

definition TxRwSet_ToProtoBytes :: "proto_codec \<Rightarrow> TxRwSet \<Rightarrow> bytes res" where
  "TxRwSet_ToProtoBytes pc txRwSet =
     bindE (TxRwSet_toProtoMsg pc txRwSet) (Marshal_TxReadWriteSet pc)"

text \<open>The receiver's fields are assigned at the end, so the result is the receiver afterwards.\<close>

definition TxRwSet_FromProtoBytes :: "proto_codec \<Rightarrow> bytes \<Rightarrow> TxRwSet \<Rightarrow> TxRwSet res" where
  "TxRwSet_FromProtoBytes pc protoBytes txRwSet =
     bindE (Unmarshal_TxReadWriteSet pc protoBytes) (\<lambda>protoMsg.
     bindE (TxRwSetFromProtoMsg pc protoMsg) (\<lambda>txRwSetTemp.
       Inr (txRwSet\<lparr>NsRwSets := NsRwSets txRwSetTemp\<rparr>)))"

definition CollPvtRwSet_ToProtoMsg :: "proto_codec \<Rightarrow> CollPvtRwSet \<Rightarrow> CollectionPvtReadWriteSet res" where
  "CollPvtRwSet_ToProtoMsg pc collPvtRwSet =
     bindE (Marshal_KVRWSet pc (cp_KvRwSet collPvtRwSet)) (\<lambda>b.
       Inr \<lparr>cpp_CollectionName = cp_CollectionName collPvtRwSet, cpp_Rwset = b\<rparr>)"

definition CollPvtRwSetFromProtoMsg :: "proto_codec \<Rightarrow> CollectionPvtReadWriteSet \<Rightarrow> CollPvtRwSet res" where
  "CollPvtRwSetFromProtoMsg pc protoMsg =
     bindE (Unmarshal_KVRWSet pc (cpp_Rwset protoMsg)) (\<lambda>kv.
       Inr \<lparr>cp_CollectionName = cpp_CollectionName protoMsg, cp_KvRwSet = kv\<rparr>)"

definition NsPvtRwSet_toProtoMsg :: "proto_codec \<Rightarrow> NsPvtRwSet \<Rightarrow> NsPvtReadWriteSet res" where
  "NsPvtRwSet_toProtoMsg pc nsPvtRwSet =
     bindE (mapE (CollPvtRwSet_ToProtoMsg pc) (CollPvtRwSets nsPvtRwSet)) (\<lambda>colls.
       Inr \<lparr>npp_Namespace = np_NameSpace nsPvtRwSet, npp_CollectionPvtRwset = colls\<rparr>)"

definition nsPvtRwSetFromProtoMsg :: "proto_codec \<Rightarrow> NsPvtReadWriteSet \<Rightarrow> NsPvtRwSet res" where
  "nsPvtRwSetFromProtoMsg pc protoMsg =
     bindE (mapE (CollPvtRwSetFromProtoMsg pc) (npp_CollectionPvtRwset protoMsg)) (\<lambda>colls.
       Inr \<lparr>np_NameSpace = npp_Namespace protoMsg, CollPvtRwSets = colls\<rparr>)"

definition TxPvtRwSet_ToProtoMsg :: "proto_codec \<Rightarrow> TxPvtRwSet \<Rightarrow> TxPvtReadWriteSet res" where
  "TxPvtRwSet_ToProtoMsg pc txPvtRwSet =
     bindE (mapE (NsPvtRwSet_toProtoMsg pc) (NsPvtRwSets txPvtRwSet)) (\<lambda>nss.
       Inr \<lparr>tpp_DataModel = TxReadWriteSet_KV, tpp_NsPvtRwset = nss\<rparr>)"

definition TxPvtRwSetFromProtoMsg :: "proto_codec \<Rightarrow> TxPvtReadWriteSet \<Rightarrow> TxPvtRwSet res" where
  "TxPvtRwSetFromProtoMsg pc protoMsg =
     bindE (mapE (nsPvtRwSetFromProtoMsg pc) (tpp_NsPvtRwset protoMsg)) (\<lambda>nss. Inr \<lparr>NsPvtRwSets = nss\<rparr>)"

definition TxPvtRwSet_ToProtoBytes :: "proto_codec \<Rightarrow> TxPvtRwSet \<Rightarrow> bytes res" where
  "TxPvtRwSet_ToProtoBytes pc txPvtRwSet =
     bindE (TxPvtRwSet_ToProtoMsg pc txPvtRwSet) (Marshal_TxPvtReadWriteSet pc)"

definition TxPvtRwSet_FromProtoBytes :: "proto_codec \<Rightarrow> bytes \<Rightarrow> TxPvtRwSet \<Rightarrow> TxPvtRwSet res" where
  "TxPvtRwSet_FromProtoBytes pc protoBytes txPvtRwSet =
     bindE (Unmarshal_TxPvtReadWriteSet pc protoBytes) (\<lambda>protoMsg.
     bindE (TxPvtRwSetFromProtoMsg pc protoMsg) (\<lambda>txPvtRwSetTemp.
       Inr (txPvtRwSet\<lparr>NsPvtRwSets := NsPvtRwSets txPvtRwSetTemp\<rparr>)))"

definition NsRwSet_getPvtDataHash :: "NsRwSet \<Rightarrow> gostring \<Rightarrow> gobytes" where
  "NsRwSet_getPvtDataHash nsRwSet coll =
     (case List.find (\<lambda>c. ch_CollectionName c = coll) (CollHashedRwSets nsRwSet) of
        None \<Rightarrow> None | Some c \<Rightarrow> PvtRwSetHash c)"

definition GetPvtDataHash :: "TxRwSet \<Rightarrow> gostring \<Rightarrow> gostring \<Rightarrow> gobytes" where
  "GetPvtDataHash txRwSet ns coll =
     (case List.find (\<lambda>n. NameSpace n = ns) (NsRwSets txRwSet) of
        None \<Rightarrow> None | Some n \<Rightarrow> NsRwSet_getPvtDataHash n coll)"

definition NumCollections :: "TxRwSet option \<Rightarrow> nat" where
  "NumCollections txRwSet =
     (case txRwSet of None \<Rightarrow> 0
      | Some t \<Rightarrow> sum_list (map (\<lambda>n. length (CollHashedRwSets n)) (NsRwSets t)))"

section \<open>The read-write set builder\<close>

definition NewRWSetBuilder :: RWSetBuilder where
  "NewRWSetBuilder = \<lparr>pubRwBuilderMap = [], pvtRwBuilderMap = []\<rparr>"

definition newNsPubRwBuilder :: "gostring \<Rightarrow> nsPubRwBuilder" where
  "newNsPubRwBuilder ns =
     \<lparr>pub_namespace = ns, pub_readMap = [], pub_writeMap = [], pub_metadataWriteMap = [],
      rangeQueriesMap = [], rangeQueriesKeys = [], pub_collHashRwBuilder = []\<rparr>"

definition newNsPvtRwBuilder :: "gostring \<Rightarrow> nsPvtRwBuilder" where
  "newNsPvtRwBuilder ns = \<lparr>pvt_namespace = ns, collPvtRwBuilders = []\<rparr>"

definition newCollHashRwBuilder :: "gostring \<Rightarrow> collHashRwBuilder" where
  "newCollHashRwBuilder collName =
     \<lparr>chb_collName = collName, chb_readMap = [], chb_writeMap = [], chb_metadataWriteMap = [],
      chb_pvtDataHash = None\<rparr>"

definition newCollPvtRwBuilder :: "gostring \<Rightarrow> collPvtRwBuilder" where
  "newCollPvtRwBuilder collName =
     \<lparr>cpb_collectionName = collName, cpb_writeMap = [], cpb_metadataWriteMap = []\<rparr>"

text \<open>
  \<open>getOrCreate...\<close> returns a pointer into the builder, which the caller then writes through:
  here the functions return the sub-builder, and the callers store what they make of it with the
  \<open>set...\<close> functions.
\<close>

definition getOrCreateNsPubRwBuilder :: "gostring \<Rightarrow> RWSetBuilder \<Rightarrow> nsPubRwBuilder" where
  "getOrCreateNsPubRwBuilder ns b =
     (case map_of (pubRwBuilderMap b) ns of Some nb \<Rightarrow> nb | None \<Rightarrow> newNsPubRwBuilder ns)"

definition setNsPub :: "gostring \<Rightarrow> nsPubRwBuilder \<Rightarrow> RWSetBuilder \<Rightarrow> RWSetBuilder" where
  "setNsPub ns nb b = b\<lparr>pubRwBuilderMap := AList.update ns nb (pubRwBuilderMap b)\<rparr>"

definition getOrCreateNsPvtRwBuilder :: "gostring \<Rightarrow> RWSetBuilder \<Rightarrow> nsPvtRwBuilder" where
  "getOrCreateNsPvtRwBuilder ns b =
     (case map_of (pvtRwBuilderMap b) ns of Some nb \<Rightarrow> nb | None \<Rightarrow> newNsPvtRwBuilder ns)"

definition getOrCreateCollHashedRwBuilder :: "gostring \<Rightarrow> gostring \<Rightarrow> RWSetBuilder \<Rightarrow> collHashRwBuilder" where
  "getOrCreateCollHashedRwBuilder ns coll b =
     (case map_of (pub_collHashRwBuilder (getOrCreateNsPubRwBuilder ns b)) coll of
        Some cb \<Rightarrow> cb | None \<Rightarrow> newCollHashRwBuilder coll)"

definition setCollHashed :: "gostring \<Rightarrow> gostring \<Rightarrow> collHashRwBuilder \<Rightarrow> RWSetBuilder \<Rightarrow> RWSetBuilder" where
  "setCollHashed ns coll cb b =
     (let nb = getOrCreateNsPubRwBuilder ns b in
      setNsPub ns (nb\<lparr>pub_collHashRwBuilder := AList.update coll cb (pub_collHashRwBuilder nb)\<rparr>) b)"

definition getOrCreateCollPvtRwBuilder :: "gostring \<Rightarrow> gostring \<Rightarrow> RWSetBuilder \<Rightarrow> collPvtRwBuilder" where
  "getOrCreateCollPvtRwBuilder ns coll b =
     (case map_of (collPvtRwBuilders (getOrCreateNsPvtRwBuilder ns b)) coll of
        Some cb \<Rightarrow> cb | None \<Rightarrow> newCollPvtRwBuilder coll)"

definition setCollPvt :: "gostring \<Rightarrow> gostring \<Rightarrow> collPvtRwBuilder \<Rightarrow> RWSetBuilder \<Rightarrow> RWSetBuilder" where
  "setCollPvt ns coll cb b =
     (let nb = getOrCreateNsPvtRwBuilder ns b in
      b\<lparr>pvtRwBuilderMap := AList.update ns
          (nb\<lparr>collPvtRwBuilders := AList.update coll cb (collPvtRwBuilders nb)\<rparr>) (pvtRwBuilderMap b)\<rparr>)"

definition mapToMetadataWrite :: "gostring \<Rightarrow> (gostring, gobytes) gomap \<Rightarrow> KVMetadataWrite" where
  "mapToMetadataWrite key m =
     \<lparr>mw_Key = key,
      mw_Entries = map (\<lambda>name. \<lparr>me_Name = name, me_Value = the (map_of m name)\<rparr>) (GetSortedKeys m)\<rparr>"

definition mapToMetadataWriteHash ::
  "(bytes \<Rightarrow> bytes) \<Rightarrow> gostring \<Rightarrow> (gostring, gobytes) gomap \<Rightarrow> KVMetadataWriteHash" where
  "mapToMetadataWriteHash ComputeHash key m =
     \<lparr>mh_KeyHash = ComputeHash key,
      mh_Entries = map (\<lambda>name. \<lparr>me_Name = name, me_Value = the (map_of m name)\<rparr>) (GetSortedKeys m)\<rparr>"

definition AddToReadSet :: "gostring \<Rightarrow> gostring \<Rightarrow> Height option \<Rightarrow> RWSetBuilder \<Rightarrow> RWSetBuilder" where
  "AddToReadSet ns key ver b =
     (let nb = getOrCreateNsPubRwBuilder ns b in
      setNsPub ns (nb\<lparr>pub_readMap := AList.update key (NewKVRead key ver) (pub_readMap nb)\<rparr>) b)"

definition AddToWriteSet :: "gostring \<Rightarrow> gostring \<Rightarrow> gobytes \<Rightarrow> RWSetBuilder \<Rightarrow> RWSetBuilder" where
  "AddToWriteSet ns key value b =
     (let nb = getOrCreateNsPubRwBuilder ns b in
      setNsPub ns (nb\<lparr>pub_writeMap := AList.update key (newKVWrite key value) (pub_writeMap nb)\<rparr>) b)"

definition AddToMetadataWriteSet ::
  "gostring \<Rightarrow> gostring \<Rightarrow> (gostring, gobytes) gomap \<Rightarrow> RWSetBuilder \<Rightarrow> RWSetBuilder" where
  "AddToMetadataWriteSet ns key metadata b =
     (let nb = getOrCreateNsPubRwBuilder ns b in
      setNsPub ns (nb\<lparr>pub_metadataWriteMap :=
        AList.update key (mapToMetadataWrite key metadata) (pub_metadataWriteMap nb)\<rparr>) b)"

definition AddToRangeQuerySet :: "gostring \<Rightarrow> RangeQueryInfo \<Rightarrow> RWSetBuilder \<Rightarrow> RWSetBuilder" where
  "AddToRangeQuerySet ns rqi b =
     (let nb = getOrCreateNsPubRwBuilder ns b;
          key = \<lparr>rk_startKey = rq_StartKey rqi, rk_endKey = rq_EndKey rqi,
                 rk_itrExhausted = rq_ItrExhausted rqi\<rparr>
      in if map_of (rangeQueriesMap nb) key = None then
           setNsPub ns (nb\<lparr>rangeQueriesMap := AList.update key rqi (rangeQueriesMap nb),
                           rangeQueriesKeys := rangeQueriesKeys nb @ [key]\<rparr>) b
         else setNsPub ns nb b)"

definition AddToHashedReadSet ::
  "(bytes \<Rightarrow> bytes) \<Rightarrow> gostring \<Rightarrow> gostring \<Rightarrow> gostring \<Rightarrow> Height option \<Rightarrow> RWSetBuilder \<Rightarrow> RWSetBuilder" where
  "AddToHashedReadSet ComputeHash ns coll key ver b =
     (let kvReadHash = newPvtKVReadHash ComputeHash key ver;
          cb = getOrCreateCollHashedRwBuilder ns coll b
      in setCollHashed ns coll (cb\<lparr>chb_readMap := AList.update key kvReadHash (chb_readMap cb)\<rparr>) b)"

definition putPvtAndHashedWrite ::
  "gostring \<Rightarrow> gostring \<Rightarrow> gostring \<Rightarrow> KVWrite \<Rightarrow> KVWriteHash \<Rightarrow> RWSetBuilder \<Rightarrow> RWSetBuilder" where
  "putPvtAndHashedWrite ns coll key kvWrite kvWriteHash b =
     (let pb = getOrCreateCollPvtRwBuilder ns coll b;
          b1 = setCollPvt ns coll (pb\<lparr>cpb_writeMap := AList.update key kvWrite (cpb_writeMap pb)\<rparr>) b;
          cb = getOrCreateCollHashedRwBuilder ns coll b1
      in setCollHashed ns coll (cb\<lparr>chb_writeMap := AList.update key kvWriteHash (chb_writeMap cb)\<rparr>) b1)"

definition AddToPvtAndHashedWriteSet ::
  "(bytes \<Rightarrow> bytes) \<Rightarrow> gostring \<Rightarrow> gostring \<Rightarrow> gostring \<Rightarrow> gobytes \<Rightarrow> RWSetBuilder \<Rightarrow> RWSetBuilder" where
  "AddToPvtAndHashedWriteSet ComputeHash ns coll key value b =
     (let (kvWrite, kvWriteHash) = newPvtKVWriteAndHash ComputeHash key value
      in putPvtAndHashedWrite ns coll key kvWrite kvWriteHash b)"

definition AddToPvtAndHashedWriteSetForPurge ::
  "(bytes \<Rightarrow> bytes) \<Rightarrow> gostring \<Rightarrow> gostring \<Rightarrow> gostring \<Rightarrow> RWSetBuilder \<Rightarrow> RWSetBuilder" where
  "AddToPvtAndHashedWriteSetForPurge ComputeHash ns coll key b =
     (let (kvWrite, kvWriteHash) = newPvtKVWriteAndHash ComputeHash key None
      in putPvtAndHashedWrite ns coll key kvWrite (kvWriteHash\<lparr>wh_IsPurge := True\<rparr>) b)"

definition AddToHashedMetadataWriteSet ::
  "(bytes \<Rightarrow> bytes) \<Rightarrow> gostring \<Rightarrow> gostring \<Rightarrow> gostring \<Rightarrow> (gostring, gobytes) gomap \<Rightarrow> RWSetBuilder \<Rightarrow> RWSetBuilder" where
  "AddToHashedMetadataWriteSet ComputeHash ns coll key metadata b =
     (let pb = getOrCreateCollPvtRwBuilder ns coll b;
          b1 = setCollPvt ns coll (pb\<lparr>cpb_metadataWriteMap :=
                 AList.update key \<lparr>mw_Key = key, mw_Entries = []\<rparr> (cpb_metadataWriteMap pb)\<rparr>) b;
          cb = getOrCreateCollHashedRwBuilder ns coll b1
      in setCollHashed ns coll (cb\<lparr>chb_metadataWriteMap :=
           AList.update key (mapToMetadataWriteHash ComputeHash key metadata) (chb_metadataWriteMap cb)\<rparr>) b1)"

definition collHashRwBuilder_build :: "collHashRwBuilder \<Rightarrow> CollHashedRwSet" where
  "collHashRwBuilder_build b =
     \<lparr>ch_CollectionName = chb_collName b,
      HashedRwSet = \<lparr>HashedReads = GetValuesBySortedKeys (chb_readMap b),
                     HashedWrites = GetValuesBySortedKeys (chb_writeMap b),
                     HashedMetadataWrites = GetValuesBySortedKeys (chb_metadataWriteMap b)\<rparr>,
      PvtRwSetHash = chb_pvtDataHash b\<rparr>"

definition nsPubRwBuilder_build :: "nsPubRwBuilder \<Rightarrow> NsRwSet" where
  "nsPubRwBuilder_build b =
     \<lparr>NameSpace = pub_namespace b,
      KvRwSet = \<lparr>Reads = GetValuesBySortedKeys (pub_readMap b),
                 RangeQueriesInfo = map (\<lambda>key. the (map_of (rangeQueriesMap b) key)) (rangeQueriesKeys b),
                 Writes = GetValuesBySortedKeys (pub_writeMap b),
                 MetadataWrites = GetValuesBySortedKeys (pub_metadataWriteMap b)\<rparr>,
      CollHashedRwSets = map collHashRwBuilder_build (GetValuesBySortedKeys (pub_collHashRwBuilder b))\<rparr>"

definition collPvtRwBuilder_build :: "collPvtRwBuilder \<Rightarrow> CollPvtRwSet" where
  "collPvtRwBuilder_build b =
     \<lparr>cp_CollectionName = cpb_collectionName b,
      cp_KvRwSet = \<lparr>Reads = [], RangeQueriesInfo = [],
                    Writes = GetValuesBySortedKeys (cpb_writeMap b),
                    MetadataWrites = GetValuesBySortedKeys (cpb_metadataWriteMap b)\<rparr>\<rparr>"

definition nsPvtRwBuilder_build :: "nsPvtRwBuilder \<Rightarrow> NsPvtRwSet" where
  "nsPvtRwBuilder_build b =
     \<lparr>np_NameSpace = pvt_namespace b,
      CollPvtRwSets = map collPvtRwBuilder_build (GetValuesBySortedKeys (collPvtRwBuilders b))\<rparr>"

definition GetTxReadWriteSet :: "RWSetBuilder \<Rightarrow> TxRwSet" where
  "GetTxReadWriteSet b =
     \<lparr>NsRwSets = map nsPubRwBuilder_build (GetValuesBySortedKeys (pubRwBuilderMap b))\<rparr>"

definition getTxPvtReadWriteSet :: "RWSetBuilder \<Rightarrow> TxPvtRwSet option" where
  "getTxPvtReadWriteSet b =
     (let nsPvtRwSets = map nsPvtRwBuilder_build (GetValuesBySortedKeys (pvtRwBuilderMap b)) in
      if length nsPvtRwSets = 0 then None else Some \<lparr>NsPvtRwSets = nsPvtRwSets\<rparr>)"

definition setPvtCollectionHash ::
  "(bytes \<Rightarrow> bytes) \<Rightarrow> gostring \<Rightarrow> gostring \<Rightarrow> bytes \<Rightarrow> RWSetBuilder \<Rightarrow> RWSetBuilder" where
  "setPvtCollectionHash ComputeHash ns coll pvtDataProto b =
     (let cb = getOrCreateCollHashedRwBuilder ns coll b in
      setCollHashed ns coll (cb\<lparr>chb_pvtDataHash := Some (ComputeHash pvtDataProto)\<rparr>) b)"

text \<open>The results, and the builder with the collection hashes filled in.\<close>

definition GetTxSimulationResults ::
  "proto_codec \<Rightarrow> (bytes \<Rightarrow> bytes) \<Rightarrow> RWSetBuilder \<Rightarrow> (TxSimulationResults \<times> RWSetBuilder) res" where
  "GetTxSimulationResults pc ComputeHash b =
     bindE (case getTxPvtReadWriteSet b of
              None \<Rightarrow> Inr (None, b)
            | Some pvtData \<Rightarrow>
                bindE (TxPvtRwSet_ToProtoMsg pc pvtData) (\<lambda>pvtDataProto.
                  Inr (Some pvtDataProto,
                       fold (\<lambda>ns. fold (\<lambda>coll.
                           setPvtCollectionHash ComputeHash (npp_Namespace ns) (cpp_CollectionName coll) (cpp_Rwset coll))
                         (npp_CollectionPvtRwset ns)) (tpp_NsPvtRwset pvtDataProto) b)))
       (\<lambda>(pvtDataProto, b1).
     bindE (TxRwSet_toProtoMsg pc (GetTxReadWriteSet b1)) (\<lambda>pubDataProto.
       Inr (\<lparr>PubSimulationResults = pubDataProto, PvtSimulationResults = pvtDataProto\<rparr>, b1)))"

section \<open>Round trips\<close>

text \<open>
  What the conversions rely on: a message that was marshalled unmarshals to itself.
\<close>

definition codec_faithful :: "proto_codec \<Rightarrow> bool" where
  "codec_faithful pc \<longleftrightarrow>
     (\<forall>m b. Marshal_KVRWSet pc m = Inr b \<longrightarrow> Unmarshal_KVRWSet pc b = Inr m) \<and>
     (\<forall>m b. Marshal_HashedRWSet pc m = Inr b \<longrightarrow> Unmarshal_HashedRWSet pc b = Inr m) \<and>
     (\<forall>m b. Marshal_TxReadWriteSet pc m = Inr b \<longrightarrow> Unmarshal_TxReadWriteSet pc b = Inr m) \<and>
     (\<forall>m b. Marshal_TxPvtReadWriteSet pc m = Inr b \<longrightarrow> Unmarshal_TxPvtReadWriteSet pc b = Inr m)"

lemma NewVersion_newProtoVersion [simp]: "NewVersion (newProtoVersion h) = h"
  by (cases h) (auto simp: NewVersion_def newProtoVersion_def NewHeight_def intro: Height.equality)

lemma newProtoVersion_inject [simp]: "newProtoVersion h = newProtoVersion h' \<longleftrightarrow> h = h'"
  by (metis NewVersion_newProtoVersion)

lemma CollHashed_roundtrip:
  "codec_faithful pc \<Longrightarrow> CollHashedRwSet_toProtoMsg pc x = Inr y \<Longrightarrow> collHashedRwSetFromProtoMsg pc y = Inr x"
  by (auto simp: CollHashedRwSet_toProtoMsg_def collHashedRwSetFromProtoMsg_def codec_faithful_def go_res)

lemma NsRwSet_roundtrip:
  assumes "codec_faithful pc" and "NsRwSet_toProtoMsg pc x = Inr y"
  shows "nsRwSetFromProtoMsg pc y = Inr x"
proof -
  from assms(2) obtain b colls where "Marshal_KVRWSet pc (KvRwSet x) = Inr b"
    and "mapE (CollHashedRwSet_toProtoMsg pc) (CollHashedRwSets x) = Inr colls"
    and y: "y = \<lparr>nrp_Namespace = NameSpace x, nrp_Rwset = b, nrp_CollectionHashedRwset = colls\<rparr>"
    unfolding NsRwSet_toProtoMsg_def go_res by blast
  moreover from this have "mapE (collHashedRwSetFromProtoMsg pc) colls = Inr (CollHashedRwSets x)"
    using mapE_roundtrip CollHashed_roundtrip [OF assms(1)] by blast
  ultimately show ?thesis
    using assms(1) by (simp add: nsRwSetFromProtoMsg_def codec_faithful_def)
qed

lemma TxRwSet_msg_roundtrip:
  assumes "codec_faithful pc" and "TxRwSet_toProtoMsg pc x = Inr y"
  shows "TxRwSetFromProtoMsg pc y = Inr x"
proof -
  from assms(2) obtain nss where "mapE (NsRwSet_toProtoMsg pc) (NsRwSets x) = Inr nss"
    and "y = \<lparr>trp_DataModel = TxReadWriteSet_KV, trp_NsRwset = nss\<rparr>"
    unfolding TxRwSet_toProtoMsg_def go_res by blast
  moreover from this have "mapE (nsRwSetFromProtoMsg pc) nss = Inr (NsRwSets x)"
    using mapE_roundtrip NsRwSet_roundtrip [OF assms(1)] by blast
  ultimately show ?thesis by (simp add: TxRwSetFromProtoMsg_def)
qed

lemma CollPvt_roundtrip:
  "codec_faithful pc \<Longrightarrow> CollPvtRwSet_ToProtoMsg pc x = Inr y \<Longrightarrow> CollPvtRwSetFromProtoMsg pc y = Inr x"
  by (auto simp: CollPvtRwSet_ToProtoMsg_def CollPvtRwSetFromProtoMsg_def codec_faithful_def go_res)

lemma NsPvt_roundtrip:
  assumes "codec_faithful pc" and "NsPvtRwSet_toProtoMsg pc x = Inr y"
  shows "nsPvtRwSetFromProtoMsg pc y = Inr x"
proof -
  from assms(2) obtain colls where "mapE (CollPvtRwSet_ToProtoMsg pc) (CollPvtRwSets x) = Inr colls"
    and "y = \<lparr>npp_Namespace = np_NameSpace x, npp_CollectionPvtRwset = colls\<rparr>"
    unfolding NsPvtRwSet_toProtoMsg_def go_res by blast
  moreover from this have "mapE (CollPvtRwSetFromProtoMsg pc) colls = Inr (CollPvtRwSets x)"
    using mapE_roundtrip CollPvt_roundtrip [OF assms(1)] by blast
  ultimately show ?thesis by (simp add: nsPvtRwSetFromProtoMsg_def)
qed

lemma TxPvt_msg_roundtrip:
  assumes "codec_faithful pc" and "TxPvtRwSet_ToProtoMsg pc x = Inr y"
  shows "TxPvtRwSetFromProtoMsg pc y = Inr x"
proof -
  from assms(2) obtain nss where "mapE (NsPvtRwSet_toProtoMsg pc) (NsPvtRwSets x) = Inr nss"
    and "y = \<lparr>tpp_DataModel = TxReadWriteSet_KV, tpp_NsPvtRwset = nss\<rparr>"
    unfolding TxPvtRwSet_ToProtoMsg_def go_res by blast
  moreover from this have "mapE (nsPvtRwSetFromProtoMsg pc) nss = Inr (NsPvtRwSets x)"
    using mapE_roundtrip NsPvt_roundtrip [OF assms(1)] by blast
  ultimately show ?thesis by (simp add: TxPvtRwSetFromProtoMsg_def)
qed

section \<open>What the builder holds\<close>

text \<open>One call on the builder during a simulation.\<close>

datatype rw_op =
  ReadOp gostring gostring "Height option"
| WriteOp gostring gostring gobytes
| MetadataOp gostring gostring "(gostring, gobytes) gomap"
| RangeOp gostring RangeQueryInfo
| HashedReadOp gostring gostring gostring "Height option"
| PvtWriteOp gostring gostring gostring gobytes
| PvtPurgeOp gostring gostring gostring
| HashedMetadataOp gostring gostring gostring "(gostring, gobytes) gomap"

fun apply_op :: "(bytes \<Rightarrow> bytes) \<Rightarrow> rw_op \<Rightarrow> RWSetBuilder \<Rightarrow> RWSetBuilder" where
  "apply_op H (ReadOp ns key ver) = AddToReadSet ns key ver"
| "apply_op H (WriteOp ns key v) = AddToWriteSet ns key v"
| "apply_op H (MetadataOp ns key m) = AddToMetadataWriteSet ns key m"
| "apply_op H (RangeOp ns rqi) = AddToRangeQuerySet ns rqi"
| "apply_op H (HashedReadOp ns coll key ver) = AddToHashedReadSet H ns coll key ver"
| "apply_op H (PvtWriteOp ns coll key v) = AddToPvtAndHashedWriteSet H ns coll key v"
| "apply_op H (PvtPurgeOp ns coll key) = AddToPvtAndHashedWriteSetForPurge H ns coll key"
| "apply_op H (HashedMetadataOp ns coll key m) = AddToHashedMetadataWriteSet H ns coll key m"

definition run_ops :: "(bytes \<Rightarrow> bytes) \<Rightarrow> rw_op list \<Rightarrow> RWSetBuilder" where
  "run_ops H ops = fold (apply_op H) ops NewRWSetBuilder"

definition wf_pub :: "nsPubRwBuilder \<Rightarrow> bool" where
  "wf_pub nb \<longleftrightarrow> keyed r_Key (pub_readMap nb) \<and> keyed w_Key (pub_writeMap nb) \<and>
     keyed mw_Key (pub_metadataWriteMap nb) \<and> keyed chb_collName (pub_collHashRwBuilder nb)"

definition wf_pvt :: "nsPvtRwBuilder \<Rightarrow> bool" where
  "wf_pvt nb \<longleftrightarrow> keyed cpb_collectionName (collPvtRwBuilders nb) \<and>
     (\<forall>coll cb. map_of (collPvtRwBuilders nb) coll = Some cb \<longrightarrow> keyed w_Key (cpb_writeMap cb))"

definition wf_builder :: "RWSetBuilder \<Rightarrow> bool" where
  "wf_builder b \<longleftrightarrow>
     keyed pub_namespace (pubRwBuilderMap b) \<and>
     (\<forall>ns nb. map_of (pubRwBuilderMap b) ns = Some nb \<longrightarrow> wf_pub nb) \<and>
     keyed pvt_namespace (pvtRwBuilderMap b) \<and>
     (\<forall>ns nb. map_of (pvtRwBuilderMap b) ns = Some nb \<longrightarrow> wf_pvt nb)"

lemma wf_builder_New [simp]: "wf_builder NewRWSetBuilder"
  by (simp add: wf_builder_def NewRWSetBuilder_def)

lemma getOrCreateNsPub_wf:
  "wf_builder b \<Longrightarrow> wf_pub (getOrCreateNsPubRwBuilder ns b) \<and>
     pub_namespace (getOrCreateNsPubRwBuilder ns b) = ns"
  by (auto simp: wf_builder_def getOrCreateNsPubRwBuilder_def newNsPubRwBuilder_def wf_pub_def keyed_def
      split: option.splits)

lemma getOrCreateNsPvt_wf:
  "wf_builder b \<Longrightarrow> wf_pvt (getOrCreateNsPvtRwBuilder ns b) \<and>
     pvt_namespace (getOrCreateNsPvtRwBuilder ns b) = ns"
  by (auto simp: wf_builder_def getOrCreateNsPvtRwBuilder_def newNsPvtRwBuilder_def wf_pvt_def keyed_def
      split: option.splits)

lemma wf_setNsPub:
  "wf_builder b \<Longrightarrow> wf_pub nb \<Longrightarrow> pub_namespace nb = ns \<Longrightarrow> wf_builder (setNsPub ns nb b)"
  by (auto simp: wf_builder_def setNsPub_def)

lemma getOrCreateCollHashed_name:
  "wf_builder b \<Longrightarrow> chb_collName (getOrCreateCollHashedRwBuilder ns coll b) = coll"
  using getOrCreateNsPub_wf [of b ns]
  by (auto simp: getOrCreateCollHashedRwBuilder_def newCollHashRwBuilder_def wf_pub_def keyed_def
      split: option.splits)

lemma wf_setCollHashed:
  assumes "wf_builder b" and "chb_collName cb = coll"
  shows "wf_builder (setCollHashed ns coll cb b)"
  unfolding setCollHashed_def Let_def
  using getOrCreateNsPub_wf [OF assms(1), of ns] assms
  by (intro wf_setNsPub) (simp_all add: wf_pub_def)

lemma getOrCreateCollPvt_wf:
  "wf_builder b \<Longrightarrow> cpb_collectionName (getOrCreateCollPvtRwBuilder ns coll b) = coll \<and>
     keyed w_Key (cpb_writeMap (getOrCreateCollPvtRwBuilder ns coll b))"
  using getOrCreateNsPvt_wf [of b ns]
  by (auto simp: getOrCreateCollPvtRwBuilder_def newCollPvtRwBuilder_def wf_pvt_def keyed_def
      split: option.splits)

lemma wf_setCollPvt:
  assumes "wf_builder b" and "cpb_collectionName cb = coll" and "keyed w_Key (cpb_writeMap cb)"
  shows "wf_builder (setCollPvt ns coll cb b)"
  using getOrCreateNsPvt_wf [OF assms(1), of ns] assms
  by (auto simp: wf_builder_def setCollPvt_def Let_def wf_pvt_def)

lemma newPvt_key [simp]: "w_Key (fst (newPvtKVWriteAndHash H key v)) = key"
  by (simp add: newPvtKVWriteAndHash_def newKVWrite_def Let_def)

lemma wf_putPvtAndHashedWrite:
  assumes "wf_builder b" and "w_Key kvWrite = key"
  shows "wf_builder (putPvtAndHashedWrite ns coll key kvWrite kvWriteHash b)"
  unfolding putPvtAndHashedWrite_def Let_def
  using assms getOrCreateCollPvt_wf [OF assms(1), of ns coll]
  by (intro wf_setCollHashed wf_setCollPvt) (simp_all add: getOrCreateCollHashed_name wf_setCollPvt)

lemma wf_apply_op:
  assumes "wf_builder b"
  shows "wf_builder (apply_op H op b)"
proof (cases op)
  case (HashedMetadataOp ns coll key m)
  have "wf_builder (setCollPvt ns coll (cb\<lparr>cpb_metadataWriteMap := x\<rparr>) b)"
    if "cb = getOrCreateCollPvtRwBuilder ns coll b" for cb x
    using that getOrCreateCollPvt_wf [OF assms, of ns coll] assms by (intro wf_setCollPvt) simp_all
  then show ?thesis
    using HashedMetadataOp
    by (auto simp: AddToHashedMetadataWriteSet_def Let_def getOrCreateCollHashed_name
        intro!: wf_setCollHashed)
next
  case (PvtWriteOp ns coll key v)
  then show ?thesis
    using wf_putPvtAndHashedWrite [OF assms newPvt_key]
    by (simp add: AddToPvtAndHashedWriteSet_def case_prod_unfold Let_def)
next
  case (PvtPurgeOp ns coll key)
  then show ?thesis
    using wf_putPvtAndHashedWrite [OF assms newPvt_key]
    by (simp add: AddToPvtAndHashedWriteSetForPurge_def case_prod_unfold Let_def)
next
  case (HashedReadOp ns coll key ver)
  then show ?thesis
    using assms by (auto simp: AddToHashedReadSet_def Let_def getOrCreateCollHashed_name intro!: wf_setCollHashed)
qed (use getOrCreateNsPub_wf [OF assms] assms in
    \<open>auto simp: AddToReadSet_def AddToWriteSet_def AddToMetadataWriteSet_def AddToRangeQuerySet_def
        NewKVRead_def newKVWrite_def mapToMetadataWrite_def wf_pub_def Let_def intro!: wf_setNsPub\<close>)

lemma wf_run_ops: "wf_builder (run_ops H ops)"
  unfolding run_ops_def
  by (rule fold_invariant [where P = wf_builder and Q = "\<lambda>_. True"]) (auto simp: wf_apply_op)

text \<open>What a built set says of a key.\<close>

definition tx_ns :: "TxRwSet \<Rightarrow> gostring \<Rightarrow> NsRwSet option" where
  "tx_ns t ns = List.find (\<lambda>n. NameSpace n = ns) (NsRwSets t)"

definition tx_read :: "TxRwSet \<Rightarrow> gostring \<Rightarrow> gostring \<Rightarrow> KVRead option" where
  "tx_read t ns key =
     Option.bind (tx_ns t ns) (\<lambda>n. List.find (\<lambda>r. r_Key r = key) (Reads (KvRwSet n)))"

definition tx_write :: "TxRwSet \<Rightarrow> gostring \<Rightarrow> gostring \<Rightarrow> KVWrite option" where
  "tx_write t ns key =
     Option.bind (tx_ns t ns) (\<lambda>n. List.find (\<lambda>w. w_Key w = key) (Writes (KvRwSet n)))"

definition tx_metadata :: "TxRwSet \<Rightarrow> gostring \<Rightarrow> gostring \<Rightarrow> KVMetadataWrite option" where
  "tx_metadata t ns key =
     Option.bind (tx_ns t ns) (\<lambda>n. List.find (\<lambda>w. mw_Key w = key) (MetadataWrites (KvRwSet n)))"

text \<open>The last of the operations that says something.\<close>

fun last_op :: "('o \<Rightarrow> 'a option) \<Rightarrow> 'o list \<Rightarrow> 'a option" where
  "last_op f [] = None"
| "last_op f (x # xs) = (case last_op f xs of None \<Rightarrow> f x | Some y \<Rightarrow> Some y)"

fun op_read :: "gostring \<Rightarrow> gostring \<Rightarrow> rw_op \<Rightarrow> KVRead option" where
  "op_read ns key (ReadOp ns' key' ver) = (if ns' = ns \<and> key' = key then Some (NewKVRead key ver) else None)"
| "op_read ns key _ = None"

fun op_write :: "gostring \<Rightarrow> gostring \<Rightarrow> rw_op \<Rightarrow> KVWrite option" where
  "op_write ns key (WriteOp ns' key' v) = (if ns' = ns \<and> key' = key then Some (newKVWrite key v) else None)"
| "op_write ns key _ = None"

fun op_metadata :: "gostring \<Rightarrow> gostring \<Rightarrow> rw_op \<Rightarrow> KVMetadataWrite option" where
  "op_metadata ns key (MetadataOp ns' key' m) =
     (if ns' = ns \<and> key' = key then Some (mapToMetadataWrite key m) else None)"
| "op_metadata ns key _ = None"

lemma fold_last_op:
  assumes "\<And>x s. g (h x s) = (case f x of None \<Rightarrow> g s | Some y \<Rightarrow> Some y)"
  shows "g (fold h xs s) = (case last_op f xs of None \<Rightarrow> g s | Some y \<Rightarrow> Some y)"
  by (induction xs arbitrary: s) (auto simp: assms split: option.splits)

lemma getOrCreate_setNsPub [simp]:
  "getOrCreateNsPubRwBuilder ns' (setNsPub ns nb b) = (if ns' = ns then nb else getOrCreateNsPubRwBuilder ns' b)"
  by (simp add: getOrCreateNsPubRwBuilder_def setNsPub_def)

lemma getOrCreateNsPub_setCollPvt [simp]:
  "getOrCreateNsPubRwBuilder ns' (setCollPvt ns coll cb b) = getOrCreateNsPubRwBuilder ns' b"
  by (simp add: getOrCreateNsPubRwBuilder_def setCollPvt_def Let_def)

lemmas rw_op_defs =
  AddToReadSet_def AddToWriteSet_def AddToMetadataWriteSet_def AddToRangeQuerySet_def
  AddToHashedReadSet_def AddToPvtAndHashedWriteSet_def AddToPvtAndHashedWriteSetForPurge_def
  AddToHashedMetadataWriteSet_def putPvtAndHashedWrite_def setCollHashed_def

abbreviation (input) b_read :: "gostring \<Rightarrow> gostring \<Rightarrow> RWSetBuilder \<Rightarrow> KVRead option" where
  "b_read ns key b \<equiv> map_of (pub_readMap (getOrCreateNsPubRwBuilder ns b)) key"

abbreviation (input) b_write :: "gostring \<Rightarrow> gostring \<Rightarrow> RWSetBuilder \<Rightarrow> KVWrite option" where
  "b_write ns key b \<equiv> map_of (pub_writeMap (getOrCreateNsPubRwBuilder ns b)) key"

abbreviation (input) b_metadata :: "gostring \<Rightarrow> gostring \<Rightarrow> RWSetBuilder \<Rightarrow> KVMetadataWrite option" where
  "b_metadata ns key b \<equiv> map_of (pub_metadataWriteMap (getOrCreateNsPubRwBuilder ns b)) key"

lemma apply_op_read:
  "b_read ns key (apply_op H op b) = (case op_read ns key op of None \<Rightarrow> b_read ns key b | Some r \<Rightarrow> Some r)"
  by (cases op) (auto simp: rw_op_defs Let_def case_prod_unfold)

lemma apply_op_write:
  "b_write ns key (apply_op H op b) = (case op_write ns key op of None \<Rightarrow> b_write ns key b | Some r \<Rightarrow> Some r)"
  by (cases op) (auto simp: rw_op_defs Let_def case_prod_unfold)

lemma apply_op_metadata:
  "b_metadata ns key (apply_op H op b) =
     (case op_metadata ns key op of None \<Rightarrow> b_metadata ns key b | Some r \<Rightarrow> Some r)"
  by (cases op) (auto simp: rw_op_defs Let_def case_prod_unfold)

lemma tx_ns_build:
  assumes "wf_builder b"
  shows "tx_ns (GetTxReadWriteSet b) ns = map_option nsPubRwBuilder_build (map_of (pubRwBuilderMap b) ns)"
proof -
  have "(\<lambda>n. NameSpace n = ns) \<circ> nsPubRwBuilder_build = (\<lambda>nb. pub_namespace nb = ns)"
    by (auto simp: nsPubRwBuilder_build_def)
  with assms show ?thesis
    by (simp add: tx_ns_def GetTxReadWriteSet_def find_map keyed_find wf_builder_def)
qed

lemma built_lookups:
  assumes "wf_builder b"
  shows "tx_read (GetTxReadWriteSet b) ns key = b_read ns key b"
    and "tx_write (GetTxReadWriteSet b) ns key = b_write ns key b"
    and "tx_metadata (GetTxReadWriteSet b) ns key = b_metadata ns key b"
proof -
  show "tx_read (GetTxReadWriteSet b) ns key = b_read ns key b"
    using assms getOrCreateNsPub_wf [OF assms, of ns]
    by (auto simp: tx_read_def tx_ns_build getOrCreateNsPubRwBuilder_def nsPubRwBuilder_build_def
        wf_pub_def keyed_find newNsPubRwBuilder_def split: option.splits)
  show "tx_write (GetTxReadWriteSet b) ns key = b_write ns key b"
    using assms getOrCreateNsPub_wf [OF assms, of ns]
    by (auto simp: tx_write_def tx_ns_build getOrCreateNsPubRwBuilder_def nsPubRwBuilder_build_def
        wf_pub_def keyed_find newNsPubRwBuilder_def split: option.splits)
  show "tx_metadata (GetTxReadWriteSet b) ns key = b_metadata ns key b"
    using assms getOrCreateNsPub_wf [OF assms, of ns]
    by (auto simp: tx_metadata_def tx_ns_build getOrCreateNsPubRwBuilder_def nsPubRwBuilder_build_def
        wf_pub_def keyed_find newNsPubRwBuilder_def split: option.splits)
qed

text \<open>
  C7: The read-write set a simulation builds says of every key exactly what the last operation on
  that key said: its read version, its written value, its metadata. Operations on other keys,
  on private data and range queries leave it alone.
\<close>

theorem built_set_last_operation_wins:
  "tx_read (GetTxReadWriteSet (run_ops H ops)) ns key = last_op (op_read ns key) ops \<and>
   tx_write (GetTxReadWriteSet (run_ops H ops)) ns key = last_op (op_write ns key) ops \<and>
   tx_metadata (GetTxReadWriteSet (run_ops H ops)) ns key = last_op (op_metadata ns key) ops"
  unfolding built_lookups [OF wf_run_ops]
  unfolding run_ops_def
    fold_last_op [where g = "b_read ns key" and f = "op_read ns key", OF apply_op_read]
    fold_last_op [where g = "b_write ns key" and f = "op_write ns key", OF apply_op_write]
    fold_last_op [where g = "b_metadata ns key" and f = "op_metadata ns key", OF apply_op_metadata]
  by (simp add: NewRWSetBuilder_def getOrCreateNsPubRwBuilder_def newNsPubRwBuilder_def split: option.splits)


section \<open>Private collections and their hashes\<close>

text \<open>The hash a public message carries for a private collection.\<close>

definition msg_PvtDataHash :: "TxReadWriteSet \<Rightarrow> gostring \<Rightarrow> gostring \<Rightarrow> gobytes" where
  "msg_PvtDataHash m ns coll =
     Option.bind (List.find (\<lambda>n. nrp_Namespace n = ns) (trp_NsRwset m)) (\<lambda>n.
     Option.bind (List.find (\<lambda>c. chp_CollectionName c = coll) (nrp_CollectionHashedRwset n)) chp_PvtRwsetHash)"

lemma GetPvtDataHash_msg:
  assumes "TxRwSet_toProtoMsg pc t = Inr m"
  shows "msg_PvtDataHash m ns coll = GetPvtDataHash t ns coll"
proof -
  let ?Rn = "\<lambda>x y. NsRwSet_toProtoMsg pc x = Inr y" and ?Rc = "\<lambda>x y. CollHashedRwSet_toProtoMsg pc x = Inr y"
  have "list_all2 ?Rn (NsRwSets t) (trp_NsRwset m)"
    using assms by (auto simp: TxRwSet_toProtoMsg_def go_res mapE_Inr_iff)
  then have "rel_option ?Rn (List.find (\<lambda>n. NameSpace n = ns) (NsRwSets t))
      (List.find (\<lambda>n. nrp_Namespace n = ns) (trp_NsRwset m))"
    by (rule find_list_all2) (auto simp: NsRwSet_toProtoMsg_def go_res)
  then show ?thesis
  proof cases
    case (Some x y)
    then have "list_all2 ?Rc (CollHashedRwSets x) (nrp_CollectionHashedRwset y)"
      by (auto simp: NsRwSet_toProtoMsg_def go_res mapE_Inr_iff)
    then have "rel_option ?Rc (List.find (\<lambda>c. ch_CollectionName c = coll) (CollHashedRwSets x))
        (List.find (\<lambda>c. chp_CollectionName c = coll) (nrp_CollectionHashedRwset y))"
      by (rule find_list_all2) (auto simp: CollHashedRwSet_toProtoMsg_def go_res)
    then show ?thesis
      using Some
      by cases (auto simp: msg_PvtDataHash_def GetPvtDataHash_def NsRwSet_getPvtDataHash_def
          CollHashedRwSet_toProtoMsg_def go_res)
  qed (simp add: msg_PvtDataHash_def GetPvtDataHash_def)
qed

text \<open>The collection hash of the builder, as a store the results loop fills.\<close>

definition b_pvtHash :: "RWSetBuilder \<Rightarrow> gostring \<times> gostring \<Rightarrow> bytes option" where
  "b_pvtHash b = (\<lambda>(ns, coll). chb_pvtDataHash (getOrCreateCollHashedRwBuilder ns coll b))"

definition b_setPvtHash :: "gostring \<times> gostring \<Rightarrow> bytes \<Rightarrow> RWSetBuilder \<Rightarrow> RWSetBuilder" where
  "b_setPvtHash = (\<lambda>(ns, coll) h b.
     setCollHashed ns coll ((getOrCreateCollHashedRwBuilder ns coll b)\<lparr>chb_pvtDataHash := Some h\<rparr>) b)"

lemma getOrCreateCollHashed_set:
  "getOrCreateCollHashedRwBuilder ns' coll' (setCollHashed ns coll cb b) =
     (if ns' = ns \<and> coll' = coll then cb else getOrCreateCollHashedRwBuilder ns' coll' b)"
  by (auto simp: getOrCreateCollHashedRwBuilder_def setCollHashed_def Let_def)

interpretation ph: kv_store b_pvtHash b_setPvtHash
  by unfold_locales (auto simp: b_pvtHash_def b_setPvtHash_def getOrCreateCollHashed_set split: if_splits)

lemma setPvtCollectionHash_store:
  "setPvtCollectionHash H ns coll d = b_setPvtHash (ns, coll) (H d)"
  by (simp add: setPvtCollectionHash_def b_setPvtHash_def Let_def fun_eq_iff)

lemma GetPvtDataHash_build:
  assumes "wf_builder b"
  shows "GetPvtDataHash (GetTxReadWriteSet b) ns coll = b_pvtHash b (ns, coll)"
proof -
  have "(\<lambda>c. ch_CollectionName c = coll) \<circ> collHashRwBuilder_build = (\<lambda>cb. chb_collName cb = coll)"
    by (auto simp: collHashRwBuilder_build_def)
  then show ?thesis
    using assms tx_ns_build [OF assms, of ns] getOrCreateNsPub_wf [OF assms, of ns]
    by (auto simp: GetPvtDataHash_def tx_ns_def NsRwSet_getPvtDataHash_def b_pvtHash_def wf_pub_def
        nsPubRwBuilder_build_def getOrCreateNsPubRwBuilder_def getOrCreateCollHashedRwBuilder_def
        newNsPubRwBuilder_def newCollHashRwBuilder_def collHashRwBuilder_build_def find_map keyed_find
        split: option.splits)
qed

lemma wf_setPvtCollectionHash: "wf_builder b \<Longrightarrow> wf_builder (setPvtCollectionHash H ns coll d b)"
  by (simp add: setPvtCollectionHash_def Let_def wf_setCollHashed getOrCreateCollHashed_name)

lemma list_all2_map_eq:
  "list_all2 R xs ys \<Longrightarrow> (\<And>x y. R x y \<Longrightarrow> f x = g y) \<Longrightarrow> map f xs = map g ys"
  by (induction rule: list_all2_induct) auto

text \<open>The collections of the private results have distinct names.\<close>

lemma pvt_msg_distinct:
  assumes "wf_builder b" and "getTxPvtReadWriteSet b = Some t" and "TxPvtRwSet_ToProtoMsg pc t = Inr m"
  shows "distinct (map npp_Namespace (tpp_NsPvtRwset m)) \<and>
    (\<forall>n \<in> set (tpp_NsPvtRwset m). distinct (map cpp_CollectionName (npp_CollectionPvtRwset n)))"
proof
  let ?m = "pvtRwBuilderMap b" and ?R = "\<lambda>x y. NsPvtRwSet_toProtoMsg pc x = Inr y"
  have t: "NsPvtRwSets t = map nsPvtRwBuilder_build (GetValuesBySortedKeys ?m)"
    using assms(2) by (auto simp: getTxPvtReadWriteSet_def Let_def split: if_splits)
  have all: "list_all2 ?R (NsPvtRwSets t) (tpp_NsPvtRwset m)"
    using assms(3) by (auto simp: TxPvtRwSet_ToProtoMsg_def go_res mapE_Inr_iff)
  then have "map np_NameSpace (NsPvtRwSets t) = map npp_Namespace (tpp_NsPvtRwset m)"
    by (rule list_all2_map_eq) (auto simp: NsPvtRwSet_toProtoMsg_def go_res)
  moreover have "map np_NameSpace (NsPvtRwSets t) = GetSortedKeys ?m"
    using assms(1) keyed_values [of pvt_namespace ?m]
    by (simp add: t nsPvtRwBuilder_build_def wf_builder_def comp_def)
  ultimately show "distinct (map npp_Namespace (tpp_NsPvtRwset m))"
    using assms(1) by (metis distinct_GetSortedKeys keyed_wf wf_builder_def)
  show "\<forall>n \<in> set (tpp_NsPvtRwset m). distinct (map cpp_CollectionName (npp_CollectionPvtRwset n))"
  proof
    fix n assume "n \<in> set (tpp_NsPvtRwset m)"
    then obtain nb where nb: "nb \<in> set (GetValuesBySortedKeys ?m)" and n: "?R (nsPvtRwBuilder_build nb) n"
      using all t by (fastforce simp: list_all2_conv_all_nth in_set_conv_nth)
    then have "wf_pvt nb"
      using assms(1) by (auto simp: GetValuesBySortedKeys_def wf_builder_def)
    have "list_all2 (\<lambda>x y. CollPvtRwSet_ToProtoMsg pc x = Inr y)
        (CollPvtRwSets (nsPvtRwBuilder_build nb)) (npp_CollectionPvtRwset n)"
      using n by (auto simp: NsPvtRwSet_toProtoMsg_def go_res mapE_Inr_iff)
    then have "map cp_CollectionName (CollPvtRwSets (nsPvtRwBuilder_build nb)) =
        map cpp_CollectionName (npp_CollectionPvtRwset n)"
      by (rule list_all2_map_eq) (auto simp: CollPvtRwSet_ToProtoMsg_def go_res)
    moreover have "map cp_CollectionName (CollPvtRwSets (nsPvtRwBuilder_build nb)) =
        GetSortedKeys (collPvtRwBuilders nb)"
      using \<open>wf_pvt nb\<close> keyed_values [of cpb_collectionName "collPvtRwBuilders nb"]
      by (simp add: nsPvtRwBuilder_build_def collPvtRwBuilder_build_def wf_pvt_def comp_def)
    ultimately show "distinct (map cpp_CollectionName (npp_CollectionPvtRwset n))"
      using \<open>wf_pvt nb\<close> by (metis distinct_GetSortedKeys keyed_wf wf_pvt_def)
  qed
qed

lemma hash_loop:
  assumes "distinct (map npp_Namespace nss)"
    and "\<forall>n \<in> set nss. distinct (map cpp_CollectionName (npp_CollectionPvtRwset n))"
    and "n \<in> set nss" and "c \<in> set (npp_CollectionPvtRwset n)"
  shows "b_pvtHash (fold (\<lambda>ns. fold (\<lambda>coll.
      setPvtCollectionHash H (npp_Namespace ns) (cpp_CollectionName coll) (cpp_Rwset coll))
    (npp_CollectionPvtRwset ns)) nss b) (npp_Namespace n, cpp_CollectionName c) = Some (H (cpp_Rwset c))"
proof -
  let ?kvs = "concat (map (\<lambda>n. map (\<lambda>c. ((npp_Namespace n, cpp_CollectionName c), H (cpp_Rwset c)))
    (npp_CollectionPvtRwset n)) nss)"
  have "distinct (map fst ?kvs)"
    using distinct_nested [OF assms(1), where jf = cpp_CollectionName and g = npp_CollectionPvtRwset] assms(2)
    by (simp add: map_concat comp_def)
  moreover from this have "map_of ?kvs (npp_Namespace n, cpp_CollectionName c) = Some (H (cpp_Rwset c))"
    using assms(3,4) by (intro map_of_is_SomeI) auto
  moreover have "fold (\<lambda>ns. fold (\<lambda>coll.
      setPvtCollectionHash H (npp_Namespace ns) (cpp_CollectionName coll) (cpp_Rwset coll))
    (npp_CollectionPvtRwset ns)) nss b = fold (\<lambda>(k, v). b_setPvtHash k v) ?kvs b"
    by (induction nss arbitrary: b) (auto simp: setPvtCollectionHash_store fold_map comp_def)
  ultimately show ?thesis
    by (simp add: ph.get_fold_upd_distinct)
qed

section \<open>Properties of the conversions and the results\<close>


definition sample_kv :: KVRWSet where
  "sample_kv = \<lparr>Reads = [NewKVRead ''a'' (Some (NewHeight 3 1))], RangeQueriesInfo = [],
     Writes = [newKVWrite ''a'' (Some ''1'')], MetadataWrites = []\<rparr>"

definition sample_rwset :: TxRwSet where
  "sample_rwset = \<lparr>NsRwSets = [\<lparr>NameSpace = ''ns1'', KvRwSet = sample_kv, CollHashedRwSets = []\<rparr>]\<rparr>"

definition sample_msg :: TxReadWriteSet where
  "sample_msg = \<lparr>trp_DataModel = TxReadWriteSet_KV,
     trp_NsRwset = [\<lparr>nrp_Namespace = ''ns1'', nrp_Rwset = ''kv'', nrp_CollectionHashedRwset = []\<rparr>]\<rparr>"

text \<open>A codec that knows one message of each kind, with the laws of protobuf.\<close>

definition sample_codec :: proto_codec where
  "sample_codec =
     \<lparr>Marshal_KVRWSet = (\<lambda>m. if m = sample_kv then Inr ''kv'' else Inl (Error ''marshal'')),
      Unmarshal_KVRWSet = (\<lambda>b. if b = ''kv'' then Inr sample_kv else Inl (Error ''unmarshal'')),
      Marshal_HashedRWSet = (\<lambda>m. Inl (Error ''marshal'')),
      Unmarshal_HashedRWSet = (\<lambda>b. Inl (Error ''unmarshal'')),
      Marshal_TxReadWriteSet = (\<lambda>m. if m = sample_msg then Inr ''tx'' else Inl (Error ''marshal'')),
      Unmarshal_TxReadWriteSet = (\<lambda>b. if b = ''tx'' then Inr sample_msg else Inl (Error ''unmarshal'')),
      Marshal_TxPvtReadWriteSet = (\<lambda>m. Inl (Error ''marshal'')),
      Unmarshal_TxPvtReadWriteSet = (\<lambda>b. Inl (Error ''unmarshal''))\<rparr>"

lemma sample_codec_faithful: "codec_faithful sample_codec"
  by (simp add: codec_faithful_def sample_codec_def)

lemma sample_rwset_bytes: "TxRwSet_ToProtoBytes sample_codec sample_rwset = Inr ''tx''"
  by (simp add: TxRwSet_ToProtoBytes_def TxRwSet_toProtoMsg_def NsRwSet_toProtoMsg_def
      sample_rwset_def sample_codec_def sample_msg_def)


text \<open>
  C10: In the results of a simulation, the public set carries for every collection of the private
  set the hash of exactly the bytes the private set holds for it: whoever receives the private
  data later can check it against the block.
\<close>

theorem private_collection_hash_matches:
  assumes "GetTxSimulationResults pc H (run_ops H ops) = Inr (r, b)"
    and "PvtSimulationResults r = Some pvt"
    and "n \<in> set (tpp_NsPvtRwset pvt)" and "c \<in> set (npp_CollectionPvtRwset n)"
  shows "msg_PvtDataHash (PubSimulationResults r) (npp_Namespace n) (cpp_CollectionName c) =
    Some (H (cpp_Rwset c))"
proof -
  let ?loop = "fold (\<lambda>ns. fold (\<lambda>coll.
      setPvtCollectionHash H (npp_Namespace ns) (cpp_CollectionName coll) (cpp_Rwset coll))
    (npp_CollectionPvtRwset ns)) (tpp_NsPvtRwset pvt) (run_ops H ops)"
  from assms(1,2) obtain t where t: "getTxPvtReadWriteSet (run_ops H ops) = Some t"
      "TxPvtRwSet_ToProtoMsg pc t = Inr pvt"
    and b: "b = ?loop" and pub: "TxRwSet_toProtoMsg pc (GetTxReadWriteSet b) = Inr (PubSimulationResults r)"
    by (auto simp: GetTxSimulationResults_def go_res split: option.splits)
  have "wf_builder ?loop"
    by (intro fold_invariant [where P = wf_builder and Q = "\<lambda>_. True"] wf_run_ops wf_setPvtCollectionHash) auto
  moreover have "b_pvtHash ?loop (npp_Namespace n, cpp_CollectionName c) = Some (H (cpp_Rwset c))"
    using pvt_msg_distinct [OF wf_run_ops t] assms(3,4) by (intro hash_loop) auto
  ultimately show ?thesis
    using GetPvtDataHash_msg [OF pub] GetPvtDataHash_build [of ?loop] b by simp
qed

definition plain_codec :: proto_codec where
  "plain_codec = sample_codec\<lparr>Marshal_KVRWSet := (\<lambda>m. Inr (concat (map w_Key (Writes m)))),
     Marshal_HashedRWSet := (\<lambda>m. Inr (concat (map wh_KeyHash (HashedWrites m))))\<rparr>"

definition sample_ops :: "rw_op list" where
  "sample_ops = [WriteOp ''ns1'' ''a'' (Some ''1''), PvtWriteOp ''ns1'' ''coll'' ''k'' (Some ''v'')]"

definition sample_results :: TxSimulationResults where
  "sample_results =
     \<lparr>PubSimulationResults = \<lparr>trp_DataModel = TxReadWriteSet_KV, trp_NsRwset =
        [\<lparr>nrp_Namespace = ''ns1'', nrp_Rwset = ''a'', nrp_CollectionHashedRwset =
           [\<lparr>chp_CollectionName = ''coll'', chp_HashedRwset = ''#k'', chp_PvtRwsetHash = Some ''#k''\<rparr>]\<rparr>]\<rparr>,
      PvtSimulationResults = Some \<lparr>tpp_DataModel = TxReadWriteSet_KV, tpp_NsPvtRwset =
        [\<lparr>npp_Namespace = ''ns1'', npp_CollectionPvtRwset =
           [\<lparr>cpp_CollectionName = ''coll'', cpp_Rwset = ''k''\<rparr>]\<rparr>]\<rparr>\<rparr>"

lemma sample_run:
  "map_sum id fst (GetTxSimulationResults plain_codec ((#) (CHR ''#'')) (run_ops ((#) (CHR ''#'')) sample_ops)) =
   Inr sample_results"
  by code_simp

theorem private_collection_hash_matches_witness:
  "msg_PvtDataHash (PubSimulationResults sample_results) ''ns1'' ''coll'' = Some ''#k''"
proof -
  obtain b where "GetTxSimulationResults plain_codec ((#) (CHR ''#'')) (run_ops ((#) (CHR ''#'')) sample_ops) =
      Inr (sample_results, b)"
    using sample_run by (cases "GetTxSimulationResults plain_codec ((#) (CHR ''#'')) (run_ops ((#) (CHR ''#'')) sample_ops)") auto
  from private_collection_hash_matches [OF this, of _ "\<lparr>npp_Namespace = ''ns1'', npp_CollectionPvtRwset =
           [\<lparr>cpp_CollectionName = ''coll'', cpp_Rwset = ''k''\<rparr>]\<rparr>" "\<lparr>cpp_CollectionName = ''coll'', cpp_Rwset = ''k''\<rparr>"]
  show ?thesis by (simp add: sample_results_def)
qed

end
