(* ===== verification/Merkle.thy ===== *)
theory Merkle
  imports RWSet "HOL-Library.Sublist"
begin

text \<open>
  Summaries of range-query results: \<open>RangeQueryResultsHelper\<close> and its Merkle tree
  (core/ledger/kvledger/txmgmt/rwsetutil/query_results_helper.go). The hash function and the
  serialization of a group of reads are parameters. Tree levels are natural numbers: a level is
  opened only by more than two hashes of the level below, so a 32-bit level would wrap only after
  more than \<open>2 ^ (2 ^ 32)\<close> results.

  The loop of \<open>update\<close> climbs one level per iteration and stops at the latest one level above
  the highest, so one more iteration than there are levels is enough fuel; it is shown never to run
  out. Shown besides: no level outgrows the degree, a summary
  exists exactly when there were more results than the degree, and two runs over equally many
  results have equal summaries only if the results are equal (for a collision-free hash).
\<close>

type_synonym hash_func = "bytes \<Rightarrow> bytes res"

record merkleTree =
  tree :: "(nat, bytes list) gomap"
  maxLevel :: nat
  mt_maxDegree :: u32

definition leafLevel :: nat where
  "leafLevel = 1"

definition newMerkleTree :: "u32 \<Rightarrow> merkleTree res" where
  "newMerkleTree maxDegree =
     (if maxDegree < 2 then Inl (Error ''maxDegree should not be less than 2 in the merkle tree'')
      else Inr \<lparr>tree = [], maxLevel = 1, mt_maxDegree = maxDegree\<rparr>)"

text \<open>Indexing the map with an absent level gives the nil slice.\<close>

definition level :: "merkleTree \<Rightarrow> nat \<Rightarrow> bytes list" where
  "level m l = (case map_of (tree m) l of None \<Rightarrow> [] | Some hs \<Rightarrow> hs)"

text \<open>\<open>m.tree[l] = append(m.tree[l], h)\<close> and \<open>delete(m.tree, l)\<close>.\<close>

definition push :: "nat \<Rightarrow> bytes \<Rightarrow> merkleTree \<Rightarrow> merkleTree" where
  "push l h m = m\<lparr>tree := AList.update l (level m l @ [h]) (tree m)\<rparr>"

definition clear :: "nat \<Rightarrow> merkleTree \<Rightarrow> merkleTree" where
  "clear l m = m\<lparr>tree := AList.delete l (tree m)\<rparr>"

definition computeCombinedHash :: "bytes list \<Rightarrow> hash_func \<Rightarrow> bytes res" where
  "computeCombinedHash hashes hashFunc = hashFunc (concat hashes)"

text \<open>
  The comparison \<open>uint32(len(hashes)) <= maxDegree\<close> truncates the length to 32 bits.
\<close>

definition exceeds :: "'a list \<Rightarrow> u32 \<Rightarrow> bool" where
  "exceeds xs maxDegree = (\<not> (of_nat (length xs) :: u32) \<le> maxDegree)"

fun update_loop :: "hash_func \<Rightarrow> nat \<Rightarrow> nat \<Rightarrow> merkleTree \<Rightarrow> merkleTree res" where
  "update_loop hashFunc 0 currentLevel m = Inl (Panic ''out of fuel'')"
| "update_loop hashFunc (Suc n) currentLevel m =
     (let currentLevelHashes = level m currentLevel in
      if \<not> exceeds currentLevelHashes (mt_maxDegree m) then Inr m
      else bindE (computeCombinedHash currentLevelHashes hashFunc) (\<lambda>nextLevelHash.
        let nextLevel = Suc currentLevel;
            m1 = push nextLevel nextLevelHash (clear currentLevel m)
        in update_loop hashFunc n nextLevel
             (if nextLevel > maxLevel m1 then m1\<lparr>maxLevel := nextLevel\<rparr> else m1)))"

definition merkleTree_update :: "hash_func \<Rightarrow> bytes \<Rightarrow> merkleTree \<Rightarrow> merkleTree res" where
  "merkleTree_update hashFunc nextLeafLevelHash m =
     update_loop hashFunc (Suc (maxLevel m)) leafLevel (push leafLevel nextLeafLevelHash m)"

text \<open>The loop of \<open>done\<close> climbs from \<open>currentLevel\<close> to \<open>maxLevel\<close>.\<close>

function done_loop :: "hash_func \<Rightarrow> nat \<Rightarrow> merkleTree \<Rightarrow> merkleTree res" where
  "done_loop hashFunc currentLevel m =
     (if currentLevel < maxLevel m then
        (let currentLevelHashes = level m currentLevel in
         if length currentLevelHashes = 0 then done_loop hashFunc (Suc currentLevel) m
         else bindE (if length currentLevelHashes = 1 then Inr (currentLevelHashes ! 0)
                     else computeCombinedHash currentLevelHashes hashFunc) (\<lambda>h.
                done_loop hashFunc (Suc currentLevel) (push (Suc currentLevel) h (clear currentLevel m))))
      else Inr m)"
  by pat_completeness auto
termination
  by (relation "measure (\<lambda>(_, l, m). maxLevel m - l)") (auto simp: push_def clear_def)

declare done_loop.simps [simp del]

definition merkleTree_done :: "hash_func \<Rightarrow> merkleTree \<Rightarrow> merkleTree res" where
  "merkleTree_done hashFunc m =
     bindE (done_loop hashFunc leafLevel m) (\<lambda>m1.
       let finalHashes = level m1 (maxLevel m1) in
       if exceeds finalHashes (mt_maxDegree m1) then
         (let m2 = (clear (maxLevel m1) m1)\<lparr>maxLevel := Suc (maxLevel m1)\<rparr> in
          bindE (computeCombinedHash finalHashes hashFunc) (\<lambda>combinedHash.
            Inr (m2\<lparr>tree := AList.update (maxLevel m2) [combinedHash] (tree m2)\<rparr>)))
       else Inr m1)"

definition isEmpty :: "merkleTree \<Rightarrow> bool" where
  "isEmpty m = (maxLevel m = 1 \<and> length (level m (maxLevel m)) = 0)"

definition getSummery :: "merkleTree \<Rightarrow> QueryReadsMerkleSummary" where
  "getSummery m = \<lparr>ms_MaxDegree = mt_maxDegree m, ms_MaxLevel = of_nat (maxLevel m),
     ms_MaxLevelHashes = level m (maxLevel m)\<rparr>"

section \<open>The results helper\<close>

record RangeQueryResultsHelper =
  pendingResults :: "KVRead list"
  mt :: "merkleTree option"
  h_maxDegree :: u32
  hashingEnabled :: bool

definition NewRangeQueryResultsHelper :: "bool \<Rightarrow> u32 \<Rightarrow> RangeQueryResultsHelper res" where
  "NewRangeQueryResultsHelper enableHashing maxDegree =
     (if enableHashing then
        bindE (newMerkleTree maxDegree) (\<lambda>m.
          Inr \<lparr>pendingResults = [], mt = Some m, h_maxDegree = maxDegree, hashingEnabled = enableHashing\<rparr>)
      else Inr \<lparr>pendingResults = [], mt = None, h_maxDegree = maxDegree, hashingEnabled = enableHashing\<rparr>)"

text \<open>
  \<open>serializeKVReads\<close> is \<open>proto.Marshal\<close> of the reads. The helper's tree is nil exactly when
  hashing is off, and then no method below reaches it.
\<close>

definition processPendingResults ::
  "(KVRead list \<Rightarrow> bytes res) \<Rightarrow> hash_func \<Rightarrow> RangeQueryResultsHelper \<Rightarrow> RangeQueryResultsHelper res" where
  "processPendingResults serializeKVReads hashFunc helper =
     bindE (serializeKVReads (pendingResults helper)) (\<lambda>b.
     bindE (hashFunc b) (\<lambda>hash.
       case mt helper of None \<Rightarrow> Inl (Panic ''nil pointer dereference'')
       | Some m \<Rightarrow> bindE (merkleTree_update hashFunc hash m) (\<lambda>m1.
           Inr (helper\<lparr>pendingResults := [], mt := Some m1\<rparr>))))"

definition AddResult ::
  "(KVRead list \<Rightarrow> bytes res) \<Rightarrow> hash_func \<Rightarrow> KVRead \<Rightarrow> RangeQueryResultsHelper \<Rightarrow> RangeQueryResultsHelper res" where
  "AddResult serializeKVReads hashFunc kvRead helper =
     (let helper1 = helper\<lparr>pendingResults := pendingResults helper @ [kvRead]\<rparr> in
      if hashingEnabled helper1 \<and> exceeds (pendingResults helper1) (h_maxDegree helper1)
      then processPendingResults serializeKVReads hashFunc helper1
      else Inr helper1)"

definition Done ::
  "(KVRead list \<Rightarrow> bytes res) \<Rightarrow> hash_func \<Rightarrow> RangeQueryResultsHelper \<Rightarrow>
     (KVRead list \<times> QueryReadsMerkleSummary option) res" where
  "Done serializeKVReads hashFunc helper =
     (if \<not> hashingEnabled helper then Inr (pendingResults helper, None)
      else case mt helper of None \<Rightarrow> Inl (Panic ''nil pointer dereference'')
      | Some m \<Rightarrow>
          if isEmpty m then Inr (pendingResults helper, None)
          else bindE (if length (pendingResults helper) \<noteq> 0
                      then processPendingResults serializeKVReads hashFunc helper else Inr helper) (\<lambda>helper1.
            case mt helper1 of None \<Rightarrow> Inl (Panic ''nil pointer dereference'')
            | Some m1 \<Rightarrow> bindE (merkleTree_done hashFunc m1) (\<lambda>m2.
                Inr (pendingResults helper1, Some (getSummery m2)))))"

definition GetMerkleSummary :: "RangeQueryResultsHelper \<Rightarrow> QueryReadsMerkleSummary option res" where
  "GetMerkleSummary helper =
     (if \<not> hashingEnabled helper then Inr None
      else case mt helper of None \<Rightarrow> Inl (Panic ''nil pointer dereference'')
      | Some m \<Rightarrow> Inr (Some (getSummery m)))"

section \<open>Levels\<close>

lemma level_push [simp]: "level (push l h m) l' = (if l' = l then level m l @ [h] else level m l')"
  by (simp add: level_def push_def)

lemma level_clear [simp]: "level (clear l m) l' = (if l' = l then [] else level m l')"
  by (simp add: level_def clear_def)

lemma level_maxLevel_update [simp]: "level (m\<lparr>maxLevel := n\<rparr>) l = level m l"
  by (simp add: level_def)

lemma push_clear_sel [simp]:
  "maxLevel (push l h m) = maxLevel m" "mt_maxDegree (push l h m) = mt_maxDegree m"
  "maxLevel (clear l m) = maxLevel m" "mt_maxDegree (clear l m) = mt_maxDegree m"
  by (simp_all add: push_def clear_def)

lemma exceeds_length: "exceeds xs d \<Longrightarrow> unat d < length xs"
proof -
  assume "exceeds xs d"
  then have "unat d < unat (of_nat (length xs) :: u32)"
    by (simp add: exceeds_def word_less_nat_alt not_le)
  also have "\<dots> \<le> length xs" by (simp add: unat_of_nat)
  finally show ?thesis .
qed

lemma exceeds_iff: "length xs < 2 ^ 32 \<Longrightarrow> exceeds xs d \<longleftrightarrow> unat d < length xs"
  by (simp add: exceeds_def word_le_nat_alt not_le unat_of_nat take_bit_nat_eq_self)

text \<open>
  The invariant of a tree: levels run from 1 to \<open>maxLevel\<close>, the highest level is in use once it
  is above the leaves, and no level holds more hashes than the degree.
\<close>

definition merkle_wf :: "merkleTree \<Rightarrow> bool" where
  "merkle_wf m \<longleftrightarrow> 2 \<le> unat (mt_maxDegree m) \<and> unat (mt_maxDegree m) < 2 ^ 32 - 1 \<and> 1 \<le> maxLevel m \<and>
     level m 0 = [] \<and> (\<forall>l > maxLevel m. level m l = []) \<and>
     (1 < maxLevel m \<longrightarrow> level m (maxLevel m) \<noteq> []) \<and>
     (\<forall>l. length (level m l) \<le> unat (mt_maxDegree m))"

text \<open>The same while \<open>update\<close> works at level \<open>c\<close>, which may hold one hash too many.\<close>

definition loop_wf :: "nat \<Rightarrow> merkleTree \<Rightarrow> bool" where
  "loop_wf c m \<longleftrightarrow> 2 \<le> unat (mt_maxDegree m) \<and> unat (mt_maxDegree m) < 2 ^ 32 - 1 \<and> 1 \<le> c \<and> c \<le> maxLevel m \<and>
     level m 0 = [] \<and> (\<forall>l > maxLevel m. level m l = []) \<and>
     level m c \<noteq> [] \<and> (1 < maxLevel m \<longrightarrow> level m (maxLevel m) \<noteq> []) \<and>
     (\<forall>l. length (level m l) \<le> (if l = c then Suc (unat (mt_maxDegree m)) else unat (mt_maxDegree m)))"

definition total_fn :: "('a \<Rightarrow> 'b res) \<Rightarrow> bool" where
  "total_fn f = (\<forall>x. \<exists>y. f x = Inr y)"

lemma loop_wf_step:
  assumes "loop_wf c m" and "m1 = push (Suc c) h (clear c m)"
  shows "loop_wf (Suc c) (if Suc c > maxLevel m1 then m1\<lparr>maxLevel := Suc c\<rparr> else m1)"
proof -
  let ?m = "if Suc c > maxLevel m1 then m1\<lparr>maxLevel := Suc c\<rparr> else m1"
  have lev: "level ?m l = (if l = Suc c then level m (Suc c) @ [h] else if l = c then [] else level m l)" for l
    by (simp add: assms(2))
  have mx: "maxLevel ?m = max (Suc c) (maxLevel m)" and deg: "mt_maxDegree ?m = mt_maxDegree m"
    by (simp_all add: assms(2) max_def)
  have len: "length (level m l) \<le> (if l = c then Suc (unat (mt_maxDegree m)) else unat (mt_maxDegree m))" for l
    using assms(1) by (simp add: loop_wf_def)
  have "length (level ?m l) \<le> (if l = Suc c then Suc (unat (mt_maxDegree m)) else unat (mt_maxDegree m))" for l
    using len [of l] len [of "Suc c"] unfolding lev by auto
  moreover have "level ?m (maxLevel ?m) \<noteq> []"
    using assms(1) unfolding lev mx loop_wf_def by (auto simp: max_def)
  moreover have "\<forall>l > maxLevel ?m. level ?m l = []"
    using assms(1) unfolding lev mx loop_wf_def by auto
  ultimately show ?thesis
    using assms(1) unfolding loop_wf_def deg lev mx by simp
qed

lemma loop_wf_exit:
  assumes "loop_wf c m" and "\<not> exceeds (level m c) (mt_maxDegree m)"
  shows "merkle_wf m"
proof -
  have len: "length (level m l) \<le> (if l = c then Suc (unat (mt_maxDegree m)) else unat (mt_maxDegree m))" for l
    using assms(1) by (simp add: loop_wf_def)
  moreover have "unat (mt_maxDegree m) < 2 ^ 32 - 1"
    using assms(1) by (simp add: loop_wf_def)
  ultimately have "length (level m c) < 2 ^ 32"
    using len [of c] by simp
  then have "length (level m c) \<le> unat (mt_maxDegree m)"
    using assms(2) by (simp add: exceeds_iff)
  then have "length (level m l) \<le> unat (mt_maxDegree m)" for l
    using len [of l] by (simp split: if_splits)
  then show ?thesis
    using assms(1) by (simp add: loop_wf_def merkle_wf_def)
qed

lemma update_loop_total:
  assumes "total_fn hf" and "loop_wf c m"
    and "maxLevel m - c + (if length (level m c) = 1 then 1 else 2) \<le> n"
  shows "\<exists>m'. update_loop hf n c m = Inr m'"
  using assms(2-)
proof (induction n arbitrary: c m)
  case (Suc n)
  show ?case
  proof (cases "exceeds (level m c) (mt_maxDegree m)")
    case True
    obtain h where h: "computeCombinedHash (level m c) hf = Inr h"
      using assms(1) by (auto simp: computeCombinedHash_def total_fn_def)
    have c: "c \<le> maxLevel m" "level m (Suc c) = []" if "\<not> Suc c \<le> maxLevel m"
      using Suc.prems(1) that by (auto simp: loop_wf_def)
    have "length (level m c) \<noteq> 1"
      using True Suc.prems(1) exceeds_length [OF True] by (simp add: loop_wf_def)
    then have "\<exists>m'. update_loop hf n (Suc c) (if Suc c > maxLevel m then
        (push (Suc c) h (clear c m))\<lparr>maxLevel := Suc c\<rparr> else push (Suc c) h (clear c m)) = Inr m'"
      using Suc.prems c by (intro Suc.IH loop_wf_step [OF Suc.prems(1) refl, of h, simplified]) auto
    with True h show ?thesis by (simp add: Let_def)
  qed simp
qed (auto split: if_splits)

lemma update_loop_wf:
  "loop_wf c m \<Longrightarrow> update_loop hf n c m = Inr m' \<Longrightarrow> merkle_wf m' \<and> mt_maxDegree m' = mt_maxDegree m"
proof (induction n arbitrary: c m)
  case (Suc n)
  show ?case
  proof (cases "exceeds (level m c) (mt_maxDegree m)")
    case True
    with Suc.prems(2) obtain h where "computeCombinedHash (level m c) hf = Inr h"
      and "update_loop hf n (Suc c) (if Suc c > maxLevel m then
        (push (Suc c) h (clear c m))\<lparr>maxLevel := Suc c\<rparr> else push (Suc c) h (clear c m)) = Inr m'"
      by (auto simp: Let_def go_res)
    from Suc.IH [OF loop_wf_step [OF Suc.prems(1) refl, of h, simplified] this(2)]
    show ?thesis by (simp split: if_splits)
  next
    case False
    then show ?thesis using loop_wf_exit [OF Suc.prems(1)] Suc.prems(2) by simp
  qed
qed simp

lemma push_loop_wf: "merkle_wf m \<Longrightarrow> loop_wf leafLevel (push leafLevel h m)"
  by (auto simp: merkle_wf_def loop_wf_def leafLevel_def)

lemma merkleTree_update_wf:
  "merkle_wf m \<Longrightarrow> merkleTree_update hf h m = Inr m' \<Longrightarrow> merkle_wf m' \<and> mt_maxDegree m' = mt_maxDegree m"
  using update_loop_wf [OF push_loop_wf] by (auto simp: merkleTree_update_def simp del: update_loop.simps)

lemma merkleTree_update_total:
  assumes "total_fn hf" and "merkle_wf m"
  shows "\<exists>m'. merkleTree_update hf h m = Inr m'"
  unfolding merkleTree_update_def
  by (rule update_loop_total [OF assms(1) push_loop_wf [OF assms(2)]])
    (use assms(2) in \<open>simp add: merkle_wf_def leafLevel_def\<close>)

section \<open>Completing the tree\<close>

text \<open>What holds while \<open>done\<close> works at level \<open>c\<close>.\<close>

definition done_wf :: "nat \<Rightarrow> merkleTree \<Rightarrow> bool" where
  "done_wf c m \<longleftrightarrow> c \<le> maxLevel m \<and> (\<forall>l < c. level m l = []) \<and> (\<forall>l > maxLevel m. level m l = []) \<and>
     level m (maxLevel m) \<noteq> [] \<and>
     (\<forall>l. length (level m l) \<le> (if l = c then Suc (unat (mt_maxDegree m)) else unat (mt_maxDegree m)))"

lemma done_wf_len:
  "done_wf c m \<Longrightarrow>
     length (level m l) \<le> (if l = c then Suc (unat (mt_maxDegree m)) else unat (mt_maxDegree m))"
  by (simp add: done_wf_def)

lemma done_wf_skip:
  assumes "done_wf c m" and "c < maxLevel m" and "level m c = []"
  shows "done_wf (Suc c) m"
proof -
  note len = done_wf_len [OF assms(1)]
  have "length (level m l) \<le> (if l = Suc c then Suc (unat (mt_maxDegree m)) else unat (mt_maxDegree m))" for l
    using len [of l] assms(3) by (auto split: if_splits)
  moreover have "\<forall>l < Suc c. level m l = []"
    using assms by (auto simp: done_wf_def less_Suc_eq)
  ultimately show ?thesis using assms by (simp add: done_wf_def)
qed

lemma done_wf_climb:
  assumes "done_wf c m" and "c < maxLevel m"
  shows "done_wf (Suc c) (push (Suc c) h (clear c m))"
proof -
  note len = done_wf_len [OF assms(1)]
  have "length (level (push (Suc c) h (clear c m)) l) \<le>
      (if l = Suc c then Suc (unat (mt_maxDegree m)) else unat (mt_maxDegree m))" for l
    using len [of l] len [of "Suc c"] by auto
  moreover have "\<forall>l < Suc c. level (push (Suc c) h (clear c m)) l = []"
    using assms by (auto simp: done_wf_def less_Suc_eq)
  moreover have "\<forall>l > maxLevel m. level (push (Suc c) h (clear c m)) l = []"
    using assms by (auto simp: done_wf_def)
  moreover have "level (push (Suc c) h (clear c m)) (maxLevel m) \<noteq> []" and "Suc c \<le> maxLevel m"
    using assms by (auto simp: done_wf_def)
  ultimately show ?thesis unfolding done_wf_def push_clear_sel by blast
qed

lemma done_loop_wf:
  assumes "done_wf c m" and "done_loop hf c m = Inr m'"
  shows "done_wf (maxLevel m') m' \<and> maxLevel m' = maxLevel m \<and> mt_maxDegree m' = mt_maxDegree m"
  using assms
proof (induction hf c m rule: done_loop.induct)
  case (1 hf c m)
  consider (stop) "\<not> c < maxLevel m" | (skip) "c < maxLevel m" "level m c = []"
    | (climb) "c < maxLevel m" "level m c \<noteq> []" by blast
  then show ?case
  proof cases
    case stop
    with 1 have "c = maxLevel m" by (simp add: done_wf_def)
    moreover have "m' = m" using stop "1.prems"(2) by (simp add: done_loop.simps [of hf c m])
    ultimately show ?thesis using "1.prems"(1) by simp
  next
    case skip
    then have d: "done_loop hf (Suc c) m = Inr m'"
      using "1.prems"(2) by (simp add: done_loop.simps [of hf c m])
    have "length (level m c) = 0" using skip(2) by simp
    from "1.IH"(1) [OF skip(1) refl this done_wf_skip [OF "1.prems"(1) skip] d] show ?thesis .
  next
    case climb
    then obtain h where h: "(if length (level m c) = 1 then Inr (level m c ! 0) else computeCombinedHash (level m c) hf) = Inr h"
      and d: "done_loop hf (Suc c) (push (Suc c) h (clear c m)) = Inr m'"
      using "1.prems"(2) unfolding done_loop.simps [of hf c m] by (auto simp: Let_def go_res)
    have "length (level m c) \<noteq> 0" using climb(2) by simp
    from "1.IH"(2) [OF climb(1) refl this h done_wf_climb [OF "1.prems"(1) climb(1)] d]
    show ?thesis unfolding push_clear_sel .
  qed
qed

lemma done_hash_total:
  "total_fn hf \<Longrightarrow> \<exists>h. (if length hs = 1 then Inr (hs ! 0) else computeCombinedHash hs hf) = Inr h"
  by (cases "length hs = 1") (auto simp: total_fn_def computeCombinedHash_def)

lemma done_loop_total: "total_fn hf \<Longrightarrow> \<exists>m'. done_loop hf c m = Inr m'"
proof (induction hf c m rule: done_loop.induct)
  case (1 hf c m)
  consider (stop) "\<not> c < maxLevel m" | (skip) "c < maxLevel m" "level m c = []"
    | (climb) "c < maxLevel m" "level m c \<noteq> []" by blast
  then show ?case
  proof cases
    case climb
    obtain h where h: "(if length (level m c) = 1 then Inr (level m c ! 0) else computeCombinedHash (level m c) hf) = Inr h"
      using done_hash_total [OF "1.prems"] by blast
    from "1.IH"(2) [OF climb(1) refl _ h "1.prems"] climb h
    show ?thesis by (simp add: done_loop.simps [of hf c m] Let_def)
  qed (use 1 in \<open>simp_all add: done_loop.simps [of hf c m]\<close>)
qed

lemma done_wf_start:
  assumes "merkle_wf m" and "\<not> isEmpty m"
  shows "done_wf leafLevel m"
proof -
  have "level m (maxLevel m) \<noteq> []"
    using assms by (cases "maxLevel m = 1") (auto simp: merkle_wf_def isEmpty_def)
  with assms(1) show ?thesis
    by (auto simp: done_wf_def merkle_wf_def leafLevel_def le_SucI)
qed

lemma merkleTree_done_spec:
  assumes "merkle_wf m" and "\<not> isEmpty m" and "merkleTree_done hf m = Inr m'"
  shows "mt_maxDegree m' = mt_maxDegree m \<and> (\<forall>l. l \<noteq> maxLevel m' \<longrightarrow> level m' l = []) \<and>
    level m' (maxLevel m') \<noteq> [] \<and> length (level m' (maxLevel m')) \<le> unat (mt_maxDegree m)"
proof -
  from assms(3) obtain m1 where m1: "done_loop hf leafLevel m = Inr m1"
    and fin: "(let finalHashes = level m1 (maxLevel m1) in
       if exceeds finalHashes (mt_maxDegree m1) then
         (let m2 = (clear (maxLevel m1) m1)\<lparr>maxLevel := Suc (maxLevel m1)\<rparr> in
          bindE (computeCombinedHash finalHashes hf) (\<lambda>combinedHash.
            Inr (m2\<lparr>tree := AList.update (maxLevel m2) [combinedHash] (tree m2)\<rparr>)))
       else Inr m1) = Inr m'"
    unfolding merkleTree_done_def go_res by blast
  have d: "2 \<le> unat (mt_maxDegree m)" "unat (mt_maxDegree m) < 2 ^ 32 - 1"
    using assms(1) by (simp_all add: merkle_wf_def)
  note w = done_loop_wf [OF done_wf_start [OF assms(1,2)] m1]
  then have w1: "done_wf (maxLevel m1) m1" and deg: "mt_maxDegree m1 = mt_maxDegree m" by auto
  then have empty: "level m1 l = []" if "l \<noteq> maxLevel m1" for l
    using that by (cases "l < maxLevel m1") (auto simp: done_wf_def)
  have len: "length (level m1 (maxLevel m1)) \<le> Suc (unat (mt_maxDegree m))" "level m1 (maxLevel m1) \<noteq> []"
    using done_wf_len [OF w1, of "maxLevel m1"] deg w1 by (auto simp: done_wf_def)
  show ?thesis
  proof (cases "exceeds (level m1 (maxLevel m1)) (mt_maxDegree m1)")
    case False
    moreover have "m' = m1" using fin False by simp
    moreover have "length (level m1 (maxLevel m1)) < 2 ^ 32" using len(1) d(2) by simp
    ultimately have "length (level m1 (maxLevel m1)) \<le> unat (mt_maxDegree m)"
      using w by (simp add: exceeds_iff)
    then show ?thesis using \<open>m' = m1\<close> len w empty by blast
  next
    case True
    then obtain h where m': "m' = (clear (maxLevel m1) m1)\<lparr>maxLevel := Suc (maxLevel m1),
         tree := AList.update (Suc (maxLevel m1)) [h] (tree (clear (maxLevel m1) m1))\<rparr>"
      using fin by (auto simp: Let_def go_res)
    then have "level m' l = (if l = Suc (maxLevel m1) then [h] else level (clear (maxLevel m1) m1) l)" for l
      by (simp add: level_def)
    with m' d w empty show ?thesis by auto
  qed
qed

lemma merkleTree_done_total:
  assumes "total_fn hf"
  shows "\<exists>m'. merkleTree_done hf m = Inr m'"
proof -
  obtain m1 where m1: "done_loop hf leafLevel m = Inr m1" using done_loop_total [OF assms] by blast
  obtain h where "computeCombinedHash (level m1 (maxLevel m1)) hf = Inr h"
    using assms by (auto simp: total_fn_def computeCombinedHash_def)
  with m1 show ?thesis by (simp add: merkleTree_done_def Let_def)
qed

section \<open>A tree only grows at its top\<close>

text \<open>
  Either the tree got higher, or the hashes of its highest level are still there, in front of new
  ones.
\<close>

definition grows :: "merkleTree \<Rightarrow> merkleTree \<Rightarrow> bool" where
  "grows m m' \<longleftrightarrow> maxLevel m < maxLevel m' \<or>
     maxLevel m = maxLevel m' \<and> prefix (level m (maxLevel m)) (level m' (maxLevel m'))"

lemma grows_refl [simp]: "grows m m"
  by (simp add: grows_def)

lemma grows_trans [trans]: "grows m m' \<Longrightarrow> grows m' m'' \<Longrightarrow> grows m m''"
  by (auto simp: grows_def intro: prefix_order.trans)

lemma grows_push: "grows m (push l h m)"
  by (auto simp: grows_def)

lemma grows_climb: "c < maxLevel m \<Longrightarrow> grows m (push (Suc c) h (clear c m))"
  by (auto simp: grows_def)

lemma grows_update_loop:
  "c \<le> maxLevel m \<Longrightarrow> update_loop hf n c m = Inr m' \<Longrightarrow> grows m m'"
proof (induction n arbitrary: c m)
  case (Suc n)
  show ?case
  proof (cases "exceeds (level m c) (mt_maxDegree m)")
    case True
    with Suc.prems(2) obtain h where "computeCombinedHash (level m c) hf = Inr h"
      and u: "update_loop hf n (Suc c) (if Suc c > maxLevel m then
        (push (Suc c) h (clear c m))\<lparr>maxLevel := Suc c\<rparr> else push (Suc c) h (clear c m)) = Inr m'"
      by (auto simp: Let_def go_res)
    have "grows m (if Suc c > maxLevel m then
        (push (Suc c) h (clear c m))\<lparr>maxLevel := Suc c\<rparr> else push (Suc c) h (clear c m))"
      using Suc.prems(1) grows_climb [of c m h] by (auto simp: grows_def)
    also have "grows \<dots> m'"
      using Suc.IH [OF _ u] by simp
    finally show ?thesis .
  qed (use Suc.prems(2) in simp)
qed simp

lemma grows_update:
  assumes "1 \<le> maxLevel m" and "merkleTree_update hf h m = Inr m'"
  shows "grows m m'"
proof -
  have "grows m (push leafLevel h m)" by (rule grows_push)
  also have "grows \<dots> m'"
    using assms(1) grows_update_loop [OF _ assms(2) [unfolded merkleTree_update_def]]
    by (simp add: leafLevel_def)
  finally show ?thesis .
qed

lemma grows_done_loop: "done_loop hf c m = Inr m' \<Longrightarrow> grows m m'"
proof (induction hf c m rule: done_loop.induct)
  case (1 hf c m)
  consider (stop) "\<not> c < maxLevel m" | (skip) "c < maxLevel m" "level m c = []"
    | (climb) "c < maxLevel m" "level m c \<noteq> []" by blast
  then show ?case
  proof cases
    case climb
    then obtain h where h: "(if length (level m c) = 1 then Inr (level m c ! 0) else computeCombinedHash (level m c) hf) = Inr h"
      and d: "done_loop hf (Suc c) (push (Suc c) h (clear c m)) = Inr m'"
      using "1.prems" unfolding done_loop.simps [of hf c m] by (auto simp: Let_def go_res)
    have "grows m (push (Suc c) h (clear c m))" using climb(1) by (rule grows_climb)
    also have "grows \<dots> m'" using "1.IH"(2) [OF climb(1) refl _ h d] climb(2) by simp
    finally show ?thesis .
  qed (use 1 in \<open>simp_all add: done_loop.simps [of hf c m]\<close>)
qed

lemma grows_done:
  assumes "merkleTree_done hf m = Inr m'"
  shows "grows m m'"
proof -
  from assms obtain m1 where m1: "done_loop hf leafLevel m = Inr m1"
    and fin: "(let finalHashes = level m1 (maxLevel m1) in
       if exceeds finalHashes (mt_maxDegree m1) then
         (let m2 = (clear (maxLevel m1) m1)\<lparr>maxLevel := Suc (maxLevel m1)\<rparr> in
          bindE (computeCombinedHash finalHashes hf) (\<lambda>combinedHash.
            Inr (m2\<lparr>tree := AList.update (maxLevel m2) [combinedHash] (tree m2)\<rparr>)))
       else Inr m1) = Inr m'"
    unfolding merkleTree_done_def go_res by blast
  have "grows m1 m'"
    using fin by (cases "exceeds (level m1 (maxLevel m1)) (mt_maxDegree m1)") (auto simp: Let_def go_res grows_def)
  with grows_done_loop [OF m1] show ?thesis by (rule grows_trans)
qed

section \<open>The helper\<close>

text \<open>The whole use of a helper: feed it the results, then call \<open>Done\<close>.\<close>

definition summarize ::
  "(KVRead list \<Rightarrow> bytes res) \<Rightarrow> hash_func \<Rightarrow> u32 \<Rightarrow> KVRead list \<Rightarrow>
     (KVRead list \<times> QueryReadsMerkleSummary option) res" where
  "summarize ser hf maxDegree reads =
     bindE (NewRangeQueryResultsHelper True maxDegree) (\<lambda>helper.
     bindE (foldE (AddResult ser hf) reads helper) (Done ser hf))"

definition helper_wf :: "RangeQueryResultsHelper \<Rightarrow> bool" where
  "helper_wf h \<longleftrightarrow> hashingEnabled h \<and>
     (\<exists>m. mt h = Some m \<and> merkle_wf m \<and> mt_maxDegree m = h_maxDegree h) \<and>
     length (pendingResults h) \<le> unat (h_maxDegree h)"

lemma update_not_empty:
  assumes "merkle_wf m" and "merkleTree_update hf h m = Inr m'"
  shows "\<not> isEmpty m'"
proof -
  have "1 \<le> maxLevel m" using assms(1) by (simp add: merkle_wf_def)
  then have "grows (push leafLevel h m) m'"
    using grows_update_loop [OF _ assms(2) [unfolded merkleTree_update_def]] by (simp add: leafLevel_def)
  then show ?thesis
    using \<open>1 \<le> maxLevel m\<close> by (auto simp: grows_def isEmpty_def leafLevel_def)
qed

lemma helper_wf_exceeds:
  assumes "helper_wf h"
  shows "exceeds (pendingResults h @ [r]) (h_maxDegree h) \<longleftrightarrow> length (pendingResults h) = unat (h_maxDegree h)"
proof -
  have "length (pendingResults h) \<le> unat (h_maxDegree h)" and "unat (h_maxDegree h) < 2 ^ 32 - 1"
    using assms by (auto simp: helper_wf_def merkle_wf_def)
  then show ?thesis by (subst exceeds_iff) auto
qed

lemma processPendingResults_wf:
  assumes "hashingEnabled h" and "mt h = Some m" and "merkle_wf m" and "mt_maxDegree m = h_maxDegree h"
    and "processPendingResults ser hf h = Inr h'"
  shows "\<exists>m'. mt h' = Some m' \<and> merkle_wf m' \<and> \<not> isEmpty m' \<and> pendingResults h' = [] \<and>
    mt_maxDegree m' = h_maxDegree h' \<and> h_maxDegree h' = h_maxDegree h \<and> hashingEnabled h' \<and> grows m m'"
proof -
  from assms(2,5) obtain b x m' where u: "merkleTree_update hf x m = Inr m'"
    and h': "h' = h\<lparr>pendingResults := [], mt := Some m'\<rparr>"
    by (auto simp: processPendingResults_def go_res)
  have "1 \<le> maxLevel m" using assms(3) by (simp add: merkle_wf_def)
  from merkleTree_update_wf [OF assms(3) u] update_not_empty [OF assms(3) u] grows_update [OF this u] h' assms(1,4)
  show ?thesis by simp
qed

lemma AddResult_wf:
  assumes "helper_wf h" and "AddResult ser hf r h = Inr h'"
  shows "helper_wf h' \<and> h_maxDegree h' = h_maxDegree h \<and> grows (the (mt h)) (the (mt h')) \<and>
    (if length (pendingResults h) = unat (h_maxDegree h)
     then pendingResults h' = [] \<and> \<not> isEmpty (the (mt h'))
     else pendingResults h' = pendingResults h @ [r] \<and> mt h' = mt h)"
proof (cases "length (pendingResults h) = unat (h_maxDegree h)")
  case True
  obtain m where m: "mt h = Some m" "merkle_wf m" "mt_maxDegree m = h_maxDegree h" "hashingEnabled h"
    using assms(1) by (auto simp: helper_wf_def)
  from assms(2) True m have p: "processPendingResults ser hf (h\<lparr>pendingResults := pendingResults h @ [r]\<rparr>) = Inr h'"
    by (simp add: AddResult_def helper_wf_exceeds [OF assms(1)])
  from processPendingResults_wf [OF _ _ m(2) _ p] m True show ?thesis
    by (auto simp: helper_wf_def)
next
  case False
  with assms show ?thesis
    by (auto simp: AddResult_def helper_wf_exceeds helper_wf_def)
qed

lemma AddResult_total:
  assumes "total_fn hf" and "total_fn ser" and "helper_wf h"
  shows "\<exists>h'. AddResult ser hf r h = Inr h'"
proof -
  obtain m where m: "mt h = Some m" "merkle_wf m" using assms(3) by (auto simp: helper_wf_def)
  obtain b where b: "ser (pendingResults h @ [r]) = Inr b" using assms(2) by (auto simp: total_fn_def)
  obtain x where x: "hf b = Inr x" using assms(1) by (auto simp: total_fn_def)
  obtain m' where "merkleTree_update hf x m = Inr m'" using merkleTree_update_total [OF assms(1) m(2)] by blast
  with b x m show ?thesis by (simp add: AddResult_def processPendingResults_def Let_def)
qed

lemma foldE_AddResult:
  assumes "helper_wf h" and "foldE (AddResult ser hf) reads h = Inr h'"
  shows "helper_wf h' \<and> h_maxDegree h' = h_maxDegree h \<and> grows (the (mt h)) (the (mt h'))"
  using assms
proof (induction reads arbitrary: h)
  case (Cons r reads)
  then obtain h1 where h1: "AddResult ser hf r h = Inr h1" "foldE (AddResult ser hf) reads h1 = Inr h'"
    by (auto simp: go_res)
  show ?case
    using AddResult_wf [OF Cons.prems(1) h1(1)] Cons.IH [OF _ h1(2)] grows_trans by fastforce
qed simp

lemma foldE_AddResult_total:
  assumes "total_fn hf" and "total_fn ser" and "helper_wf h"
  shows "\<exists>h'. foldE (AddResult ser hf) reads h = Inr h'"
  using assms(3)
proof (induction reads arbitrary: h)
  case (Cons r reads)
  obtain h1 where h1: "AddResult ser hf r h = Inr h1" using AddResult_total [OF assms(1,2) Cons.prems] by blast
  with Cons.IH [of h1] AddResult_wf [OF Cons.prems h1] show ?case by auto
qed simp

text \<open>Until the first group is hashed, everything is pending.\<close>

lemma foldE_AddResult_pending:
  assumes "helper_wf h" and "foldE (AddResult ser hf) reads h = Inr h'"
    and "isEmpty (the (mt h))"
  shows "if length (pendingResults h) + length reads \<le> unat (h_maxDegree h)
    then pendingResults h' = pendingResults h @ reads \<and> isEmpty (the (mt h'))
    else \<not> isEmpty (the (mt h'))"
  using assms
proof (induction reads arbitrary: h)
  case Nil
  then show ?case by (simp add: helper_wf_def)
next
  case (Cons r reads)
  then obtain h1 where h1: "AddResult ser hf r h = Inr h1" "foldE (AddResult ser hf) reads h1 = Inr h'"
    by (auto simp: go_res)
  note w = AddResult_wf [OF Cons.prems(1) h1(1)]
  show ?case
  proof (cases "length (pendingResults h) = unat (h_maxDegree h)")
    case True
    then have "\<not> isEmpty (the (mt h1))" "helper_wf h1" using w by auto
    moreover have "grows (the (mt h1)) (the (mt h'))" "helper_wf h'"
      using foldE_AddResult [OF \<open>helper_wf h1\<close> h1(2)] by auto
    ultimately have "\<not> isEmpty (the (mt h'))"
      by (auto simp: isEmpty_def grows_def helper_wf_def merkle_wf_def)
    with True show ?thesis by simp
  next
    case False
    with w have "length (pendingResults h) < unat (h_maxDegree h)" using Cons.prems(1) by (simp add: helper_wf_def)
    with False w Cons.IH [OF _ h1(2)] Cons.prems(3) show ?thesis by (auto split: if_splits)
  qed
qed

lemma NewHelper_wf:
  assumes "2 \<le> maxDegree" and "maxDegree < 2 ^ 32 - 1"
  shows "\<exists>h. NewRangeQueryResultsHelper True maxDegree = Inr h \<and> helper_wf h \<and> isEmpty (the (mt h)) \<and>
    pendingResults h = [] \<and> h_maxDegree h = maxDegree"
proof -
  have "2 \<le> unat maxDegree" and "unat maxDegree < 2 ^ 32 - 1"
    using assms by (simp_all add: word_le_nat_alt word_less_nat_alt)
  then show ?thesis
    using assms(1)
    by (simp add: NewRangeQueryResultsHelper_def newMerkleTree_def helper_wf_def merkle_wf_def
        isEmpty_def level_def not_less)
qed

lemma Done_empty: "helper_wf h \<Longrightarrow> isEmpty (the (mt h)) \<Longrightarrow> Done ser hf h = Inr (pendingResults h, None)"
  by (auto simp: Done_def helper_wf_def)

lemma Done_summary:
  assumes "helper_wf h" and "\<not> isEmpty (the (mt h))" and "Done ser hf h = Inr (p, s)"
  shows "\<exists>m. p = [] \<and> s = Some (getSummery m) \<and> mt_maxDegree m = h_maxDegree h \<and>
    (\<forall>l. l \<noteq> maxLevel m \<longrightarrow> level m l = []) \<and> level m (maxLevel m) \<noteq> [] \<and>
    length (level m (maxLevel m)) \<le> unat (h_maxDegree h) \<and> grows (the (mt h)) m"
proof -
  obtain m where m: "mt h = Some m" "merkle_wf m" "mt_maxDegree m = h_maxDegree h" "hashingEnabled h"
    using assms(1) by (auto simp: helper_wf_def)
  from assms(2,3) m obtain h1 m1 m2 where
      h1: "(if length (pendingResults h) \<noteq> 0 then processPendingResults ser hf h else Inr h) = Inr h1"
    and m1: "mt h1 = Some m1" and m2: "merkleTree_done hf m1 = Inr m2"
    and ps: "p = pendingResults h1" "s = Some (getSummery m2)"
    unfolding Done_def by (auto simp: go_res split: option.splits)
  have "pendingResults h1 = [] \<and> merkle_wf m1 \<and> \<not> isEmpty m1 \<and> mt_maxDegree m1 = h_maxDegree h \<and> grows m m1"
  proof (cases "pendingResults h = []")
    case True
    with h1 m1 m assms(2) show ?thesis by auto
  next
    case False
    with h1 have "processPendingResults ser hf h = Inr h1" by simp
    from processPendingResults_wf [OF m(4,1,2,3) this] m1 show ?thesis by auto
  qed
  moreover from this have "mt_maxDegree m2 = mt_maxDegree m1 \<and> (\<forall>l. l \<noteq> maxLevel m2 \<longrightarrow> level m2 l = []) \<and>
      level m2 (maxLevel m2) \<noteq> [] \<and> length (level m2 (maxLevel m2)) \<le> unat (mt_maxDegree m1)"
    using merkleTree_done_spec [OF _ _ m2] by simp
  ultimately show ?thesis
    using ps m(1) grows_done [OF m2] grows_trans [of m m1 m2] by auto
qed

lemma Done_total:
  assumes "total_fn hf" and "total_fn ser" and "helper_wf h"
  shows "\<exists>r. Done ser hf h = Inr r"
proof -
  obtain m where m: "mt h = Some m" "merkle_wf m" "mt_maxDegree m = h_maxDegree h" "hashingEnabled h"
    using assms(3) by (auto simp: helper_wf_def)
  obtain b where b: "ser (pendingResults h) = Inr b" using assms(2) by (auto simp: total_fn_def)
  obtain x where x: "hf b = Inr x" using assms(1) by (auto simp: total_fn_def)
  obtain m' where m': "merkleTree_update hf x m = Inr m'"
    using merkleTree_update_total [OF assms(1) m(2)] by blast
  obtain m2 where "merkleTree_done hf m' = Inr m2" using merkleTree_done_total [OF assms(1)] by blast
  moreover obtain m3 where "merkleTree_done hf m = Inr m3" using merkleTree_done_total [OF assms(1)] by blast
  ultimately show ?thesis using m b x m'
    by (simp add: Done_def processPendingResults_def)
qed

text \<open>
  C11: Summarizing the results of a range query always ends with a result, and keeps the raw reads
  exactly when there are at most \<open>maxDegree\<close> of them; otherwise it returns no raw reads and a
  summary of at least one and at most \<open>maxDegree\<close> hashes.
\<close>

theorem summarize_result:
  assumes "total_fn hf" and "total_fn ser" and "2 \<le> maxDegree" and "maxDegree < 2 ^ 32 - 1"
  shows "if length reads \<le> unat maxDegree then summarize ser hf maxDegree reads = Inr (reads, None)
    else \<exists>s. summarize ser hf maxDegree reads = Inr ([], Some s) \<and> ms_MaxDegree s = maxDegree \<and>
      1 \<le> length (ms_MaxLevelHashes s) \<and> length (ms_MaxLevelHashes s) \<le> unat maxDegree"
proof -
  obtain h where h: "NewRangeQueryResultsHelper True maxDegree = Inr h" "helper_wf h" "isEmpty (the (mt h))"
      "pendingResults h = []" "h_maxDegree h = maxDegree"
    using NewHelper_wf [OF assms(3,4)] by blast
  obtain h1 where h1: "foldE (AddResult ser hf) reads h = Inr h1"
    using foldE_AddResult_total [OF assms(1,2) h(2)] by blast
  obtain p s where d: "Done ser hf h1 = Inr (p, s)"
    using Done_total [OF assms(1,2)] foldE_AddResult [OF h(2) h1] by (metis surj_pair)
  have sm: "summarize ser hf maxDegree reads = Inr (p, s)"
    using h(1) h1 d by (simp add: summarize_def)
  note pend = foldE_AddResult_pending [OF h(2) h1 h(3)]
  have wf: "helper_wf h1" "h_maxDegree h1 = maxDegree" using foldE_AddResult [OF h(2) h1] h(5) by auto
  show ?thesis
  proof (cases "length reads \<le> unat maxDegree")
    case True
    with pend h have "pendingResults h1 = reads" "isEmpty (the (mt h1))" by auto
    with Done_empty [OF wf(1)] d True sm show ?thesis by simp
  next
    case False
    with pend h have "\<not> isEmpty (the (mt h1))" by simp
    from Done_summary [OF wf(1) this d] wf(2) False sm show ?thesis
      by (auto simp: getSummery_def Suc_le_eq)
  qed
qed

definition sample_hash :: hash_func where
  "sample_hash b = Inr (CHR ''#'' # take 3 (rev b))"

definition sample_ser :: "KVRead list \<Rightarrow> bytes res" where
  "sample_ser reads = Inr (concat (map (\<lambda>r. r_Key r) reads))"

definition sample_reads :: "nat \<Rightarrow> KVRead list" where
  "sample_reads n = map (\<lambda>i. NewKVRead [char_of (97 + i)] (Some (NewHeight 1 (of_nat i)))) [0..<n]"

lemma sample_total: "total_fn sample_hash" "total_fn sample_ser"
  by (simp_all add: total_fn_def sample_hash_def sample_ser_def)

theorem summarize_result_witness:
  "(\<exists>s. summarize sample_ser sample_hash 2 (sample_reads 4) = Inr ([], Some s) \<and> ms_MaxDegree s = 2 \<and>
      1 \<le> length (ms_MaxLevelHashes s) \<and> length (ms_MaxLevelHashes s) \<le> 2) \<and>
   summarize sample_ser sample_hash 2 (sample_reads 2) = Inr (sample_reads 2, None)"
  using summarize_result [OF sample_total, of 2 "sample_reads 4"] summarize_result [OF sample_total, of 2 "sample_reads 2"]
  by (simp add: sample_reads_def)

section \<open>A summary determines its results\<close>

text \<open>
  Two trees of the same shape, whose hashes all have length \<open>L\<close>. The hash function is
  collision-free where it returns: a real hash function meets this on the finitely many inputs two
  given runs hash, with the others made errors.
\<close>

definition same_shape :: "nat \<Rightarrow> merkleTree \<Rightarrow> merkleTree \<Rightarrow> bool" where
  "same_shape L m m' \<longleftrightarrow> maxLevel m = maxLevel m' \<and> mt_maxDegree m = mt_maxDegree m' \<and>
     (\<forall>l. length (level m l) = length (level m' l) \<and>
          (\<forall>h \<in> set (level m l) \<union> set (level m' l). length h = L))"

definition same_levels :: "merkleTree \<Rightarrow> merkleTree \<Rightarrow> bool" where
  "same_levels m m' \<longleftrightarrow> (\<forall>l. level m l = level m' l)"

definition collision_free :: "nat \<Rightarrow> hash_func \<Rightarrow> bool" where
  "collision_free L hf \<longleftrightarrow> (\<forall>x h. hf x = Inr h \<longrightarrow> length h = L) \<and>
     (\<forall>x y h. hf x = Inr h \<longrightarrow> hf y = Inr h \<longrightarrow> x = y)"

lemma concat_inject:
  assumes "length xs = length ys" and "\<forall>h \<in> set xs \<union> set ys. length h = L" and "concat xs = concat ys"
  shows "xs = ys"
  using assms by (induction xs ys rule: list_induct2) auto

lemma combined_inject:
  assumes "collision_free L hf" and "computeCombinedHash xs hf = Inr h" and "computeCombinedHash ys hf = Inr h"
    and "length xs = length ys" and "\<forall>h \<in> set xs \<union> set ys. length h = L"
  shows "xs = ys"
  using assms concat_inject [OF assms(4,5)] by (simp add: collision_free_def computeCombinedHash_def)

lemma combined_length:
  "collision_free L hf \<Longrightarrow> computeCombinedHash xs hf = Inr h \<Longrightarrow> length h = L"
  by (simp add: collision_free_def computeCombinedHash_def)

lemma same_shape_isEmpty: "same_shape L m m' \<Longrightarrow> isEmpty m = isEmpty m'"
  by (metis isEmpty_def same_shape_def)

lemma same_shape_push:
  "same_shape L m m' \<Longrightarrow> length h = L \<Longrightarrow> length h' = L \<Longrightarrow> same_shape L (push l h m) (push l h' m')"
  by (auto simp: same_shape_def)

lemma same_shape_clear: "same_shape L m m' \<Longrightarrow> same_shape L (clear l m) (clear l m')"
  by (auto simp: same_shape_def)

lemma same_shape_maxLevel:
  "same_shape L m m' \<Longrightarrow> same_shape L (m\<lparr>maxLevel := n\<rparr>) (m'\<lparr>maxLevel := n\<rparr>)"
  by (auto simp: same_shape_def)

lemma same_levels_push:
  assumes "same_levels (push l h m) (push l h' m')"
  shows "same_levels m m' \<and> h = h'"
proof -
  have "level m l @ [h] = level m' l @ [h']"
    using assms unfolding same_levels_def by (metis level_push)
  moreover have "level m k = level m' k" if "k \<noteq> l" for k
    using assms that unfolding same_levels_def by (metis level_push)
  ultimately show ?thesis by (simp add: same_levels_def) metis
qed

lemma same_levels_clear:
  assumes "same_levels (clear l m) (clear l m')" and "level m l = level m' l"
  shows "same_levels m m'"
  using assms unfolding same_levels_def by (metis level_clear)

lemma same_levels_maxLevel [simp]:
  "same_levels (m\<lparr>maxLevel := n\<rparr>) m' = same_levels m m'" "same_levels m (m'\<lparr>maxLevel := n\<rparr>) = same_levels m m'"
  by (simp_all add: same_levels_def)

lemma exceeds_cong: "length xs = length ys \<Longrightarrow> exceeds xs d = exceeds ys d"
  by (simp add: exceeds_def)

lemma update_loop_binding:
  assumes "collision_free L hf"
  shows "same_shape L m m' \<Longrightarrow> update_loop hf n c m = Inr r \<Longrightarrow> update_loop hf n c m' = Inr r' \<Longrightarrow>
    same_shape L r r' \<and> (same_levels r r' \<longrightarrow> same_levels m m')"
proof (induction n arbitrary: c m m')
  case (Suc n)
  have len: "length (level m c) = length (level m' c)" "mt_maxDegree m = mt_maxDegree m'" "maxLevel m = maxLevel m'"
    and fixd: "\<forall>h \<in> set (level m c) \<union> set (level m' c). length h = L"
    using Suc.prems(1) by (auto simp: same_shape_def)
  show ?case
  proof (cases "exceeds (level m c) (mt_maxDegree m)")
    case True
    then have True': "exceeds (level m' c) (mt_maxDegree m')" using len exceeds_cong by metis
    let ?next = "\<lambda>m h. if Suc c > maxLevel m then (push (Suc c) h (clear c m))\<lparr>maxLevel := Suc c\<rparr>
      else push (Suc c) h (clear c m)"
    from True Suc.prems(2) obtain h where h: "computeCombinedHash (level m c) hf = Inr h"
      and u: "update_loop hf n (Suc c) (?next m h) = Inr r" by (auto simp: Let_def go_res)
    from True' Suc.prems(3) obtain h' where h': "computeCombinedHash (level m' c) hf = Inr h'"
      and u': "update_loop hf n (Suc c) (?next m' h') = Inr r'" by (auto simp: Let_def go_res)
    have "same_shape L (push (Suc c) h (clear c m)) (push (Suc c) h' (clear c m'))"
      using combined_length [OF assms] h h' Suc.prems(1) by (simp add: same_shape_push same_shape_clear)
    then have "same_shape L (?next m h) (?next m' h')"
      using len same_shape_maxLevel by auto
    from Suc.IH [OF this u u'] have IH: "same_shape L r r'"
      "same_levels r r' \<Longrightarrow> same_levels (push (Suc c) h (clear c m)) (push (Suc c) h' (clear c m'))"
      using len(3) by (auto split: if_splits)
    have "same_levels m m'" if "same_levels r r'"
      using same_levels_push [OF IH(2) [OF that]] combined_inject [OF assms h _ len(1) fixd] h'
      by (auto intro: same_levels_clear)
    with IH(1) show ?thesis by blast
  next
    case False
    then have "\<not> exceeds (level m' c) (mt_maxDegree m')" using len exceeds_cong by metis
    with False Suc.prems show ?thesis by simp
  qed
qed simp

lemma done_loop_binding:
  "collision_free L hf \<Longrightarrow> same_shape L m m' \<Longrightarrow> done_loop hf c m = Inr r \<Longrightarrow> done_loop hf c m' = Inr r' \<Longrightarrow>
    same_shape L r r' \<and> (same_levels r r' \<longrightarrow> same_levels m m')"
proof (induction hf c m arbitrary: m' rule: done_loop.induct)
  case (1 hf c m)
  have len: "length (level m c) = length (level m' c)" "maxLevel m = maxLevel m'"
    and fixd: "\<forall>h \<in> set (level m c) \<union> set (level m' c). length h = L"
    using "1.prems"(2) by (auto simp: same_shape_def)
  consider (stop) "\<not> c < maxLevel m" | (skip) "c < maxLevel m" "length (level m c) = 0"
    | (climb) "c < maxLevel m" "length (level m c) \<noteq> 0" by blast
  then show ?case
  proof cases
    case stop
    then have "r = m" "r' = m'"
      using "1.prems"(3,4) len by (simp_all add: done_loop.simps [of hf c m] done_loop.simps [of hf c m'])
    with "1.prems"(2) show ?thesis by simp
  next
    case skip
    then have "done_loop hf (Suc c) m = Inr r" "done_loop hf (Suc c) m' = Inr r'"
      using "1.prems"(3,4) len by (simp_all add: done_loop.simps [of hf c m] done_loop.simps [of hf c m'])
    from "1.IH"(1) [OF skip(1) refl skip(2) "1.prems"(1,2) this] show ?thesis .
  next
    case climb
    let ?h = "\<lambda>m. if length (level m c) = 1 then Inr (level m c ! 0) else computeCombinedHash (level m c) hf"
    from climb "1.prems"(3) obtain h where h: "?h m = Inr h"
      and d: "done_loop hf (Suc c) (push (Suc c) h (clear c m)) = Inr r"
      unfolding done_loop.simps [of hf c m] by (auto simp: Let_def go_res)
    from climb "1.prems"(4) len obtain h' where h': "?h m' = Inr h'"
      and d': "done_loop hf (Suc c) (push (Suc c) h' (clear c m')) = Inr r'"
      unfolding done_loop.simps [of hf c m'] by (auto simp: Let_def go_res)
    have hl: "length h = L" "length h' = L"
      using h h' len fixd climb(2) combined_length [OF "1.prems"(1)]
      by (auto split: if_splits)
    then have shape: "same_shape L (push (Suc c) h (clear c m)) (push (Suc c) h' (clear c m'))"
      using "1.prems"(2) by (simp add: same_shape_push same_shape_clear)
    have "level m c = level m' c" if "h = h'"
    proof (cases "length (level m c) = 1")
      case True
      with len obtain x y where "level m c = [x]" "level m' c = [y]"
        by (metis One_nat_def length_0_conv length_Suc_conv)
      with h h' that show ?thesis by simp
    next
      case False
      with h h' len that combined_inject [OF "1.prems"(1) _ _ len(1) fixd] show ?thesis by auto
    qed
    then have "same_levels m m'"
      if "same_levels (push (Suc c) h (clear c m)) (push (Suc c) h' (clear c m'))"
      using same_levels_push [OF that] same_levels_clear by blast
    with "1.IH"(2) [OF climb(1) refl climb(2) h "1.prems"(1) shape d d'] show ?thesis by blast
  qed
qed

lemma merkleTree_done_binding:
  assumes "collision_free L hf" and "same_shape L m m'"
    and "merkleTree_done hf m = Inr r" and "merkleTree_done hf m' = Inr r'"
    and "done_wf leafLevel m" and "done_wf leafLevel m'"
  shows "maxLevel r = maxLevel r' \<and> (same_levels r r' \<longrightarrow> same_levels m m')"
proof -
  let ?fin = "\<lambda>m1. (let finalHashes = level m1 (maxLevel m1) in
       if exceeds finalHashes (mt_maxDegree m1) then
         (let m2 = (clear (maxLevel m1) m1)\<lparr>maxLevel := Suc (maxLevel m1)\<rparr> in
          bindE (computeCombinedHash finalHashes hf) (\<lambda>combinedHash.
            Inr (m2\<lparr>tree := AList.update (maxLevel m2) [combinedHash] (tree m2)\<rparr>)))
       else Inr m1)"
  from assms(3) obtain m1 where m1: "done_loop hf leafLevel m = Inr m1" and f: "?fin m1 = Inr r"
    unfolding merkleTree_done_def go_res by blast
  from assms(4) obtain m1' where m1': "done_loop hf leafLevel m' = Inr m1'" and f': "?fin m1' = Inr r'"
    unfolding merkleTree_done_def go_res by blast
  note b = done_loop_binding [OF assms(1,2) m1 m1']
  then have len: "maxLevel m1 = maxLevel m1'" "mt_maxDegree m1 = mt_maxDegree m1'"
      "length (level m1 (maxLevel m1)) = length (level m1' (maxLevel m1'))"
    and fixd: "\<forall>h \<in> set (level m1 (maxLevel m1)) \<union> set (level m1' (maxLevel m1')). length h = L"
    by (auto simp: same_shape_def)
  show ?thesis
  proof (cases "exceeds (level m1 (maxLevel m1)) (mt_maxDegree m1)")
    case False
    moreover from this have "\<not> exceeds (level m1' (maxLevel m1')) (mt_maxDegree m1')"
      using len exceeds_cong by metis
    ultimately show ?thesis using f f' b len by (simp add: Let_def)
  next
    case True
    moreover from this have "exceeds (level m1' (maxLevel m1')) (mt_maxDegree m1')"
      using len exceeds_cong by metis
    ultimately obtain h h' where h: "computeCombinedHash (level m1 (maxLevel m1)) hf = Inr h"
        "computeCombinedHash (level m1' (maxLevel m1')) hf = Inr h'"
      and r: "r = (clear (maxLevel m1) m1)\<lparr>maxLevel := Suc (maxLevel m1),
            tree := AList.update (Suc (maxLevel m1)) [h] (tree (clear (maxLevel m1) m1))\<rparr>"
        "r' = (clear (maxLevel m1') m1')\<lparr>maxLevel := Suc (maxLevel m1'),
            tree := AList.update (Suc (maxLevel m1')) [h'] (tree (clear (maxLevel m1') m1'))\<rparr>"
      using f f' by (auto simp: Let_def go_res)
    have lev: "level r l = (if l = Suc (maxLevel m1) then [h] else level (clear (maxLevel m1) m1) l)"
      "level r' l = (if l = Suc (maxLevel m1') then [h'] else level (clear (maxLevel m1') m1') l)" for l
      by (simp_all add: r level_def)
    have top: "level m1 l = []" "level m1' l = []" if "l \<noteq> maxLevel m1" for l
      using done_loop_wf [OF assms(5) m1] done_loop_wf [OF assms(6) m1'] that len(1)
      by (cases "l < maxLevel m1"; simp add: done_wf_def)+
    have "same_levels m1 m1'" if "same_levels r r'"
    proof -
      have "level r (Suc (maxLevel m1)) = level r' (Suc (maxLevel m1))"
        using that by (simp add: same_levels_def)
      then have "h = h'" using len(1) by (simp add: lev)
      with combined_inject [OF assms(1) h(1) _ len(3) fixd] h(2) len(1) top
      show ?thesis by (metis same_levels_def)
    qed
    with b len(1) r show ?thesis by simp
  qed
qed

lemma merkleTree_update_binding:
  assumes "collision_free L hf" and "same_shape L m m'" and "length h = L" and "length h' = L"
    and "merkleTree_update hf h m = Inr r" and "merkleTree_update hf h' m' = Inr r'"
  shows "same_shape L r r' \<and> (same_levels r r' \<longrightarrow> same_levels m m' \<and> h = h')"
proof -
  have "maxLevel m = maxLevel m'" using assms(2) by (simp add: same_shape_def)
  from update_loop_binding [OF assms(1) same_shape_push [OF assms(2-4)] assms(5) [unfolded merkleTree_update_def]
      assms(6) [unfolded merkleTree_update_def, folded this]]
  show ?thesis using same_levels_push by blast
qed

definition injective_fn :: "('a \<Rightarrow> 'b res) \<Rightarrow> bool" where
  "injective_fn f \<longleftrightarrow> (\<forall>x y b. f x = Inr b \<longrightarrow> f y = Inr b \<longrightarrow> x = y)"

definition same_helper :: "nat \<Rightarrow> RangeQueryResultsHelper \<Rightarrow> RangeQueryResultsHelper \<Rightarrow> bool" where
  "same_helper L h h' \<longleftrightarrow> helper_wf h \<and> helper_wf h' \<and> h_maxDegree h = h_maxDegree h' \<and>
     length (pendingResults h) = length (pendingResults h') \<and> same_shape L (the (mt h)) (the (mt h'))"

definition equal_helper :: "RangeQueryResultsHelper \<Rightarrow> RangeQueryResultsHelper \<Rightarrow> bool" where
  "equal_helper h h' \<longleftrightarrow> pendingResults h = pendingResults h' \<and> same_levels (the (mt h)) (the (mt h'))"

lemma processPending_binding:
  assumes "collision_free L hf" and "injective_fn ser"
    and "mt h = Some m" and "mt h' = Some m'" and "same_shape L m m'"
    and "processPendingResults ser hf h = Inr k" and "processPendingResults ser hf h' = Inr k'"
  shows "same_shape L (the (mt k)) (the (mt k')) \<and>
    (same_levels (the (mt k)) (the (mt k')) \<longrightarrow> same_levels m m' \<and> pendingResults h = pendingResults h')"
proof -
  from assms(3,6) obtain b x r where b: "ser (pendingResults h) = Inr b" "hf b = Inr x"
    and r: "merkleTree_update hf x m = Inr r" "mt k = Some r"
    by (auto simp: processPendingResults_def go_res)
  from assms(4,7) obtain b' x' r' where b': "ser (pendingResults h') = Inr b'" "hf b' = Inr x'"
    and r': "merkleTree_update hf x' m' = Inr r'" "mt k' = Some r'"
    by (auto simp: processPendingResults_def go_res)
  have "length x = L" "length x' = L" using assms(1) b b' by (auto simp: collision_free_def)
  from merkleTree_update_binding [OF assms(1,5) this r(1) r'(1)]
  have "same_shape L r r'" "same_levels r r' \<longrightarrow> same_levels m m' \<and> x = x'" by auto
  moreover have "pendingResults h = pendingResults h'" if "x = x'"
    using that b b' assms(1,2) unfolding collision_free_def injective_fn_def by metis
  ultimately show ?thesis using r(2) r'(2) by simp
qed

lemma AddResult_binding:
  assumes "collision_free L hf" and "injective_fn ser" and "same_helper L h h'"
    and "AddResult ser hf r h = Inr k" and "AddResult ser hf r' h' = Inr k'"
  shows "same_helper L k k' \<and> (equal_helper k k' \<longrightarrow> equal_helper h h' \<and> r = r')"
proof -
  have wf: "helper_wf h" "helper_wf h'" and deg: "h_maxDegree h = h_maxDegree h'"
    and len: "length (pendingResults h) = length (pendingResults h')"
    and shape: "same_shape L (the (mt h)) (the (mt h'))"
    using assms(3) by (auto simp: same_helper_def)
  note w = AddResult_wf [OF wf(1) assms(4)] and w' = AddResult_wf [OF wf(2) assms(5)]
  show ?thesis
  proof (cases "length (pendingResults h) = unat (h_maxDegree h)")
    case True
    let ?h = "h\<lparr>pendingResults := pendingResults h @ [r]\<rparr>" and ?h' = "h'\<lparr>pendingResults := pendingResults h' @ [r']\<rparr>"
    have en: "hashingEnabled h" "hashingEnabled h'" using wf by (auto simp: helper_wf_def)
    have p: "processPendingResults ser hf ?h = Inr k" "processPendingResults ser hf ?h' = Inr k'"
      using assms(4,5) True len deg en helper_wf_exceeds [OF wf(1)] helper_wf_exceeds [OF wf(2)]
      by (simp_all add: AddResult_def)
    obtain m m' where m: "mt ?h = Some m" "mt ?h' = Some m'" using wf by (auto simp: helper_wf_def)
    with shape have "same_shape L m m'" by simp
    from processPending_binding [OF assms(1,2) m this p] m True len deg w w'
    show ?thesis by (auto simp: same_helper_def equal_helper_def)
  next
    case False
    with len deg have "length (pendingResults h') \<noteq> unat (h_maxDegree h')" by simp
    with False w w' shape len deg show ?thesis by (auto simp: same_helper_def equal_helper_def)
  qed
qed

lemma foldE_AddResult_binding:
  assumes "collision_free L hf" and "injective_fn ser"
  shows "length rs = length rs' \<Longrightarrow> same_helper L h h' \<Longrightarrow> foldE (AddResult ser hf) rs h = Inr k \<Longrightarrow>
    foldE (AddResult ser hf) rs' h' = Inr k' \<Longrightarrow>
    same_helper L k k' \<and> (equal_helper k k' \<longrightarrow> equal_helper h h' \<and> rs = rs')"
proof (induction rs rs' arbitrary: h h' rule: list_induct2)
  case (Cons r rs r' rs')
  from Cons.prems(2) obtain j where j: "AddResult ser hf r h = Inr j" "foldE (AddResult ser hf) rs j = Inr k"
    by (auto simp: go_res)
  from Cons.prems(3) obtain j' where j': "AddResult ser hf r' h' = Inr j'" "foldE (AddResult ser hf) rs' j' = Inr k'"
    by (auto simp: go_res)
  note a = AddResult_binding [OF assms Cons.prems(1) j(1) j'(1)]
  from a Cons.IH [OF _ j(2) j'(2)] show ?case by blast
qed simp

text \<open>The non-trivial path of \<open>Done\<close>.\<close>

lemma Done_steps:
  assumes "helper_wf h" and "\<not> isEmpty (the (mt h))" and "Done ser hf h = Inr (p, s)"
  shows "\<exists>h1 m1 m2. (if pendingResults h = [] then h1 = h else processPendingResults ser hf h = Inr h1) \<and>
    mt h1 = Some m1 \<and> merkle_wf m1 \<and> \<not> isEmpty m1 \<and> merkleTree_done hf m1 = Inr m2 \<and> s = Some (getSummery m2)"
proof -
  obtain m where m: "mt h = Some m" "merkle_wf m" "mt_maxDegree m = h_maxDegree h" "hashingEnabled h"
    using assms(1) by (auto simp: helper_wf_def)
  from assms(2,3) m obtain h1 m1 m2 where
      h1: "(if length (pendingResults h) \<noteq> 0 then processPendingResults ser hf h else Inr h) = Inr h1"
    and m1: "mt h1 = Some m1" and m2: "merkleTree_done hf m1 = Inr m2" and s: "s = Some (getSummery m2)"
    unfolding Done_def by (auto simp: go_res split: option.splits)
  have "merkle_wf m1 \<and> \<not> isEmpty m1"
  proof (cases "pendingResults h = []")
    case True
    with h1 m1 m assms(2) show ?thesis by auto
  next
    case False
    with h1 have "processPendingResults ser hf h = Inr h1" by simp
    from processPendingResults_wf [OF m(4,1,2,3) this] m1 show ?thesis by auto
  qed
  with h1 m1 m2 s show ?thesis by (intro exI [of _ h1] exI [of _ m1] exI [of _ m2]) auto
qed

lemma Done_binding_nonempty:
  assumes "collision_free L hf" and "injective_fn ser" and "same_helper L h h'"
    and "\<not> isEmpty (the (mt h))" and "\<not> isEmpty (the (mt h'))"
    and "Done ser hf h = Inr (p, s)" and "Done ser hf h' = Inr (p', s)"
  shows "equal_helper h h'"
proof -
  have wf: "helper_wf h" "helper_wf h'" and len: "length (pendingResults h) = length (pendingResults h')"
    and shape: "same_shape L (the (mt h)) (the (mt h'))"
    using assms(3) by (auto simp: same_helper_def)
  then obtain t t' where t: "mt h = Some t" "mt h' = Some t'" by (auto simp: helper_wf_def)
  from Done_steps [OF wf(1) assms(4,6)] obtain k m r where
    k: "if pendingResults h = [] then k = h else processPendingResults ser hf h = Inr k"
    and m: "mt k = Some m" "merkle_wf m" "\<not> isEmpty m" and r: "merkleTree_done hf m = Inr r" "s = Some (getSummery r)"
    by blast
  from Done_steps [OF wf(2) assms(5,7)] obtain k' m' r' where
    k': "if pendingResults h' = [] then k' = h' else processPendingResults ser hf h' = Inr k'"
    and m': "mt k' = Some m'" "merkle_wf m'" "\<not> isEmpty m'" and r': "merkleTree_done hf m' = Inr r'" "s = Some (getSummery r')"
    by blast
  have step: "same_shape L m m' \<and> (same_levels m m' \<longrightarrow> equal_helper h h')"
  proof (cases "pendingResults h = []")
    case True
    with k k' len m m' shape show ?thesis by (simp add: equal_helper_def)
  next
    case False
    moreover from this have "pendingResults h' \<noteq> []" using len by auto
    ultimately have "processPendingResults ser hf h = Inr k" "processPendingResults ser hf h' = Inr k'"
      using k k' by auto
    from processPending_binding [OF assms(1,2) t _ this] shape t m(1) m'(1) show ?thesis
      by (auto simp: equal_helper_def)
  qed
  then have b: "maxLevel r = maxLevel r'" "same_levels r r' \<Longrightarrow> same_levels m m'"
    using merkleTree_done_binding [OF assms(1) _ r(1) r'(1) done_wf_start [OF m(2,3)] done_wf_start [OF m'(2,3)]]
    by auto
  have "level r l = level r' l" for l
  proof (cases "l = maxLevel r")
    case True
    with r(2) r'(2) b(1) show ?thesis by (simp add: getSummery_def)
  next
    case False
    with merkleTree_done_spec [OF m(2,3) r(1)] merkleTree_done_spec [OF m'(2,3) r'(1)] b(1)
    show ?thesis by simp
  qed
  with step b(2) show ?thesis by (simp add: same_levels_def)
qed

lemma Done_binding:
  assumes "collision_free L hf" and "injective_fn ser" and "same_helper L h h'"
    and "Done ser hf h = Inr (p, s)" and "Done ser hf h' = Inr (p, s)"
  shows "equal_helper h h'"
proof (cases "isEmpty (the (mt h))")
  case True
  have wf: "helper_wf h" "helper_wf h'" using assms(3) by (auto simp: same_helper_def)
  then obtain m m' where m: "mt h = Some m" "merkle_wf m" "mt h' = Some m'" "merkle_wf m'"
    by (auto simp: helper_wf_def)
  have e: "isEmpty m'" using True assms(3) m same_shape_isEmpty by (auto simp: same_helper_def)
  have "level m l = [] \<and> level m' l = []" for l
    using True e m by (cases "l = 0"; cases "l = 1") (auto simp: isEmpty_def merkle_wf_def)
  moreover have "pendingResults h = pendingResults h'"
    using Done_empty [OF wf(1)] Done_empty [OF wf(2)] True e m assms(4,5) by simp
  ultimately show ?thesis using m by (simp add: equal_helper_def same_levels_def)
next
  case False
  moreover from this have "\<not> isEmpty (the (mt h'))"
    using assms(3) same_shape_isEmpty by (auto simp: same_helper_def)
  ultimately show ?thesis using Done_binding_nonempty [OF assms(1-3) _ _ assms(4,5)] by blast
qed

text \<open>
  C12: A range-query summary commits to the results: two runs of the helper over equally many
  results, with the same degree, end in the same raw reads and the same summary only if the
  results are the same. The hash function is collision-free with fixed-length output, and the
  serialization of reads injective, on what they return for.
\<close>

theorem summary_commits_to_results:
  assumes "collision_free L hf" and "injective_fn ser" and "2 \<le> maxDegree" and "maxDegree < 2 ^ 32 - 1"
    and "length reads = length reads'"
    and "summarize ser hf maxDegree reads = Inr r" and "summarize ser hf maxDegree reads' = Inr r"
  shows "reads = reads'"
proof -
  obtain h where h: "NewRangeQueryResultsHelper True maxDegree = Inr h" "helper_wf h"
    using NewHelper_wf [OF assms(3,4)] by blast
  from assms(6) h obtain k where k: "foldE (AddResult ser hf) reads h = Inr k" "Done ser hf k = Inr r"
    by (auto simp: summarize_def go_res)
  from assms(7) h obtain k' where k': "foldE (AddResult ser hf) reads' h = Inr k'" "Done ser hf k' = Inr r"
    by (auto simp: summarize_def go_res)
  have "level (the (mt h)) l = []" for l
    using h(1) by (auto simp: NewRangeQueryResultsHelper_def newMerkleTree_def level_def split: if_splits)
  then have "same_helper L h h" using h(2) by (simp add: same_helper_def same_shape_def)
  from foldE_AddResult_binding [OF assms(1,2,5) this k(1) k'(1)]
  show ?thesis using Done_binding [OF assms(1,2)] k(2) k'(2) by (cases r) blast
qed

text \<open>A hash function that knows three inputs, collision-free where it returns.\<close>

definition table_hash :: hash_func where
  "table_hash b = (case map_of [(''abc'', ''0''), (''d'', ''1'')] b of
     None \<Rightarrow> Inl (Error ''not in the table'') | Some h \<Rightarrow> Inr h)"

definition table_ser :: "KVRead list \<Rightarrow> bytes res" where
  "table_ser reads = (if reads = sample_reads 3 then Inr ''abc''
     else if reads = drop 3 (sample_reads 4) then Inr ''d'' else Inl (Error ''marshal''))"

lemma table_laws: "collision_free 1 table_hash" "injective_fn table_ser"
  by (auto simp: collision_free_def table_hash_def injective_fn_def table_ser_def split: if_splits)

lemma table_run:
  "summarize table_ser table_hash 2 (sample_reads 4) =
     Inr ([], Some \<lparr>ms_MaxDegree = 2, ms_MaxLevel = 1, ms_MaxLevelHashes = [''0'', ''1'']\<rparr>)"
  by code_simp

definition listed_reads :: "KVRead list" where
  "listed_reads = [NewKVRead ''a'' (Some (NewHeight 1 0)), NewKVRead ''b'' (Some (NewHeight 1 1)),
     NewKVRead ''c'' (Some (NewHeight 1 2)), NewKVRead ''d'' (Some (NewHeight 1 3))]"

lemma listed_run:
  "summarize table_ser table_hash 2 listed_reads =
     Inr ([], Some \<lparr>ms_MaxDegree = 2, ms_MaxLevel = 1, ms_MaxLevelHashes = [''0'', ''1'']\<rparr>)"
  by code_simp

theorem summary_commits_to_results_witness: "sample_reads 4 = listed_reads"
  by (rule summary_commits_to_results [OF table_laws _ _ _ table_run listed_run])
    (simp_all add: sample_reads_def listed_reads_def)

end
