(* ===== verification/VersionedDB.thy ===== *)
theory VersionedDB
  imports StateDB
begin

text \<open>
  The interface \<open>statedb.VersionedDB\<close> between the state databases and the transaction manager: its
  methods as a record over the state of the database, and the contract the validation and commit
  path relies on as the locale \<open>versioned_db\<close>. The leveldb state database provides it in
  \<open>StateLevelDB\<close>.
\<close>

section \<open>The methods\<close>

record 's BulkOptimizable =
  bo_LoadCommittedVersions :: "CompositeKey list \<Rightarrow> 's \<Rightarrow> 's res"
  bo_GetCachedVersion :: "'s \<Rightarrow> gostring \<Rightarrow> gostring \<Rightarrow> Height option \<times> bool"
  bo_ClearCachedVersions :: "'s \<Rightarrow> 's"

text \<open>
  A method gets the state of the database and returns it where it may change it. An iterator is the
  list of what its \<open>Next\<close> calls give. \<open>vdb_BulkOptimizable\<close> is the outcome of the type assertion to
  the optional interface.
\<close>

record 's VersionedDB =
  vdb_GetState :: "'s \<Rightarrow> gostring \<Rightarrow> gostring \<Rightarrow> VersionedValue option res"
  vdb_GetVersion :: "'s \<Rightarrow> gostring \<Rightarrow> gostring \<Rightarrow> Height option res"
  vdb_GetStateMultipleKeys :: "'s \<Rightarrow> gostring \<Rightarrow> gostring list \<Rightarrow> VersionedValue option list res"
  vdb_GetStateRangeScanIterator :: "'s \<Rightarrow> gostring \<Rightarrow> gostring \<Rightarrow> gostring \<Rightarrow> ResultsIterator res"
  vdb_GetStateRangeScanIteratorWithPagination :: "'s \<Rightarrow> gostring \<Rightarrow> gostring \<Rightarrow> gostring \<Rightarrow> int \<Rightarrow> ResultsIterator res"
  vdb_ApplyUpdates :: "UpdateBatch \<Rightarrow> Height option \<Rightarrow> 's \<Rightarrow> 's res"
  vdb_GetLatestSavePoint :: "'s \<Rightarrow> Height option res"
  vdb_ValidateKeyValue :: "gostring \<Rightarrow> gobytes \<Rightarrow> unit res"
  vdb_BytesKeySupported :: bool
  vdb_BulkOptimizable :: "'s BulkOptimizable option"

section \<open>The contract\<close>

text \<open>What a key holds once a batch is written over the old value: a deletion leaves nothing.\<close>

definition overlay :: "VersionedValue option \<Rightarrow> VersionedValue option \<Rightarrow> VersionedValue option" where
  "overlay upd old = (case upd of None \<Rightarrow> old | Some vv \<Rightarrow> if VersionedValue_IsDelete vv then None else Some vv)"

lemma overlay_simps [simp]:
  "overlay None old = old"
  "overlay (Some vv) old = (if VersionedValue_IsDelete vv then None else Some vv)"
  by (simp_all add: overlay_def)

definition batch_namespaces :: "(gostring \<Rightarrow> bool) \<Rightarrow> UpdateBatch \<Rightarrow> bool" where
  "batch_namespaces P batch = list_all (\<lambda>(ns, m). P ns) (Updates batch)"

lemma set_AList_update: "set (AList.update k v m) \<subseteq> insert (k, v) (set m)"
  by (induction m) auto

lemma batch_namespaces_Update [simp]:
  "batch_namespaces P b \<Longrightarrow> P ns \<Longrightarrow> batch_namespaces P (UpdateBatch_Update ns key vv b)"
  using set_AList_update by (fastforce simp: batch_namespaces_def UpdateBatch_Update_def list_all_iff)

lemma batch_namespaces_New [simp]: "batch_namespaces P NewUpdateBatch"
  by (simp add: batch_namespaces_def NewUpdateBatch_def)

text \<open>
  \<open>contents\<close> is what the database holds, \<open>valid_ns\<close> the namespaces it can tell apart and
  \<open>stored_as\<close> what it gives back for a value: the version is kept, an empty value is never nil and
  absent metadata stays absent.
\<close>

locale versioned_db =
  fixes V :: "'s VersionedDB"
    and contents :: "'s \<Rightarrow> gostring \<Rightarrow> gostring \<Rightarrow> VersionedValue option"
    and valid_ns :: "gostring \<Rightarrow> bool"
    and stored_as :: "VersionedValue \<Rightarrow> VersionedValue"
  assumes GetState_contents: "vdb_GetState V s ns key = Inr v \<Longrightarrow> v = contents s ns key"
    and GetVersion_contents: "vdb_GetVersion V s ns key = Inr h \<Longrightarrow> h = Option.bind (contents s ns key) vv_Version"
    and scan_sorted: "vdb_GetStateRangeScanIterator V s ns startKey endKey = Inr (map Inr kvs) \<Longrightarrow> valid_ns ns \<Longrightarrow>
      sorted_wrt (<) (map vkv_Key kvs)"
    and scan_contents: "vdb_GetStateRangeScanIterator V s ns startKey endKey = Inr (map Inr kvs) \<Longrightarrow> valid_ns ns \<Longrightarrow>
      kv \<in> set kvs \<longleftrightarrow> (\<exists>key vv. kv = mk_kv ns key vv \<and> in_range startKey endKey key \<and> contents s ns key = Some vv)"
    and ApplyUpdates_contents: "vdb_ApplyUpdates V batch height s = Inr s' \<Longrightarrow> wf_batch batch \<Longrightarrow>
      batch_namespaces valid_ns batch \<Longrightarrow> valid_ns ns \<Longrightarrow>
      contents s' ns key = overlay (map_option stored_as (UpdateBatch_Get batch ns key)) (contents s ns key)"
    and ApplyUpdates_savepoint: "vdb_ApplyUpdates V batch height s = Inr s' \<Longrightarrow> wf_batch batch \<Longrightarrow>
      batch_namespaces valid_ns batch \<Longrightarrow> vdb_GetLatestSavePoint V s = Inr sp \<Longrightarrow> vdb_GetLatestSavePoint V s' = Inr sp' \<Longrightarrow>
      sp' = (case height of None \<Rightarrow> sp | Some h \<Rightarrow> Some h)"
    and LoadCommittedVersions_contents: "vdb_BulkOptimizable V = Some bo \<Longrightarrow>
      bo_LoadCommittedVersions bo keys s = Inr s' \<Longrightarrow> contents s' = contents s"
    and ClearCachedVersions_contents: "vdb_BulkOptimizable V = Some bo \<Longrightarrow> contents (bo_ClearCachedVersions bo s) = contents s"
    and contents_not_nil: "contents s ns key = Some vv \<Longrightarrow> vv_Value vv \<noteq> None"
    and stored_version [simp]: "vv_Version (stored_as vv) = vv_Version vv"
    and stored_value: "vv_Value (stored_as vv) = None \<longleftrightarrow> vv_Value vv = None"
    and stored_content [simp]: "content (vv_Value (stored_as vv)) = content (vv_Value vv)"
    and stored_metadata: "vv_Metadata vv = None \<Longrightarrow> vv_Metadata (stored_as vv) = None"
    and stored_metadata_content [simp]: "content (vv_Metadata (stored_as vv)) = content (vv_Metadata vv)"
begin

lemma stored_IsDelete [simp]: "VersionedValue_IsDelete (stored_as vv) = VersionedValue_IsDelete vv"
  by (simp add: VersionedValue_IsDelete_def stored_value)

text \<open>Reading a key after a commit.\<close>

lemma GetState_after_ApplyUpdates:
  assumes "vdb_ApplyUpdates V batch height s = Inr s'" and "wf_batch batch"
    and "batch_namespaces valid_ns batch" and "valid_ns ns"
    and "vdb_GetState V s ns key = Inr old" and "vdb_GetState V s' ns key = Inr new"
  shows "new = overlay (map_option stored_as (UpdateBatch_Get batch ns key)) old"
  using ApplyUpdates_contents [OF assms(1-4)] GetState_contents [OF assms(5)] GetState_contents [OF assms(6)]
  by simp

text \<open>A scan is determined by what the database holds.\<close>

lemma scan_values:
  assumes "vdb_GetStateRangeScanIterator V s ns startKey endKey = Inr (map Inr kvs)" and "valid_ns ns"
    and "kv \<in> set kvs"
  shows "contents s ns (vkv_Key kv) = Some (vkv_VersionedValue kv)" "in_range startKey endKey (vkv_Key kv)"
    "kv = mk_kv ns (vkv_Key kv) (vkv_VersionedValue kv)" "vkv_Value kv \<noteq> None"
  using scan_contents [OF assms(1,2), of kv] assms(3) contents_not_nil by auto

end

end
