(* ===== verification/LevelDBHelper.thy ===== *)
theory LevelDBHelper
  imports Drunix_Prelude
begin

text \<open>
  Named databases inside one leveldb (common/ledger/util/leveldbhelper/leveldb_provider.go and
  leveldb_helper.go). goleveldb itself is a parameter: a record of its three operations over a state
  of any type, with the contract the callers rely on in the locale \<open>goleveldb\<close>. An operation
  that returns an error promises nothing. Shown: a handle on a named database is again such a store,
  handles with different names do not see each other's keys, and dropping a database removes
  exactly its own keys however the deletions are split into batches.
\<close>

section \<open>The underlying store\<close>

text \<open>
  A batch is the list of its records: \<open>Some\<close> a value for \<open>Put\<close>, \<open>None\<close> for \<open>Delete\<close>. An
  iterator is the list of the pairs it will visit; a nil bound is \<open>None\<close>. \<open>leveldb.ErrNotFound\<close>
  is the result \<open>None\<close>.
\<close>

type_synonym leveldbBatch = "(bytes \<times> gobytes) list"

record 's goleveldb_ops =
  ldb_Get :: "'s \<Rightarrow> bytes \<Rightarrow> gobytes res"
  ldb_Write :: "leveldbBatch \<Rightarrow> 's \<Rightarrow> 's res"
  ldb_NewIterator :: "'s \<Rightarrow> gobytes \<Rightarrow> gobytes \<Rightarrow> (bytes \<times> bytes) list res"

section \<open>The helper\<close>

definition constructLevelKey :: "gostring \<Rightarrow> bytes \<Rightarrow> bytes" where
  "constructLevelKey dbName key = dbName @ [CHR 0x00] @ key"

definition retrieveAppKey :: "bytes \<Rightarrow> bytes res" where
  "retrieveAppKey levelKey =
     (let split = SplitN_NUL levelKey in
      if 1 < length split then Inr (split ! 1) else Inl (Panic ''index out of range''))"

text \<open>\<open>DB.Get\<close>, \<open>DB.Put\<close>, \<open>DB.Delete\<close> and \<open>DB.WriteBatch\<close> on the whole store.\<close>

definition DB_Get :: "'s goleveldb_ops \<Rightarrow> bytes \<Rightarrow> 's \<Rightarrow> gobytes res" where
  "DB_Get L key s = ldb_Get L s key"

definition DB_Put :: "'s goleveldb_ops \<Rightarrow> bytes \<Rightarrow> bytes \<Rightarrow> 's \<Rightarrow> 's res" where
  "DB_Put L key value s = ldb_Write L [(key, Some value)] s"

definition DB_Delete :: "'s goleveldb_ops \<Rightarrow> bytes \<Rightarrow> 's \<Rightarrow> 's res" where
  "DB_Delete L key s = ldb_Write L [(key, None)] s"

definition DB_WriteBatch :: "'s goleveldb_ops \<Rightarrow> leveldbBatch \<Rightarrow> 's \<Rightarrow> 's res" where
  "DB_WriteBatch L batch s = ldb_Write L batch s"

definition DB_IsEmpty :: "'s goleveldb_ops \<Rightarrow> 's \<Rightarrow> bool res" where
  "DB_IsEmpty L s = bindE (ldb_NewIterator L s None None) (\<lambda>itr. Inr (itr = []))"

definition DBHandle_Get :: "'s goleveldb_ops \<Rightarrow> gostring \<Rightarrow> bytes \<Rightarrow> 's \<Rightarrow> gobytes res" where
  "DBHandle_Get L dbName key s = DB_Get L (constructLevelKey dbName key) s"

definition DBHandle_Put :: "'s goleveldb_ops \<Rightarrow> gostring \<Rightarrow> bytes \<Rightarrow> bytes \<Rightarrow> 's \<Rightarrow> 's res" where
  "DBHandle_Put L dbName key value s = DB_Put L (constructLevelKey dbName key) value s"

definition DBHandle_Delete :: "'s goleveldb_ops \<Rightarrow> gostring \<Rightarrow> bytes \<Rightarrow> 's \<Rightarrow> 's res" where
  "DBHandle_Delete L dbName key s = DB_Delete L (constructLevelKey dbName key) s"

text \<open>The batch of a handle (\<open>leveldbhelper.UpdateBatch\<close>).\<close>

record LevelUpdateBatch =
  lb_dbName :: gostring
  lb_leveldbBatch :: leveldbBatch
  lb_size :: nat

definition DBHandle_NewUpdateBatch :: "gostring \<Rightarrow> LevelUpdateBatch" where
  "DBHandle_NewUpdateBatch dbName = \<lparr>lb_dbName = dbName, lb_leveldbBatch = [], lb_size = 0\<rparr>"

definition LevelBatch_Put :: "bytes \<Rightarrow> gobytes \<Rightarrow> LevelUpdateBatch \<Rightarrow> LevelUpdateBatch res" where
  "LevelBatch_Put key value b =
     (case value of None \<Rightarrow> Inl (Panic ''Nil value not allowed'')
      | Some v \<Rightarrow>
          (let k = constructLevelKey (lb_dbName b) key in
           Inr (b\<lparr>lb_leveldbBatch := lb_leveldbBatch b @ [(k, Some v)],
                  lb_size := lb_size b + (length k + length v)\<rparr>)))"

definition LevelBatch_Delete :: "bytes \<Rightarrow> LevelUpdateBatch \<Rightarrow> LevelUpdateBatch" where
  "LevelBatch_Delete key b =
     (let k = constructLevelKey (lb_dbName b) key in
      b\<lparr>lb_size := lb_size b + length k, lb_leveldbBatch := lb_leveldbBatch b @ [(k, None)]\<rparr>)"

definition LevelBatch_Len :: "LevelUpdateBatch \<Rightarrow> nat" where
  "LevelBatch_Len b = length (lb_leveldbBatch b)"

definition LevelBatch_Reset :: "LevelUpdateBatch \<Rightarrow> LevelUpdateBatch" where
  "LevelBatch_Reset b = b\<lparr>lb_leveldbBatch := [], lb_size := 0\<rparr>"

definition DBHandle_WriteBatch :: "'s goleveldb_ops \<Rightarrow> LevelUpdateBatch \<Rightarrow> 's \<Rightarrow> 's res" where
  "DBHandle_WriteBatch L batch s =
     (if length (lb_leveldbBatch batch) = 0 then Inr s else DB_WriteBatch L (lb_leveldbBatch batch) s)"

text \<open>
  \<open>GetIterator\<close> gives the raw pairs, keyed by level keys; \<open>Iterator.Key\<close> strips the name.
\<close>

definition DBHandle_GetIterator ::
  "'s goleveldb_ops \<Rightarrow> gostring \<Rightarrow> gobytes \<Rightarrow> gobytes \<Rightarrow> 's \<Rightarrow> (bytes \<times> bytes) list res" where
  "DBHandle_GetIterator L dbName startKey endKey s =
     (let sKey = constructLevelKey dbName (content startKey);
          eKey = constructLevelKey dbName (content endKey);
          eKey = (if endKey = None then eKey[length eKey - 1 := CHR 0x01] else eKey)
      in ldb_NewIterator L s (Some sKey) (Some eKey))"

definition Iterator_Key :: "bytes \<times> bytes \<Rightarrow> bytes res" where
  "Iterator_Key e = retrieveAppKey (fst e)"

definition DBHandle_IsEmpty :: "'s goleveldb_ops \<Rightarrow> gostring \<Rightarrow> 's \<Rightarrow> bool res" where
  "DBHandle_IsEmpty L dbName s = bindE (DBHandle_GetIterator L dbName None None s) (\<lambda>itr. Inr (itr = []))"

definition maxBatchSize :: nat where
  "maxBatchSize = 1000000"

text \<open>The loop of \<open>deleteAll\<close>; \<open>limit\<close> is \<open>maxBatchSize\<close>.\<close>

fun deleteAll_loop ::
  "'s goleveldb_ops \<Rightarrow> nat \<Rightarrow> (bytes \<times> bytes) list \<Rightarrow> nat \<Rightarrow> leveldbBatch \<Rightarrow> 's \<Rightarrow> 's res" where
  "deleteAll_loop L limit [] batchSize batch s = (if length batch > 0 then DB_WriteBatch L batch s else Inr s)"
| "deleteAll_loop L limit ((key, v) # itr) batchSize batch s =
     (let batchSize = batchSize + length key;
          batch = batch @ [(key, None)]
      in if batchSize \<ge> limit then bindE (DB_WriteBatch L batch s) (deleteAll_loop L limit itr 0 [])
         else deleteAll_loop L limit itr batchSize batch s)"

definition deleteAll :: "'s goleveldb_ops \<Rightarrow> gostring \<Rightarrow> 's \<Rightarrow> 's res" where
  "deleteAll L dbName s =
     bindE (DBHandle_GetIterator L dbName None None s) (\<lambda>itr. deleteAll_loop L maxBatchSize itr 0 [] s)"

text \<open>
  The provider's handles only carry the name, so the model passes the name itself; \<open>Drop\<close> forgets
  the handle after the deletion.
\<close>

definition Provider_Drop :: "'s goleveldb_ops \<Rightarrow> gostring \<Rightarrow> 's \<Rightarrow> 's res" where
  "Provider_Drop L dbName s = deleteAll L dbName s"

definition internalDBName :: gostring where
  "internalDBName = ''_''"

definition formatVersionKey :: bytes where
  "formatVersionKey = ''f''"

definition openDBAndCheckFormat :: "'s goleveldb_ops \<Rightarrow> gostring \<Rightarrow> 's \<Rightarrow> 's res" where
  "openDBAndCheckFormat L ExpectedFormat s =
     bindE (DB_IsEmpty L s) (\<lambda>dbEmpty.
       if dbEmpty \<and> ExpectedFormat \<noteq> '''' then DBHandle_Put L internalDBName formatVersionKey ExpectedFormat s
       else bindE (DBHandle_Get L internalDBName formatVersionKey s) (\<lambda>formatVersion.
         if \<not> bytesEqual formatVersion (Some ExpectedFormat) then Inl (Error ''unexpected format'')
         else Inr s))"

section \<open>The contract\<close>

definition apply_batch :: "leveldbBatch \<Rightarrow> (bytes \<Rightarrow> bytes option) \<Rightarrow> bytes \<Rightarrow> bytes option" where
  "apply_batch b m = fold (\<lambda>(k, v) m. m(k := v)) b m"

definition in_bounds :: "gobytes \<Rightarrow> gobytes \<Rightarrow> bytes \<Rightarrow> bool" where
  "in_bounds start limit k = (content start \<le> k \<and> (case limit of None \<Rightarrow> True | Some l \<Rightarrow> k < l))"

locale goleveldb =
  fixes L :: "'s goleveldb_ops" and contents :: "'s \<Rightarrow> bytes \<Rightarrow> bytes option"
  assumes get_contents: "ldb_Get L s k = Inr v \<Longrightarrow> v = contents s k"
    and write_contents: "ldb_Write L b s = Inr s' \<Longrightarrow> contents s' = apply_batch b (contents s)"
    and iterator_contents: "ldb_NewIterator L s start limit = Inr kvs \<Longrightarrow>
      sorted_wrt (<) (map fst kvs) \<and>
      (\<forall>k v. (k, v) \<in> set kvs \<longleftrightarrow> in_bounds start limit k \<and> contents s k = Some v)"

text \<open>A store in memory meets the contract; witnesses run on it.\<close>

definition mem_ops :: "(bytes, bytes) gomap goleveldb_ops" where
  "mem_ops =
     \<lparr>ldb_Get = (\<lambda>s k. Inr (map_of s k)),
      ldb_Write = (\<lambda>b s. Inr (fold (\<lambda>(k, v) s. case v of None \<Rightarrow> AList.delete k s | Some x \<Rightarrow> AList.update k x s) b s)),
      ldb_NewIterator = (\<lambda>s start limit.
        Inr (map (\<lambda>k. (k, the (map_of s k))) (filter (in_bounds start limit) (sort (remdups (map fst s))))))\<rparr>"

lemma mem_write:
  "map_of (fold (\<lambda>(k, v) s. case v of None \<Rightarrow> AList.delete k s | Some x \<Rightarrow> AList.update k x s) b s) =
   apply_batch b (map_of s)"
  unfolding apply_batch_def
  by (induction b arbitrary: s) (auto split: option.splits)

interpretation mem: goleveldb mem_ops map_of
proof
  fix s :: "(bytes, bytes) gomap" and start limit kvs
  let ?ks = "filter (in_bounds start limit) (sort (remdups (map fst s)))"
  assume "ldb_NewIterator mem_ops s start limit = Inr kvs"
  then have kvs: "kvs = map (\<lambda>k. (k, the (map_of s k))) ?ks"
    by (simp add: mem_ops_def)
  have "sorted ?ks" "distinct ?ks"
    by (auto intro: sorted_filter simp: sorted_wrt_filter)
  then have "sorted_wrt (<) (map fst kvs)"
    by (simp add: kvs comp_def strict_sorted_iff)
  moreover have "(k, v) \<in> set kvs \<longleftrightarrow> in_bounds start limit k \<and> map_of s k = Some v" for k v
    using map_of_eq_None_iff [of s k] by (auto simp: kvs image_iff)
  ultimately show "sorted_wrt (<) (map fst kvs) \<and>
      (\<forall>k v. (k, v) \<in> set kvs \<longleftrightarrow> in_bounds start limit k \<and> map_of s k = Some v)" by blast
qed (auto simp: mem_ops_def mem_write)

text \<open>A named database, as the callers of a handle see it, is a store of its own.\<close>

definition handle_ops :: "'s goleveldb_ops \<Rightarrow> gostring \<Rightarrow> 's goleveldb_ops" where
  "handle_ops L dbName =
     \<lparr>ldb_Get = (\<lambda>s k. DBHandle_Get L dbName k s),
      ldb_Write = (\<lambda>b s. DBHandle_WriteBatch L
        \<lparr>lb_dbName = dbName, lb_leveldbBatch = map (\<lambda>(k, v). (constructLevelKey dbName k, v)) b, lb_size = 0\<rparr> s),
      ldb_NewIterator = (\<lambda>s start limit.
        bindE (DBHandle_GetIterator L dbName start limit s)
          (mapE (\<lambda>e. bindE (Iterator_Key e) (\<lambda>k. Inr (k, snd e)))))\<rparr>"

lemma constructLevelKey_inject [simp]: "constructLevelKey n k = constructLevelKey n k' \<longleftrightarrow> k = k'"
  by (simp add: constructLevelKey_def)

lemma retrieveAppKey_construct: "no_NUL n \<Longrightarrow> retrieveAppKey (constructLevelKey n k) = Inr k"
  by (simp add: retrieveAppKey_def constructLevelKey_def SplitN_NUL_append Let_def)

lemma constructLevelKey_distinct:
  assumes "no_NUL n" and "no_NUL n'" and "n \<noteq> n'"
  shows "constructLevelKey n k \<noteq> constructLevelKey n' k'"
proof
  assume "constructLevelKey n k = constructLevelKey n' k'"
  then have "SplitN_NUL (n @ CHR 0x00 # k) = SplitN_NUL (n' @ CHR 0x00 # k')"
    by (simp add: constructLevelKey_def)
  with assms show False by (simp add: SplitN_NUL_append)
qed

lemma apply_batch_construct:
  "apply_batch (map (\<lambda>(k, v). (constructLevelKey n k, v)) b) m (constructLevelKey n k) =
   apply_batch b (\<lambda>k. m (constructLevelKey n k)) k"
proof (induction b arbitrary: m)
  case (Cons e b)
  obtain k0 v where e: "e = (k0, v)" by fastforce
  have "(\<lambda>k. (m(constructLevelKey n k0 := v)) (constructLevelKey n k)) = (\<lambda>k. m (constructLevelKey n k))(k0 := v)"
    by auto
  with Cons [of "m(constructLevelKey n k0 := v)"] e show ?case
    by (simp add: apply_batch_def fun_upd_def)
qed (simp add: apply_batch_def)

lemma apply_batch_other: "k \<notin> fst ` set b \<Longrightarrow> apply_batch b m k = m k"
  unfolding apply_batch_def by (induction b arbitrary: m) auto

text \<open>The level keys between the bounds of a handle's iterator.\<close>

definition end_key :: "gostring \<Rightarrow> gobytes \<Rightarrow> bytes" where
  "end_key n limit = (case limit of None \<Rightarrow> n @ [CHR 0x01] | Some e \<Rightarrow> constructLevelKey n e)"

lemma GetIterator_bounds:
  "DBHandle_GetIterator L n start limit s =
     ldb_NewIterator L s (Some (constructLevelKey n (content start))) (Some (end_key n limit))"
  by (cases limit) (simp_all add: DBHandle_GetIterator_def end_key_def constructLevelKey_def Let_def)

lemma level_bounds:
  "in_bounds (Some (constructLevelKey n (content start))) (Some (end_key n limit)) lk \<longleftrightarrow>
     (\<exists>k. lk = constructLevelKey n k \<and> in_bounds start limit k)"
proof
  assume b: "in_bounds (Some (constructLevelKey n (content start))) (Some (end_key n limit)) lk"
  then have lo: "constructLevelKey n (content start) \<le> lk" and hi: "lk < end_key n limit"
    by (auto simp: in_bounds_def)
  have "\<exists>k'. lk = n @ k'"
    using between_prefix [of n "CHR 0x00 # content start" lk "case limit of None \<Rightarrow> [CHR 0x01] | Some e \<Rightarrow> CHR 0x00 # e"]
      lo hi by (simp add: constructLevelKey_def end_key_def split: option.splits)
  then obtain k' where k': "lk = n @ k'" by blast
  have "\<exists>k. k' = CHR 0x00 # k"
  proof (cases k')
    case Nil
    then show ?thesis using lo k' append_le_append [of n "CHR 0x00 # content start" "[]"]
      by (simp add: constructLevelKey_def)
  next
    case (Cons c k)
    have "c < CHR 0x01 \<or> c = CHR 0x00"
      using hi k' Cons by (auto simp: end_key_def constructLevelKey_def below_one split: option.splits)
    then show ?thesis using Cons by (auto simp: below_one)
  qed
  then obtain k where "lk = constructLevelKey n k" using k' by (auto simp: constructLevelKey_def)
  moreover from this have "in_bounds start limit k"
    using lo hi by (auto simp: in_bounds_def constructLevelKey_def end_key_def split: option.splits)
  ultimately show "\<exists>k. lk = constructLevelKey n k \<and> in_bounds start limit k" by blast
next
  assume "\<exists>k. lk = constructLevelKey n k \<and> in_bounds start limit k"
  then show "in_bounds (Some (constructLevelKey n (content start))) (Some (end_key n limit)) lk"
    by (auto simp: in_bounds_def constructLevelKey_def end_key_def below_one split: option.splits)
qed

locale named_db = goleveldb +
  fixes dbName :: gostring
  assumes name_ok: "no_NUL dbName"

sublocale named_db \<subseteq> handle: goleveldb "handle_ops L dbName" "\<lambda>s k. contents s (constructLevelKey dbName k)"
proof
  fix s k v
  assume "ldb_Get (handle_ops L dbName) s k = Inr v"
  then show "v = contents s (constructLevelKey dbName k)"
    using get_contents by (simp add: handle_ops_def DBHandle_Get_def DB_Get_def)
next
  fix b s s'
  assume w: "ldb_Write (handle_ops L dbName) b s = Inr s'"
  show "(\<lambda>k. contents s' (constructLevelKey dbName k)) =
      apply_batch b (\<lambda>k. contents s (constructLevelKey dbName k))"
  proof (cases "b = []")
    case False
    with w have "contents s' = apply_batch (map (\<lambda>(k, v). (constructLevelKey dbName k, v)) b) (contents s)"
      using write_contents by (simp add: handle_ops_def DBHandle_WriteBatch_def DB_WriteBatch_def)
    then show ?thesis by (simp add: fun_eq_iff apply_batch_construct)
  qed (use w in \<open>simp add: handle_ops_def DBHandle_WriteBatch_def apply_batch_def\<close>)
next
  fix s start limit kvs
  assume "ldb_NewIterator (handle_ops L dbName) s start limit = Inr kvs"
  then obtain lkvs where l: "ldb_NewIterator L s (Some (constructLevelKey dbName (content start))) (Some (end_key dbName limit)) = Inr lkvs"
    and m: "mapE (\<lambda>e. bindE (Iterator_Key e) (\<lambda>k. Inr (k, snd e))) lkvs = Inr kvs"
    by (auto simp: handle_ops_def GetIterator_bounds go_res)
  note it = iterator_contents [OF l]
  have strip: "e = (constructLevelKey dbName (fst e'), snd e')"
    if "e \<in> set lkvs" and k: "bindE (Iterator_Key e) (\<lambda>k. Inr (k, snd e)) = Inr e'" for e e'
  proof -
    have "in_bounds (Some (constructLevelKey dbName (content start))) (Some (end_key dbName limit)) (fst e)"
      using it that(1) by (metis prod.collapse)
    then obtain k where "fst e = constructLevelKey dbName k"
      unfolding level_bounds by blast
    moreover from this have "e' = (k, snd e)"
      using k by (simp add: Iterator_Key_def retrieveAppKey_construct [OF name_ok])
    ultimately show ?thesis by (simp add: prod_eq_iff)
  qed
  have "list_all2 (\<lambda>e e'. e = (constructLevelKey dbName (fst e'), snd e')) lkvs kvs"
    by (rule list.rel_mono_strong [OF m [unfolded mapE_Inr_iff]]) (rule strip)
  then have eq: "lkvs = map (\<lambda>e'. (constructLevelKey dbName (fst e'), snd e')) kvs"
    by (simp add: list_all2_conv_all_nth list_eq_iff_nth_eq)
  have "sorted_wrt (<) (map fst kvs)"
    using it unfolding eq by (simp add: sorted_wrt_map constructLevelKey_def)
  moreover have "(k, v) \<in> set kvs \<longleftrightarrow> in_bounds start limit k \<and> contents s (constructLevelKey dbName k) = Some v" for k v
  proof -
    have "(k, v) \<in> set kvs \<longleftrightarrow> (constructLevelKey dbName k, v) \<in> set lkvs"
      unfolding eq by (force simp: image_iff)
    then show ?thesis
      using it level_bounds [of dbName start limit "constructLevelKey dbName k"] by auto
  qed
  ultimately show "sorted_wrt (<) (map fst kvs) \<and> (\<forall>k v. (k, v) \<in> set kvs \<longleftrightarrow>
      in_bounds start limit k \<and> contents s (constructLevelKey dbName k) = Some v)" by blast
qed

section \<open>Dropping a database\<close>

lemma apply_batch_append: "apply_batch (b @ b') m = apply_batch b' (apply_batch b m)"
  by (simp add: apply_batch_def)

lemma apply_batch_deletes:
  "apply_batch (map (\<lambda>(k, v). (k, None)) kvs) m k = (if k \<in> fst ` set kvs then None else m k)"
  unfolding apply_batch_def by (induction kvs arbitrary: m) auto

context goleveldb
begin

lemma deleteAll_loop_contents:
  "deleteAll_loop L limit itr n b s = Inr s' \<Longrightarrow>
   contents s' = apply_batch (b @ map (\<lambda>(k, v). (k, None)) itr) (contents s)"
proof (induction itr arbitrary: n b s)
  case Nil
  then show ?case
    by (cases "b = []") (simp_all add: DB_WriteBatch_def apply_batch_def write_contents)
next
  case (Cons e itr)
  obtain key v where e: "e = (key, v)" by fastforce
  show ?case
  proof (cases "n + length key \<ge> limit")
    case True
    with Cons.prems e obtain s1 where "ldb_Write L (b @ [(key, None)]) s = Inr s1"
      and d: "deleteAll_loop L limit itr 0 [] s1 = Inr s'"
      by (auto simp: Let_def go_res DB_WriteBatch_def)
    then have "contents s' = apply_batch (map (\<lambda>(k, v). (k, None)) itr) (apply_batch (b @ [(key, None)]) (contents s))"
      using Cons.IH [OF d] write_contents by simp
    then show ?thesis
      using apply_batch_append [of "b @ [(key, None)]" "map (\<lambda>(k, v). (k, None)) itr" "contents s"] e by simp
  next
    case False
    with Cons.prems e have "deleteAll_loop L limit itr (n + length key) (b @ [(key, None)]) s = Inr s'"
      by (simp add: Let_def)
    from Cons.IH [OF this] e show ?thesis by simp
  qed
qed

lemma deleteAll_contents:
  assumes "deleteAll L n s = Inr s'"
  shows "contents s' k = (if \<exists>k'. k = constructLevelKey n k' then None else contents s k)"
proof -
  from assms obtain itr where itr: "ldb_NewIterator L s (Some (constructLevelKey n [])) (Some (end_key n None)) = Inr itr"
    and d: "deleteAll_loop L maxBatchSize itr 0 [] s = Inr s'"
    by (auto simp: deleteAll_def GetIterator_bounds go_res)
  have "(k, v) \<in> set itr \<longleftrightarrow> (\<exists>k'. k = constructLevelKey n k') \<and> contents s k = Some v" for v
    using iterator_contents [OF itr] level_bounds [of n None None k] by (auto simp: in_bounds_def)
  moreover have "k \<in> fst ` set itr \<longleftrightarrow> (\<exists>v. (k, v) \<in> set itr)" by force
  ultimately have "k \<in> fst ` set itr \<longleftrightarrow> (\<exists>k'. k = constructLevelKey n k') \<and> contents s k \<noteq> None"
    by simp
  moreover have "contents s' k = (if k \<in> fst ` set itr then None else contents s k)"
    using deleteAll_loop_contents [OF d] by (simp add: apply_batch_deletes)
  ultimately show ?thesis by (metis option.exhaust)
qed

end

lemma apply_batch_same_key: "m k = m' k \<Longrightarrow> apply_batch b m k = apply_batch b m' k"
proof (induction b arbitrary: m m')
  case (Cons e b)
  obtain k0 v where e: "e = (k0, v)" by fastforce
  have "apply_batch b (m(k0 := v)) k = apply_batch b (m'(k0 := v)) k"
    using Cons.prems by (intro Cons.IH) simp
  then show ?case by (simp add: apply_batch_def e)
qed (simp add: apply_batch_def)

text \<open>A batch of distinct keys writes what it says of each.\<close>

lemma apply_batch_lookup:
  assumes "distinct (map fst b)"
  shows "apply_batch b m k = (case map_of b k of None \<Rightarrow> m k | Some v \<Rightarrow> v)"
  using assms
proof (induction b arbitrary: m)
  case (Cons e b)
  obtain k0 v where e: "e = (k0, v)" by fastforce
  have "map_of b k0 = None" using Cons.prems e by (simp add: map_of_eq_None_iff)
  moreover have "apply_batch (e # b) m k = apply_batch b (m(k0 := v)) k" by (simp add: apply_batch_def e)
  moreover have "apply_batch b (m(k0 := v)) k = (case map_of b k of None \<Rightarrow> (m(k0 := v)) k | Some v \<Rightarrow> v)"
    using Cons.prems by (intro Cons.IH) simp
  ultimately show ?case by (cases "k = k0") (simp_all add: e split: option.splits)
qed (simp add: apply_batch_def)

context named_db
begin

lemma handle_write:
  assumes "ldb_Write (handle_ops L dbName) b s = Inr s'"
  shows "contents s' (constructLevelKey dbName k) = apply_batch b (\<lambda>k. contents s (constructLevelKey dbName k)) k"
  using handle.write_contents [OF assms] by metis

lemma handle_write_other:
  assumes "ldb_Write (handle_ops L dbName) b s = Inr s'" and "no_NUL n'" and "n' \<noteq> dbName"
  shows "contents s' (constructLevelKey n' k) = contents s (constructLevelKey n' k)"
proof (cases "b = []")
  case False
  with assms(1) have "contents s' = apply_batch (map (\<lambda>(k, v). (constructLevelKey dbName k, v)) b) (contents s)"
    using write_contents by (simp add: handle_ops_def DBHandle_WriteBatch_def DB_WriteBatch_def)
  moreover have "constructLevelKey n' k \<notin> fst ` set (map (\<lambda>(k, v). (constructLevelKey dbName k, v)) b)"
    using constructLevelKey_distinct [OF assms(2) name_ok assms(3)] by auto
  ultimately show ?thesis by (simp add: apply_batch_other)
qed (use assms(1) in \<open>simp add: handle_ops_def DBHandle_WriteBatch_def\<close>)

end

section \<open>Properties\<close>



text \<open>
  C14: Dropping a named database removes every key of that name and no other, wherever the deletions
  are cut into batches.
\<close>

theorem drop_removes_exactly_the_database:
  assumes "goleveldb L contents" and "no_NUL n" and "no_NUL n'"
    and "Provider_Drop L n s = Inr s'"
    and "DBHandle_Get L n' k s = Inr old" and "DBHandle_Get L n' k s' = Inr new"
  shows "new = (if n' = n then None else old)"
proof -
  have "old = contents s (constructLevelKey n' k)" and "new = contents s' (constructLevelKey n' k)"
    using assms(5,6) goleveldb.get_contents [OF assms(1)] by (auto simp: DBHandle_Get_def DB_Get_def)
  with goleveldb.deleteAll_contents [OF assms(1), of n s s' "constructLevelKey n' k"] assms(2-4)
    constructLevelKey_distinct [OF assms(3,2)]
  show ?thesis by (auto simp: Provider_Drop_def)
qed

definition sample_store :: "(bytes, bytes) gomap" where
  "sample_store = [(''ch1'' @ [CHR 0x00] @ ''k'', ''x''), (''ch2'' @ [CHR 0x00] @ ''k'', ''y'')]"

theorem drop_removes_exactly_the_database_witness:
  "map_sum id (\<lambda>s. DBHandle_Get mem_ops ''ch2'' ''k'' s) (Provider_Drop mem_ops ''ch1'' sample_store) =
   Inr (Inr (Some ''y''))"
proof -
  have "Provider_Drop mem_ops ''ch1'' sample_store = Inr (tl sample_store)"
    by (simp add: Provider_Drop_def deleteAll_def GetIterator_bounds end_key_def constructLevelKey_def mem_ops_def
        sample_store_def in_bounds_def maxBatchSize_def DB_WriteBatch_def Let_def)
  moreover have "DBHandle_Get mem_ops ''ch2'' ''k'' sample_store = Inr (Some ''y'')" by code_simp
  moreover obtain new where "DBHandle_Get mem_ops ''ch2'' ''k'' (tl sample_store) = Inr new"
    by (simp add: DBHandle_Get_def DB_Get_def mem_ops_def)
  moreover have "no_NUL ''ch1''" "no_NUL ''ch2''" by (simp_all add: no_NUL_def)
  ultimately show ?thesis
    using drop_removes_exactly_the_database [OF mem.goleveldb_axioms, of "''ch1''" "''ch2''" sample_store "tl sample_store" "''k''"]
    by simp
qed



end
