(* ===== verification/StateLevelDB.thy ===== *)
theory StateLevelDB
  imports VersionedDB LevelDBHelper
begin

text \<open>
  The leveldb state database (core/ledger/kvledger/txmgmt/statedb/stateleveldb): the data-key and
  value encodings, reads, range scans, the full scan a snapshot is made with, and the commit of a
  batch with its savepoint. The state is that of the underlying leveldb, which is a parameter as in
  LevelDBHelper; the marshalling of stored values is one too. Shown: a commit refines the update of
  a map from namespaces and keys to versioned values, a range scan visits exactly the live keys of
  its range in order, and the savepoint read back is the one committed last.
\<close>

section \<open>Keys and values\<close>

definition dataKeyPrefix :: bytes where
  "dataKeyPrefix = ''d''"

definition dataKeyStopper :: bytes where
  "dataKeyStopper = ''e''"

definition nsKeySep :: bytes where
  "nsKeySep = [CHR 0x00]"

definition lastKeyIndicator :: char where
  "lastKeyIndicator = CHR 0x01"

definition savePointKey :: bytes where
  "savePointKey = ''s''"

definition encodeDataKey :: "gostring \<Rightarrow> gostring \<Rightarrow> bytes" where
  "encodeDataKey ns key = dataKeyPrefix @ ns @ nsKeySep @ key"

definition decodeDataKey :: "bytes \<Rightarrow> (gostring \<times> gostring) res" where
  "decodeDataKey encodedDataKey =
     (let split = SplitN_NUL encodedDataKey in
      if split ! 0 = [] \<or> length split < 2 then Inl (Panic ''index out of range'')
      else Inr (tl (split ! 0), split ! 1))"

definition dataKeyStarterForNextNamespace :: "gostring \<Rightarrow> bytes" where
  "dataKeyStarterForNextNamespace ns = dataKeyPrefix @ ns @ [lastKeyIndicator]"

record DBValue =
  dv_Version :: bytes
  dv_Value :: gobytes
  dv_Metadata :: gobytes

record DBMVCC =
  dm_Version :: bytes
  dm_IsDelete :: bool

record VersionMVCC =
  mvcc_Version :: "Height option"
  Is_Delete :: bool

text \<open>\<open>proto.Marshal\<close> and \<open>proto.Unmarshal\<close> on the two stored messages.\<close>

record dbvalue_codec =
  Marshal_DBValue :: "DBValue \<Rightarrow> bytes res"
  Unmarshal_DBValue :: "bytes \<Rightarrow> DBValue res"
  Marshal_DBMVCC :: "DBMVCC \<Rightarrow> bytes res"
  Unmarshal_DBMVCC :: "bytes \<Rightarrow> DBMVCC res"

text \<open>Calling \<open>ToBytes\<close> on a nil height dereferences nil.\<close>

definition heightBytes :: "Height option \<Rightarrow> bytes res" where
  "heightBytes h = (case h of None \<Rightarrow> Inl (Panic ''nil pointer dereference'') | Some h \<Rightarrow> ToBytes h)"

definition encodeValue :: "dbvalue_codec \<Rightarrow> VersionedValue \<Rightarrow> bytes res" where
  "encodeValue c v =
     bindE (heightBytes (vv_Version v)) (\<lambda>ver.
       Marshal_DBValue c \<lparr>dv_Version = ver, dv_Value = vv_Value v, dv_Metadata = vv_Metadata v\<rparr>)"

definition encodeValueMVCC :: "dbvalue_codec \<Rightarrow> VersionMVCC \<Rightarrow> bytes res" where
  "encodeValueMVCC c v =
     bindE (heightBytes (mvcc_Version v)) (\<lambda>ver.
       Marshal_DBMVCC c \<lparr>dm_Version = ver, dm_IsDelete = Is_Delete v\<rparr>)"

definition decodeValue :: "dbvalue_codec \<Rightarrow> bytes \<Rightarrow> VersionedValue res" where
  "decodeValue c encodedValue =
     bindE (Unmarshal_DBValue c encodedValue) (\<lambda>dbValue.
     bindE (NewHeightFromBytes (dv_Version dbValue)) (\<lambda>(ver, _).
       let val = (case dv_Value dbValue of None \<Rightarrow> Some [] | Some v \<Rightarrow> Some v) in
       Inr \<lparr>vv_Value = val, vv_Metadata = dv_Metadata dbValue, vv_Version = Some ver\<rparr>))"

definition decodeValueMVCC :: "dbvalue_codec \<Rightarrow> bytes \<Rightarrow> VersionMVCC res" where
  "decodeValueMVCC c encodedValue =
     bindE (Unmarshal_DBMVCC c encodedValue) (\<lambda>dbValue.
     bindE (NewHeightFromBytes (dm_Version dbValue)) (\<lambda>(ver, _).
       Inr \<lparr>mvcc_Version = Some ver, Is_Delete = dm_IsDelete dbValue\<rparr>))"

section \<open>Reads\<close>

text \<open>
  A database is the underlying store's operations \<open>L\<close>, the name of the database and the store's
  state \<open>s\<close>.
\<close>

definition GetState ::
  "dbvalue_codec \<Rightarrow> 's goleveldb_ops \<Rightarrow> gostring \<Rightarrow> gostring \<Rightarrow> gostring \<Rightarrow> 's \<Rightarrow> VersionedValue option res" where
  "GetState c L dbName ns key s =
     bindE (DBHandle_Get L dbName (encodeDataKey ns key) s) (\<lambda>dbVal.
       case dbVal of None \<Rightarrow> Inr None | Some b \<Rightarrow> bindE (decodeValue c b) (\<lambda>vv. Inr (Some vv)))"

definition GetVersion ::
  "dbvalue_codec \<Rightarrow> 's goleveldb_ops \<Rightarrow> gostring \<Rightarrow> gostring \<Rightarrow> gostring \<Rightarrow> 's \<Rightarrow> Height option res" where
  "GetVersion c L dbName ns key s =
     bindE (GetState c L dbName ns key s) (\<lambda>versionedValue.
       case versionedValue of None \<Rightarrow> Inr None | Some vv \<Rightarrow> Inr (vv_Version vv))"

definition GetStateMultipleKeys ::
  "dbvalue_codec \<Rightarrow> 's goleveldb_ops \<Rightarrow> gostring \<Rightarrow> gostring \<Rightarrow> gostring list \<Rightarrow> 's \<Rightarrow> VersionedValue option list res" where
  "GetStateMultipleKeys c L dbName ns keys s = mapE (\<lambda>key. GetState c L dbName ns key s) keys"

definition GetMVCCState ::
  "dbvalue_codec \<Rightarrow> 's goleveldb_ops \<Rightarrow> gostring \<Rightarrow> gostring \<Rightarrow> gostring \<Rightarrow> 's \<Rightarrow> VersionMVCC option res" where
  "GetMVCCState c L dbName ns key s =
     bindE (DBHandle_Get L dbName (encodeDataKey ns key) s) (\<lambda>dbVal.
       case dbVal of None \<Rightarrow> Inr None | Some b \<Rightarrow> bindE (decodeValueMVCC c b) (\<lambda>v. Inr (Some v)))"

definition GetKeyVersion ::
  "dbvalue_codec \<Rightarrow> 's goleveldb_ops \<Rightarrow> gostring \<Rightarrow> gostring \<Rightarrow> gostring \<Rightarrow> 's \<Rightarrow> Height option res" where
  "GetKeyVersion c L dbName ns key s =
     bindE (GetMVCCState c L dbName ns key s) (\<lambda>versionedValue.
       case versionedValue of None \<Rightarrow> Inl (Error ''key not found in db'') | Some v \<Rightarrow> Inr (mvcc_Version v))"

record kvScanner =
  ks_namespace :: gostring
  ks_dbItr :: "(bytes \<times> bytes) list"
  requestedLimit :: int
  totalRecordsReturned :: int

definition newKVScanner :: "gostring \<Rightarrow> (bytes \<times> bytes) list \<Rightarrow> int \<Rightarrow> kvScanner" where
  "newKVScanner ns dbItr limit =
     \<lparr>ks_namespace = ns, ks_dbItr = dbItr, requestedLimit = limit, totalRecordsReturned = 0\<rparr>"

definition GetStateRangeScanIteratorWithPagination ::
  "'s goleveldb_ops \<Rightarrow> gostring \<Rightarrow> gostring \<Rightarrow> gostring \<Rightarrow> gostring \<Rightarrow> int \<Rightarrow> 's \<Rightarrow> kvScanner res" where
  "GetStateRangeScanIteratorWithPagination L dbName ns startKey endKey pageSize s =
     (let dataStartKey = encodeDataKey ns startKey;
          dataEndKey = encodeDataKey ns endKey;
          dataEndKey = (if endKey = '''' then dataEndKey[length dataEndKey - 1 := lastKeyIndicator] else dataEndKey)
      in bindE (DBHandle_GetIterator L dbName (Some dataStartKey) (Some dataEndKey) s) (\<lambda>dbItr.
           Inr (newKVScanner ns dbItr pageSize)))"

definition GetStateRangeScanIterator ::
  "'s goleveldb_ops \<Rightarrow> gostring \<Rightarrow> gostring \<Rightarrow> gostring \<Rightarrow> gostring \<Rightarrow> 's \<Rightarrow> kvScanner res" where
  "GetStateRangeScanIterator L dbName ns startKey endKey s =
     GetStateRangeScanIteratorWithPagination L dbName ns startKey endKey 0 s"

definition kvScanner_Next :: "dbvalue_codec \<Rightarrow> kvScanner \<Rightarrow> VersionedKV option res \<times> kvScanner" where
  "kvScanner_Next c scanner =
     (if requestedLimit scanner > 0 \<and> totalRecordsReturned scanner \<ge> requestedLimit scanner then (Inr None, scanner)
      else case ks_dbItr scanner of
        [] \<Rightarrow> (Inr None, scanner)
      | e # itr \<Rightarrow>
          (let scanner1 = scanner\<lparr>ks_dbItr := itr\<rparr> in
           case bindE (bindE (Iterator_Key e) decodeDataKey) (\<lambda>(_, key).
                bindE (decodeValue c (snd e)) (\<lambda>vv. Inr (key, vv))) of
             Inl err \<Rightarrow> (Inl err, scanner1)
           | Inr (key, vv) \<Rightarrow>
               (Inr (Some \<lparr>vkv_CompositeKey = \<lparr>ck_Namespace = ks_namespace scanner, ck_Key = key\<rparr>,
                           vkv_VersionedValue = vv\<rparr>),
                scanner1\<lparr>totalRecordsReturned := totalRecordsReturned scanner + 1\<rparr>)))"

definition kvScanner_GetBookmarkAndClose :: "kvScanner \<Rightarrow> gostring res" where
  "kvScanner_GetBookmarkAndClose scanner =
     (case ks_dbItr scanner of [] \<Rightarrow> Inr ''''
      | e # itr \<Rightarrow> bindE (bindE (Iterator_Key e) decodeDataKey) (\<lambda>(_, key). Inr key))"

section \<open>Commits\<close>

definition applyUpdate ::
  "dbvalue_codec \<Rightarrow> gostring \<Rightarrow> gostring \<times> VersionedValue \<Rightarrow> LevelUpdateBatch \<Rightarrow> LevelUpdateBatch res" where
  "applyUpdate c ns = (\<lambda>(k, vv) dbBatch.
     let dataKey = encodeDataKey ns k in
     if vv_Value vv = None then Inr (LevelBatch_Delete dataKey dbBatch)
     else bindE (encodeValue c vv) (\<lambda>encodedVal. LevelBatch_Put dataKey (Some encodedVal) dbBatch))"

definition ApplyUpdates ::
  "dbvalue_codec \<Rightarrow> 's goleveldb_ops \<Rightarrow> gostring \<Rightarrow> UpdateBatch \<Rightarrow> Height option \<Rightarrow> 's \<Rightarrow> 's res" where
  "ApplyUpdates c L dbName batch height s =
     bindE (foldE (\<lambda>ns. foldE (applyUpdate c ns) (GetUpdates batch ns)) (GetUpdatedNamespaces batch)
              (DBHandle_NewUpdateBatch dbName)) (\<lambda>dbBatch.
     bindE (case height of None \<Rightarrow> Inr dbBatch
            | Some h \<Rightarrow> bindE (ToBytes h) (\<lambda>b. LevelBatch_Put savePointKey (Some b) dbBatch)) (\<lambda>dbBatch1.
       DBHandle_WriteBatch L dbBatch1 s))"

definition ApplyOrdererUpdates ::
  "dbvalue_codec \<Rightarrow> 's goleveldb_ops \<Rightarrow> gostring \<Rightarrow> (gostring, VersionMVCC) gomap \<Rightarrow> 's \<Rightarrow> 's res" where
  "ApplyOrdererUpdates c L dbName updates s =
     bindE (foldE (\<lambda>(k, vv) dbBatch.
               if Is_Delete vv then Inr (LevelBatch_Delete k dbBatch)
               else bindE (encodeValueMVCC c vv) (\<lambda>encodedVal. LevelBatch_Put k (Some encodedVal) dbBatch))
             updates (DBHandle_NewUpdateBatch dbName)) (\<lambda>dbBatch.
       DBHandle_WriteBatch L dbBatch s)"

definition ValidateKeyValue :: "gostring \<Rightarrow> gobytes \<Rightarrow> unit res" where
  "ValidateKeyValue key value = Inr ()"

definition GetLatestSavePoint :: "'s goleveldb_ops \<Rightarrow> gostring \<Rightarrow> 's \<Rightarrow> Height option res" where
  "GetLatestSavePoint L dbName s =
     bindE (DBHandle_Get L dbName savePointKey s) (\<lambda>versionBytes.
       case versionBytes of None \<Rightarrow> Inr None
       | Some b \<Rightarrow> bindE (NewHeightFromBytes b) (\<lambda>(ver, _). Inr (Some ver)))"

section \<open>Full scans and imports\<close>

definition newFullDBScanner :: "'s goleveldb_ops \<Rightarrow> gostring \<Rightarrow> 's \<Rightarrow> (bytes \<times> bytes) list res" where
  "newFullDBScanner L dbName s =
     DBHandle_GetIterator L dbName (Some dataKeyPrefix) (Some dataKeyStopper) s"

text \<open>
  \<open>Next\<close> of the full scanner over the pairs left. Seeking the first key of the next namespace and
  stepping back leaves the iterator just before that key: of the pairs left, those below it are
  dropped.
\<close>

function fullDBScanner_Next ::
  "dbvalue_codec \<Rightarrow> gostring \<Rightarrow> (gostring \<Rightarrow> bool) \<Rightarrow> (bytes \<times> bytes) list \<Rightarrow> VersionedKV option res \<times> (bytes \<times> bytes) list" where
  "fullDBScanner_Next c dbName toSkip [] = (Inr None, [])"
| "fullDBScanner_Next c dbName toSkip (e # itr) =
     (case bindE (bindE (Iterator_Key e) decodeDataKey) (\<lambda>(ns, key).
           bindE (decodeValue c (snd e)) (\<lambda>vv. Inr (ns, key, vv))) of
        Inl err \<Rightarrow> (Inl err, itr)
      | Inr (ns, key, versionedVal) \<Rightarrow>
          if \<not> toSkip ns then
            (Inr (Some \<lparr>vkv_CompositeKey = \<lparr>ck_Namespace = ns, ck_Key = key\<rparr>, vkv_VersionedValue = versionedVal\<rparr>), itr)
          else fullDBScanner_Next c dbName toSkip
                 (dropWhile (\<lambda>e'. fst e' < constructLevelKey dbName (dataKeyStarterForNextNamespace ns)) itr))"
  by pat_completeness auto
termination
  by (relation "measure (\<lambda>(_, _, _, itr). length itr)") (auto simp: le_imp_less_Suc length_dropWhile_le)

definition maxDataImportBatchSize :: nat where
  "maxDataImportBatchSize = 4 * 1024 * 1024"

fun importState_loop ::
  "dbvalue_codec \<Rightarrow> 's goleveldb_ops \<Rightarrow> ResultsIterator \<Rightarrow> nat \<Rightarrow> LevelUpdateBatch \<Rightarrow> 's \<Rightarrow> (LevelUpdateBatch \<times> 's) res" where
  "importState_loop c L [] batchSize dbBatch s = Inr (dbBatch, s)"
| "importState_loop c L (Inl err # itr) batchSize dbBatch s = Inl err"
| "importState_loop c L (Inr versionedKV # itr) batchSize dbBatch s =
     (let dbKey = encodeDataKey (ck_Namespace (vkv_CompositeKey versionedKV)) (vkv_Key versionedKV) in
      bindE (encodeValue c (vkv_VersionedValue versionedKV)) (\<lambda>dbValue.
        let batchSize = batchSize + (length dbKey + length dbValue) in
        bindE (LevelBatch_Put dbKey (Some dbValue) dbBatch) (\<lambda>dbBatch1.
          if batchSize \<ge> maxDataImportBatchSize then
            bindE (DBHandle_WriteBatch L dbBatch1 s) (importState_loop c L itr 0 (LevelBatch_Reset dbBatch1))
          else importState_loop c L itr batchSize dbBatch1 s)))"

definition importState ::
  "dbvalue_codec \<Rightarrow> 's goleveldb_ops \<Rightarrow> gostring \<Rightarrow> ResultsIterator option \<Rightarrow> Height option \<Rightarrow> 's \<Rightarrow> 's res" where
  "importState c L dbName itr savepoint s =
     (case itr of
        None \<Rightarrow> bindE (heightBytes savepoint) (\<lambda>b. DBHandle_Put L dbName savePointKey b s)
      | Some it \<Rightarrow>
          bindE (importState_loop c L it 0 (DBHandle_NewUpdateBatch dbName) s) (\<lambda>(dbBatch, s1).
          bindE (heightBytes savepoint) (\<lambda>b.
          bindE (LevelBatch_Put savePointKey (Some b) dbBatch) (\<lambda>dbBatch1.
            DBHandle_WriteBatch L dbBatch1 s1))))"

section \<open>The encodings\<close>

lemma decode_encodeDataKey: "no_NUL ns \<Longrightarrow> decodeDataKey (encodeDataKey ns key) = Inr (ns, key)"
  using SplitN_NUL_append [of "CHR ''d'' # ns" key]
  by (simp add: decodeDataKey_def encodeDataKey_def dataKeyPrefix_def nsKeySep_def no_NUL_def)

lemma encodeDataKey_inject:
  "no_NUL ns \<Longrightarrow> no_NUL ns' \<Longrightarrow> encodeDataKey ns key = encodeDataKey ns' key' \<longleftrightarrow> ns = ns' \<and> key = key'"
  by (metis Inr_inject Pair_inject decode_encodeDataKey)

lemma encodeDataKey_savePoint [simp]: "encodeDataKey ns key \<noteq> savePointKey" "savePointKey \<noteq> encodeDataKey ns key"
  by (simp_all add: encodeDataKey_def dataKeyPrefix_def savePointKey_def)

lemma encodeDataKey_construct: "encodeDataKey ns key = constructLevelKey (CHR ''d'' # ns) key"
  by (simp add: encodeDataKey_def constructLevelKey_def dataKeyPrefix_def nsKeySep_def)

text \<open>
  What is read back for a stored value: protobuf gives an empty byte field back as nil, which
  \<open>decodeValue\<close> turns into an empty value again but not into empty metadata.
\<close>

fun nilify :: "gobytes \<Rightarrow> gobytes" where
  "nilify None = None"
| "nilify (Some b) = (if b = [] then None else Some b)"

definition stored :: "VersionedValue \<Rightarrow> VersionedValue" where
  "stored vv = \<lparr>vv_Value = Some (content (vv_Value vv)), vv_Metadata = nilify (vv_Metadata vv), vv_Version = vv_Version vv\<rparr>"

definition dbvalue_faithful :: "dbvalue_codec \<Rightarrow> bool" where
  "dbvalue_faithful c \<longleftrightarrow>
     (\<forall>d b. Marshal_DBValue c d = Inr b \<longrightarrow> Unmarshal_DBValue c b =
        Inr (d\<lparr>dv_Value := nilify (dv_Value d), dv_Metadata := nilify (dv_Metadata d)\<rparr>)) \<and>
     (\<forall>d b. Marshal_DBMVCC c d = Inr b \<longrightarrow> Unmarshal_DBMVCC c b = Inr d)"

lemma NewHeightFromBytes_ToBytes: "ToBytes h = Inr b \<Longrightarrow> NewHeightFromBytes b = Inr (h, length b)"
  using decode_opv [of "TxNum h" "[]"]
  by (auto simp: ToBytes_opv NewHeightFromBytes_def decode_opv NewHeight_def)

lemma decode_encodeValue:
  assumes "dbvalue_faithful c" and "encodeValue c vv = Inr b"
  shows "decodeValue c b = Inr (stored vv)"
proof -
  from assms(2) obtain h ver where h: "vv_Version vv = Some h" "ToBytes h = Inr ver"
    and "Marshal_DBValue c \<lparr>dv_Version = ver, dv_Value = vv_Value vv, dv_Metadata = vv_Metadata vv\<rparr> = Inr b"
    by (auto simp: encodeValue_def heightBytes_def go_res split: option.splits)
  with assms(1) have "Unmarshal_DBValue c b = Inr \<lparr>dv_Version = ver, dv_Value = nilify (vv_Value vv),
      dv_Metadata = nilify (vv_Metadata vv)\<rparr>"
    by (simp add: dbvalue_faithful_def)
  moreover have "(case nilify v of None \<Rightarrow> Some [] | Some v \<Rightarrow> Some v) = Some (content v)" for v
    by (cases v) auto
  ultimately show ?thesis
    using h NewHeightFromBytes_ToBytes [OF h(2)] by (simp add: decodeValue_def stored_def Let_def)
qed

section \<open>The batch a commit writes\<close>

definition level_entry :: "dbvalue_codec \<Rightarrow> gostring \<Rightarrow> (gostring \<times> gostring) \<times> VersionedValue \<Rightarrow> bytes \<times> gobytes" where
  "level_entry c n = (\<lambda>((ns, k), vv). (constructLevelKey n (encodeDataKey ns k),
     if vv_Value vv = None then None else Some (projr (encodeValue c vv))))"

definition encodable :: "dbvalue_codec \<Rightarrow> VersionedValue \<Rightarrow> bool" where
  "encodable c vv \<longleftrightarrow> vv_Value vv = None \<or> (\<exists>b. encodeValue c vv = Inr b)"

lemma applyUpdate_entries:
  "foldE (applyUpdate c ns) kvs b = Inr b' \<Longrightarrow>
   lb_dbName b' = lb_dbName b \<and>
   lb_leveldbBatch b' = lb_leveldbBatch b @ map (\<lambda>(k, vv). level_entry c (lb_dbName b) ((ns, k), vv)) kvs \<and>
   (\<forall>(k, vv) \<in> set kvs. encodable c vv)"
proof (induction kvs arbitrary: b)
  case (Cons e kvs)
  obtain k vv where e: "e = (k, vv)" by fastforce
  from Cons.prems e obtain b1 where b1: "applyUpdate c ns (k, vv) b = Inr b1"
    and f: "foldE (applyUpdate c ns) kvs b1 = Inr b'" by (auto simp: go_res)
  have "lb_dbName b1 = lb_dbName b \<and>
      lb_leveldbBatch b1 = lb_leveldbBatch b @ [level_entry c (lb_dbName b) ((ns, k), vv)] \<and> encodable c vv"
    using b1 by (auto simp: applyUpdate_def level_entry_def encodable_def LevelBatch_Put_def LevelBatch_Delete_def
        Let_def go_res split: if_splits)
  with Cons.IH [OF f] e show ?case by auto
qed simp

lemma applyUpdates_entries:
  assumes "foldE (\<lambda>ns. foldE (applyUpdate c ns) (g ns)) nss b = Inr b'"
  shows "lb_dbName b' = lb_dbName b \<and>
   lb_leveldbBatch b' = lb_leveldbBatch b @
     map (level_entry c (lb_dbName b)) (concat (map (\<lambda>ns. map (\<lambda>(k, vv). ((ns, k), vv)) (g ns)) nss)) \<and>
   (\<forall>ns \<in> set nss. \<forall>(k, vv) \<in> set (g ns). encodable c vv)"
  using assms
proof (induction nss arbitrary: b)
  case (Cons ns nss)
  then obtain b1 where b1: "foldE (applyUpdate c ns) (g ns) b = Inr b1"
    and f: "foldE (\<lambda>ns. foldE (applyUpdate c ns) (g ns)) nss b1 = Inr b'" by (auto simp: go_res)
  from applyUpdate_entries [OF b1] Cons.IH [OF f] show ?case
    by (auto simp: case_prod_unfold comp_def)
qed simp

text \<open>The whole batch of a commit: the entries and the savepoint.\<close>

definition commit_batch :: "dbvalue_codec \<Rightarrow> gostring \<Rightarrow> UpdateBatch \<Rightarrow> Height option \<Rightarrow> leveldbBatch" where
  "commit_batch c n batch height = map (level_entry c n) (batch_entries batch) @
     (case height of None \<Rightarrow> [] | Some h \<Rightarrow> [(constructLevelKey n savePointKey, Some (projr (ToBytes h)))])"

lemma ApplyUpdates_write:
  assumes "wf_batch batch" and "ApplyUpdates c L n batch height s = Inr s'"
  shows "(commit_batch c n batch height = [] \<and> s' = s \<or> ldb_Write L (commit_batch c n batch height) s = Inr s') \<and>
    (\<forall>ns k vv. UpdateBatch_Get batch ns k = Some vv \<longrightarrow> encodable c vv)"
proof -
  from assms(2) obtain b b1 where
    b: "foldE (\<lambda>ns. foldE (applyUpdate c ns) (GetUpdates batch ns)) (GetUpdatedNamespaces batch)
          (DBHandle_NewUpdateBatch n) = Inr b"
    and b1: "(case height of None \<Rightarrow> Inr b
            | Some h \<Rightarrow> bindE (ToBytes h) (\<lambda>x. LevelBatch_Put savePointKey (Some x) b)) = Inr b1"
    and w: "DBHandle_WriteBatch L b1 s = Inr s'"
    unfolding ApplyUpdates_def go_res by blast
  note e = applyUpdates_entries [OF b]
  have "lb_leveldbBatch b1 = commit_batch c n batch height"
    using b1 e batch_entries_GetUpdates [OF assms(1)]
    by (auto simp: commit_batch_def DBHandle_NewUpdateBatch_def LevelBatch_Put_def Let_def go_res split: option.splits)
  moreover have "encodable c vv" if "UpdateBatch_Get batch ns k = Some vv" for ns k vv
  proof -
    have "(k, vv) \<in> set (GetUpdates batch ns)"
      using that by (simp flip: GetUpdates_Get add: map_of_SomeD)
    moreover have "ns \<in> set (GetUpdatedNamespaces batch)"
      using that by (force simp: UpdateBatch_Get_def GetUpdatedNamespaces_def dest: map_of_SomeD split: option.splits)
    ultimately show ?thesis using e by auto
  qed
  ultimately show ?thesis
    using w by (auto simp: DBHandle_WriteBatch_def DB_WriteBatch_def split: if_splits)
qed

lemma map_of_level_entries:
  assumes "\<forall>((ns, k), vv) \<in> set es. no_NUL ns" and "no_NUL ns0"
  shows "map_of (map (level_entry c n) es) (constructLevelKey n (encodeDataKey ns0 k0)) =
    map_option (\<lambda>vv. if vv_Value vv = None then None else Some (projr (encodeValue c vv))) (map_of es (ns0, k0))"
  using assms(1)
proof (induction es)
  case (Cons e es)
  obtain ns k vv where e: "e = ((ns, k), vv)" by (metis surj_pair)
  with Cons have "no_NUL ns" by simp
  then have "encodeDataKey ns k = encodeDataKey ns0 k0 \<longleftrightarrow> ns = ns0 \<and> k = k0"
    using encodeDataKey_inject assms(2) by blast
  with Cons e show ?case by (auto simp: level_entry_def)
qed simp

definition ns_ok :: "UpdateBatch \<Rightarrow> bool" where
  "ns_ok batch = list_all (\<lambda>(ns, m). no_NUL ns) (Updates batch)"

lemma ns_ok_entries: "ns_ok batch \<Longrightarrow> \<forall>((ns, k), vv) \<in> set (batch_entries batch). no_NUL ns"
  by (auto simp: ns_ok_def batch_entries_def list_all_iff)

lemma distinct_commit_batch:
  assumes "wf_batch batch" and "ns_ok batch"
  shows "distinct (map fst (commit_batch c n batch height))"
proof -
  have inj: "inj_on (\<lambda>(ns, k). constructLevelKey n (encodeDataKey ns k)) (fst ` set (batch_entries batch))"
    using ns_ok_entries [OF assms(2)] by (auto simp: inj_on_def encodeDataKey_inject case_prod_unfold)
  have "map fst (map (level_entry c n) (batch_entries batch)) =
      map (\<lambda>(ns, k). constructLevelKey n (encodeDataKey ns k)) (map fst (batch_entries batch))"
    by (auto simp: level_entry_def)
  then have "distinct (map fst (map (level_entry c n) (batch_entries batch)))"
    using inj distinct_batch_entries [OF assms(1)] by (simp only: distinct_map set_map simp_thms)
  moreover have "constructLevelKey n savePointKey \<notin> fst ` level_entry c n ` set (batch_entries batch)"
    by (auto simp: level_entry_def)
  ultimately show ?thesis by (auto simp: commit_batch_def split: option.splits)
qed

lemma commit_contents:
  assumes "goleveldb L contents" and "wf_batch batch" and "ns_ok batch"
    and "ApplyUpdates c L n batch height s = Inr s'"
  shows "contents s' k = (case map_of (commit_batch c n batch height) k of None \<Rightarrow> contents s k | Some v \<Rightarrow> v)"
proof -
  have "contents s' = apply_batch (commit_batch c n batch height) (contents s)"
    using ApplyUpdates_write [OF assms(2,4)] goleveldb.write_contents [OF assms(1)] by (auto simp: apply_batch_def)
  then show ?thesis
    using apply_batch_lookup [OF distinct_commit_batch [OF assms(2,3)]] by simp
qed

lemma commit_state:
  assumes "wf_batch batch" and "ns_ok batch" and "no_NUL ns"
  shows "map_of (commit_batch c n batch height) (constructLevelKey n (encodeDataKey ns k)) =
    map_option (\<lambda>vv. if vv_Value vv = None then None else Some (projr (encodeValue c vv))) (UpdateBatch_Get batch ns k)"
  using map_of_level_entries [OF ns_ok_entries [OF assms(2)] assms(3), of c n k]
  by (auto simp: commit_batch_def map_of_batch_entries [OF assms(1)] map_add_def split: option.splits)

lemma commit_savepoint:
  "map_of (commit_batch c n batch height) (constructLevelKey n savePointKey) =
    map_option (\<lambda>h. Some (projr (ToBytes h))) height"
proof -
  have "map_of (map (level_entry c n) es) (constructLevelKey n savePointKey) = None" for es
    by (auto simp: map_of_eq_None_iff level_entry_def)
  then show ?thesis by (auto simp: commit_batch_def map_add_def split: option.splits)
qed

lemma commit_GetLatestSavePoint:
  assumes "goleveldb L contents" and "wf_batch batch" and "ns_ok batch" and "ApplyUpdates c L n batch height s = Inr s'"
    and "GetLatestSavePoint L n s = Inr sp" and "GetLatestSavePoint L n s' = Inr sp'"
  shows "sp' = (case height of None \<Rightarrow> sp | Some h \<Rightarrow> Some h)"
proof -
  note get = goleveldb.get_contents [OF assms(1)]
  let ?sp = "constructLevelKey n savePointKey"
  from assms(5) obtain x where x: "ldb_Get L s ?sp = Inr x"
    "(case x of None \<Rightarrow> Inr None | Some b \<Rightarrow> bindE (NewHeightFromBytes b) (\<lambda>(ver, _). Inr (Some ver))) = Inr sp"
    by (auto simp: GetLatestSavePoint_def DBHandle_Get_def DB_Get_def go_res)
  from assms(6) obtain y where y: "ldb_Get L s' ?sp = Inr y"
    "(case y of None \<Rightarrow> Inr None | Some b \<Rightarrow> bindE (NewHeightFromBytes b) (\<lambda>(ver, _). Inr (Some ver))) = Inr sp'"
    by (auto simp: GetLatestSavePoint_def DBHandle_Get_def DB_Get_def go_res)
  show ?thesis
    using get [OF x(1)] get [OF y(1)] commit_contents [OF assms(1-4), of ?sp] commit_savepoint [of c n batch height] x(2) y(2)
      NewHeightFromBytes_ToBytes ToBytes_opv by (auto split: option.splits)
qed

section \<open>Properties\<close>

text \<open>
  C5: Committing a batch to the state database refines the update of a map: afterwards every key
  reads as the batch's entry if the batch has one (nothing, if the entry is a deletion) and as
  before otherwise, and the latest savepoint is the height committed, or the previous one if the
  height was nil.
\<close>

theorem commit_refines_map_update:
  assumes "goleveldb L contents" and "dbvalue_faithful c" and "wf_batch batch" and "ns_ok batch" and "no_NUL ns"
    and "ApplyUpdates c L n batch height s = Inr s'"
    and "GetState c L n ns key s = Inr old" and "GetState c L n ns key s' = Inr new"
    and "GetLatestSavePoint L n s = Inr sp" and "GetLatestSavePoint L n s' = Inr sp'"
  shows "new = (case UpdateBatch_Get batch ns key of None \<Rightarrow> old
      | Some vv \<Rightarrow> if VersionedValue_IsDelete vv then None else Some (stored vv)) \<and>
    sp' = (case height of None \<Rightarrow> sp | Some h \<Rightarrow> Some h)"
proof
  note get = goleveldb.get_contents [OF assms(1)]
  note put = commit_contents [OF assms(1,3,4,6)]
  let ?k = "constructLevelKey n (encodeDataKey ns key)"
  from assms(7) obtain v where v: "ldb_Get L s ?k = Inr v"
    "(case v of None \<Rightarrow> Inr None | Some b \<Rightarrow> bindE (decodeValue c b) (\<lambda>vv. Inr (Some vv))) = Inr old"
    by (auto simp: GetState_def DBHandle_Get_def DB_Get_def go_res)
  from assms(8) obtain w where w: "ldb_Get L s' ?k = Inr w"
    "(case w of None \<Rightarrow> Inr None | Some b \<Rightarrow> bindE (decodeValue c b) (\<lambda>vv. Inr (Some vv))) = Inr new"
    by (auto simp: GetState_def DBHandle_Get_def DB_Get_def go_res)
  show "new = (case UpdateBatch_Get batch ns key of None \<Rightarrow> old
      | Some vv \<Rightarrow> if VersionedValue_IsDelete vv then None else Some (stored vv))"
  proof (cases "UpdateBatch_Get batch ns key")
    case None
    then have "w = v" using get [OF v(1)] get [OF w(1)] put [of ?k] commit_state [OF assms(3-5)] by simp
    with v(2) w(2) None show ?thesis by simp
  next
    case (Some vv)
    then have wv: "w = (if vv_Value vv = None then None else Some (projr (encodeValue c vv)))"
      using get [OF w(1)] put [of ?k] commit_state [OF assms(3-5)] by simp
    have "encodable c vv" using ApplyUpdates_write [OF assms(3,6)] Some by blast
    then show ?thesis
      using Some w(2) wv decode_encodeValue [OF assms(2), of vv]
      by (auto simp: encodable_def VersionedValue_IsDelete_def)
  qed
  show "sp' = (case height of None \<Rightarrow> sp | Some h \<Rightarrow> Some h)"
    by (rule commit_GetLatestSavePoint [OF assms(1,3,4,6,9,10)])
qed

text \<open>A codec that knows one stored value.\<close>

definition sample_dbvalue :: DBValue where
  "sample_dbvalue = \<lparr>dv_Version = projr (ToBytes (NewHeight 7 1)), dv_Value = Some ''1'', dv_Metadata = None\<rparr>"

definition sample_dbcodec :: dbvalue_codec where
  "sample_dbcodec =
     \<lparr>Marshal_DBValue = (\<lambda>d. if d = sample_dbvalue then Inr ''v'' else Inl (Error ''marshal'')),
      Unmarshal_DBValue = (\<lambda>b. if b = ''v'' then Inr sample_dbvalue else Inl (Error ''unmarshal'')),
      Marshal_DBMVCC = (\<lambda>d. Inl (Error ''marshal'')), Unmarshal_DBMVCC = (\<lambda>b. Inl (Error ''unmarshal''))\<rparr>"

definition sample_committed :: "(bytes, bytes) gomap" where
  "sample_committed = [(constructLevelKey ''ch'' (encodeDataKey ''ns1'' ''a''), ''v''),
     (constructLevelKey ''ch'' savePointKey, projr (ToBytes (NewHeight 7 2)))]"

lemma sample_dbcodec_faithful: "dbvalue_faithful sample_dbcodec"
  by (simp add: dbvalue_faithful_def sample_dbcodec_def sample_dbvalue_def)

lemma sample_commit:
  "ApplyUpdates sample_dbcodec mem_ops ''ch'' sample_batch (Some (NewHeight 7 2)) [] = Inr sample_committed"
  by (simp add: ApplyUpdates_def sample_batch_def sample_committed_def applyUpdate_def UpdateBatch_Update_def
      UpdateBatch_Delete_def NewUpdateBatch_def getOrCreateNsUpdates_def GetUpdatedNamespaces_def GetUpdates_def
      encodeValue_def heightBytes_def ToBytes_opv sample_dbcodec_def sample_dbvalue_def LevelBatch_Put_def
      LevelBatch_Delete_def DBHandle_NewUpdateBatch_def DBHandle_WriteBatch_def DB_WriteBatch_def mem_ops_def
      encodeDataKey_inject no_NUL_def Let_def)

lemma sample_reads_back:
  "GetState sample_dbcodec mem_ops ''ch'' ''ns1'' ''a'' [] = Inr None"
  "\<exists>v. GetState sample_dbcodec mem_ops ''ch'' ''ns1'' ''a'' sample_committed = Inr v"
  "GetLatestSavePoint mem_ops ''ch'' [] = Inr None"
  "\<exists>h. GetLatestSavePoint mem_ops ''ch'' sample_committed = Inr h"
  using NewHeightFromBytes_ToBytes [OF ToBytes_opv]
  by (auto simp: GetState_def GetLatestSavePoint_def DBHandle_Get_def DB_Get_def mem_ops_def sample_committed_def
      sample_dbcodec_def sample_dbvalue_def decodeValue_def ToBytes_opv Let_def)

lemma sample_batch_ok: "wf_batch sample_batch" "ns_ok sample_batch" "no_NUL ''ns1''" "no_NUL ''ch''"
proof -
  show "wf_batch sample_batch" by (simp add: sample_batch_def)
qed (simp_all add: sample_batch_def ns_ok_def UpdateBatch_Update_def UpdateBatch_Delete_def NewUpdateBatch_def
      getOrCreateNsUpdates_def no_NUL_def)

theorem commit_refines_map_update_witness:
  "GetState sample_dbcodec mem_ops ''ch'' ''ns1'' ''a'' sample_committed =
     Inr (Some \<lparr>vv_Value = Some ''1'', vv_Metadata = None, vv_Version = Some (NewHeight 7 1)\<rparr>) \<and>
   GetLatestSavePoint mem_ops ''ch'' sample_committed = Inr (Some (NewHeight 7 2))"
proof -
  obtain new sp where r: "GetState sample_dbcodec mem_ops ''ch'' ''ns1'' ''a'' sample_committed = Inr new"
    "GetLatestSavePoint mem_ops ''ch'' sample_committed = Inr sp"
    using sample_reads_back by blast
  from commit_refines_map_update [OF mem.goleveldb_axioms sample_dbcodec_faithful sample_batch_ok(1-3) sample_commit
      sample_reads_back(1) r(1) sample_reads_back(3) r(2)] r
  show ?thesis by (simp add: sample_batch_def stored_def VersionedValue_IsDelete_def)
qed

section \<open>Range scans\<close>

definition decode_entry :: "dbvalue_codec \<Rightarrow> gostring \<Rightarrow> bytes \<times> bytes \<Rightarrow> VersionedKV res" where
  "decode_entry c ns e =
     bindE (bindE (Iterator_Key e) decodeDataKey) (\<lambda>(_, key). bindE (decodeValue c (snd e)) (\<lambda>vv. Inr (mk_kv ns key vv)))"

text \<open>A page of at most \<open>n\<close> results; results that are errors do not count.\<close>

fun page :: "int \<Rightarrow> VersionedKV res list \<Rightarrow> VersionedKV res list" where
  "page n [] = []"
| "page n (Inr x # r) = (if n \<le> 0 then [] else Inr x # page (n - 1) r)"
| "page n (Inl e # r) = (if n \<le> 0 then [] else Inl e # page n r)"

definition scan_remaining :: "dbvalue_codec \<Rightarrow> kvScanner \<Rightarrow> VersionedKV res list" where
  "scan_remaining c sc =
     (let r = map (decode_entry c (ks_namespace sc)) (ks_dbItr sc) in
      if requestedLimit sc > 0 then page (requestedLimit sc - totalRecordsReturned sc) r else r)"

lemma kvScanner_Next_Cons:
  assumes "ks_dbItr sc = e # itr" and "\<not> (requestedLimit sc > 0 \<and> totalRecordsReturned sc \<ge> requestedLimit sc)"
  shows "kvScanner_Next c sc = (case decode_entry c (ks_namespace sc) e of
      Inl err \<Rightarrow> (Inl err, sc\<lparr>ks_dbItr := itr\<rparr>)
    | Inr kv \<Rightarrow> (Inr (Some kv), sc\<lparr>ks_dbItr := itr, totalRecordsReturned := totalRecordsReturned sc + 1\<rparr>))"
proof (cases "bindE (Iterator_Key e) decodeDataKey")
  case (Inl err)
  with assms show ?thesis by (simp add: kvScanner_Next_def decode_entry_def)
next
  case (Inr k)
  then show ?thesis
    using assms by (cases "decodeValue c (snd e)") (auto simp: kvScanner_Next_def decode_entry_def mk_kv_def case_prod_unfold)
qed

lemma page_Nil [simp]: "page n r = [] \<longleftrightarrow> r = [] \<or> n \<le> 0"
  by (cases "(n, r)" rule: page.cases) auto

lemma page_results: "page n (map Inr xs) = map Inr (take (nat n) xs)"
proof (induction xs arbitrary: n)
  case (Cons x xs)
  then show ?case by (cases "n \<le> 0") (auto simp: nat_diff_distrib' Suc_nat_eq_nat_zadd1 take_Cons' )
qed simp

lemma kvScanner_Next_end:
  assumes "scan_remaining c sc = []"
  shows "kvScanner_Next c sc = (Inr None, sc)"
proof (cases "requestedLimit sc > 0 \<and> totalRecordsReturned sc \<ge> requestedLimit sc")
  case False
  then have "ks_dbItr sc = []"
    using assms by (auto simp: scan_remaining_def Let_def split: if_splits)
  then show ?thesis by (simp add: kvScanner_Next_def)
qed (simp add: kvScanner_Next_def)

lemma scan_remaining_Cons:
  assumes "scan_remaining c sc = r # rs"
  obtains e itr where "ks_dbItr sc = e # itr" "decode_entry c (ks_namespace sc) e = r"
    "\<not> (requestedLimit sc > 0 \<and> totalRecordsReturned sc \<ge> requestedLimit sc)"
    "rs = (case r of Inl err \<Rightarrow> scan_remaining c (sc\<lparr>ks_dbItr := itr\<rparr>)
      | Inr kv \<Rightarrow> scan_remaining c (sc\<lparr>ks_dbItr := itr, totalRecordsReturned := totalRecordsReturned sc + 1\<rparr>))"
proof -
  have lim: "\<not> (requestedLimit sc > 0 \<and> totalRecordsReturned sc \<ge> requestedLimit sc)"
  proof
    assume "requestedLimit sc > 0 \<and> totalRecordsReturned sc \<ge> requestedLimit sc"
    then have "scan_remaining c sc = []" by (simp add: scan_remaining_def Let_def)
    with assms show False by simp
  qed
  moreover obtain e itr where it: "ks_dbItr sc = e # itr"
    using assms by (cases "ks_dbItr sc") (auto simp: scan_remaining_def Let_def split: if_splits)
  moreover have "decode_entry c (ks_namespace sc) e = r \<and>
    rs = (case r of Inl err \<Rightarrow> scan_remaining c (sc\<lparr>ks_dbItr := itr\<rparr>)
      | Inr kv \<Rightarrow> scan_remaining c (sc\<lparr>ks_dbItr := itr, totalRecordsReturned := totalRecordsReturned sc + 1\<rparr>))"
  proof (cases "decode_entry c (ks_namespace sc) e")
    case (Inl err)
    then have "r = Inl err" using assms it lim by (auto simp: scan_remaining_def Let_def split: if_splits)
    with Inl assms it lim show ?thesis by (auto simp: scan_remaining_def Let_def split: if_splits)
  next
    case (Inr kv)
    then have "r = Inr kv" using assms it lim by (auto simp: scan_remaining_def Let_def split: if_splits)
    with Inr assms it lim show ?thesis by (auto simp: scan_remaining_def Let_def diff_diff_eq split: if_splits)
  qed
  ultimately show ?thesis using that by blast
qed

interpretation ks: results_iterator "kvScanner_Next c" "scan_remaining c" "\<lambda>_. True" for c
proof
  fix sc x r
  show "fst (kvScanner_Next c sc) = Inr None \<and> scan_remaining c (snd (kvScanner_Next c sc)) = []"
    if "scan_remaining c sc = []"
    using that kvScanner_Next_end by simp
  show "fst (kvScanner_Next c sc) = Inr (Some x) \<and> scan_remaining c (snd (kvScanner_Next c sc)) = r"
    if "scan_remaining c sc = Inr x # r"
    using that by (elim scan_remaining_Cons) (simp add: kvScanner_Next_Cons)
  show "fst (kvScanner_Next c sc) = Inl e" if "scan_remaining c sc = Inl e # r" for e
    using that by (elim scan_remaining_Cons) (simp add: kvScanner_Next_Cons)
qed simp

lemma RangeScan_iterator:
  "GetStateRangeScanIteratorWithPagination L n ns startKey endKey pageSize s =
     bindE (ldb_NewIterator L s (Some (constructLevelKey n (encodeDataKey ns startKey)))
       (Some (constructLevelKey n (end_key (CHR ''d'' # ns) (if endKey = '''' then None else Some endKey)))))
       (\<lambda>dbItr. Inr (newKVScanner ns dbItr pageSize))"
  by (simp add: GetStateRangeScanIteratorWithPagination_def GetIterator_bounds end_key_def [of n] Let_def)
    (simp add: end_key_def encodeDataKey_def constructLevelKey_def dataKeyPrefix_def nsKeySep_def lastKeyIndicator_def)

lemma in_bounds_range:
  "in_bounds (Some startKey) (if endKey = '''' then None else Some endKey) key \<longleftrightarrow> in_range startKey endKey key"
  by (simp add: in_bounds_def in_range_def)

text \<open>The level keys a range scan asks for are those of the namespace's keys in the range.\<close>

lemma scan_bounds:
  "in_bounds (Some (constructLevelKey n (encodeDataKey ns startKey)))
     (Some (constructLevelKey n (end_key (CHR ''d'' # ns) (if endKey = '''' then None else Some endKey)))) lk \<longleftrightarrow>
   (\<exists>key. lk = constructLevelKey n (encodeDataKey ns key) \<and> in_range startKey endKey key)"
proof -
  let ?lim = "if endKey = '''' then None else Some endKey"
  have "in_bounds (Some (constructLevelKey n (encodeDataKey ns startKey)))
      (Some (constructLevelKey n (end_key (CHR ''d'' # ns) ?lim))) lk \<longleftrightarrow>
    (\<exists>k. lk = constructLevelKey n k \<and>
      in_bounds (Some (encodeDataKey ns startKey)) (Some (end_key (CHR ''d'' # ns) ?lim)) k)"
    using level_bounds [of n "Some (encodeDataKey ns startKey)" "Some (end_key (CHR ''d'' # ns) ?lim)" lk]
    by (simp add: end_key_def [of n])
  also have "\<dots> \<longleftrightarrow> (\<exists>key. lk = constructLevelKey n (encodeDataKey ns key) \<and> in_bounds (Some startKey) ?lim key)"
    using level_bounds [of "CHR ''d'' # ns" "Some startKey" ?lim] by (auto simp: encodeDataKey_construct)
  finally show ?thesis by (simp only: in_bounds_range)
qed

lemma strip_keys:
  "\<forall>e \<in> set xs. \<exists>k. fst e = f k \<Longrightarrow> \<exists>kvs. xs = map (\<lambda>(k, b). (f k, b)) kvs"
proof (induction xs)
  case (Cons e xs)
  then obtain k kvs where "fst e = f k" "xs = map (\<lambda>(k, b). (f k, b)) kvs" by auto
  then have "e # xs = map (\<lambda>(k, b). (f k, b)) ((k, snd e) # kvs)" by (simp add: prod_eq_iff)
  then show ?case by (rule exI)
qed simp

lemma scan_entries:
  assumes "goleveldb L contents"
    and "GetStateRangeScanIteratorWithPagination L n ns startKey endKey pageSize s = Inr sc"
  shows "\<exists>kvs. sc = newKVScanner ns (map (\<lambda>(key, b). (constructLevelKey n (encodeDataKey ns key), b)) kvs) pageSize \<and>
    sorted_wrt (<) (map fst kvs) \<and>
    (\<forall>key b. (key, b) \<in> set kvs \<longleftrightarrow>
      in_range startKey endKey key \<and> contents s (constructLevelKey n (encodeDataKey ns key)) = Some b)"
proof -
  let ?f = "\<lambda>key. constructLevelKey n (encodeDataKey ns key)"
  from assms(2) obtain raw where r: "ldb_NewIterator L s (Some (?f startKey))
      (Some (constructLevelKey n (end_key (CHR ''d'' # ns) (if endKey = '''' then None else Some endKey)))) = Inr raw"
    and sc: "sc = newKVScanner ns raw pageSize"
    unfolding RangeScan_iterator by (auto simp: go_res)
  note it = goleveldb.iterator_contents [OF assms(1) r]
  have mem: "(lk, b) \<in> set raw \<longleftrightarrow> (\<exists>key. lk = ?f key \<and> in_range startKey endKey key) \<and> contents s lk = Some b" for lk b
    using it scan_bounds by blast
  have "\<forall>e \<in> set raw. \<exists>key. fst e = ?f key" using mem by (metis prod.collapse)
  from strip_keys [OF this] obtain kvs where kvs: "raw = map (\<lambda>(key, b). (?f key, b)) kvs" by blast
  have "sorted_wrt (<) (map fst kvs)"
    using it unfolding kvs
    by (simp add: sorted_wrt_map case_prod_unfold constructLevelKey_def encodeDataKey_def)
  moreover have "(key, b) \<in> set kvs \<longleftrightarrow> in_range startKey endKey key \<and> contents s (?f key) = Some b" for key b
  proof -
    have "(key, b) \<in> set kvs \<longleftrightarrow> (?f key, b) \<in> set raw"
      unfolding kvs by (force simp: encodeDataKey_construct)
    then show ?thesis using mem [of "?f key" b] by (auto simp: encodeDataKey_construct)
  qed
  ultimately show ?thesis using sc kvs by blast
qed

text \<open>
  C6: A range scan of the state database gives, one per call of \<open>Next\<close>, exactly the keys of the
  namespace in the range that the database holds, each with the value a read of it gives, in
  increasing key order, and then nil for ever; with a positive page size it stops after that many.
\<close>

theorem range_scan_complete:
  assumes "goleveldb L contents" and "no_NUL n" and "no_NUL ns"
    and "GetStateRangeScanIteratorWithPagination L n ns startKey endKey pageSize s = Inr sc"
    and "\<And>key. \<exists>v. GetState c L n ns key s = Inr v"
  shows "\<exists>kvs. sorted_wrt (<) (map vkv_Key kvs) \<and>
    (\<forall>kv. kv \<in> set kvs \<longleftrightarrow> (\<exists>key vv. kv = mk_kv ns key vv \<and> in_range startKey endKey key \<and>
      GetState c L n ns key s = Inr (Some vv))) \<and>
    Next_n (kvScanner_Next c) (length kvs + k) sc =
      (if pageSize > 0 then map (\<lambda>kv. Inr (Some kv)) (take (nat pageSize) kvs) @
         replicate (length kvs - nat pageSize + k) (Inr None)
       else map (\<lambda>kv. Inr (Some kv)) kvs @ replicate k (Inr None))"
proof -
  let ?f = "\<lambda>key. constructLevelKey n (encodeDataKey ns key)"
  from scan_entries [OF assms(1,4)] obtain es where
    sc: "sc = newKVScanner ns (map (\<lambda>(key, b). (?f key, b)) es) pageSize"
    and sorted: "sorted_wrt (<) (map fst es)"
    and mem: "\<And>key b. (key, b) \<in> set es \<longleftrightarrow> in_range startKey endKey key \<and> contents s (?f key) = Some b"
    by blast
  define dec where "dec = (\<lambda>(key, b). mk_kv ns key (projr (decodeValue c b)))"
  have st: "GetState c L n ns key s = (case contents s (?f key) of None \<Rightarrow> Inr None
      | Some b \<Rightarrow> bindE (decodeValue c b) (\<lambda>vv. Inr (Some vv)))" for key
    using assms(5) [of key] goleveldb.get_contents [OF assms(1), of s "?f key"]
    by (auto simp: GetState_def DBHandle_Get_def DB_Get_def go_res)
  have vals: "\<exists>vv. decodeValue c b = Inr vv" if "(key, b) \<in> set es" for key b
    using assms(5) [of key] that by (auto simp: st mem go_res)
  have "map (decode_entry c ns) (map (\<lambda>(key, b). (?f key, b)) es) = map Inr (map dec es)"
    using vals by (fastforce simp: decode_entry_def Iterator_Key_def retrieveAppKey_construct [OF assms(2)]
        decode_encodeDataKey [OF assms(3)] dec_def)
  then have "scan_remaining c sc = map Inr (if pageSize > 0 then take (nat pageSize) (map dec es) else map dec es)"
    by (simp add: scan_remaining_def sc newKVScanner_def Let_def page_results del: map_map)
  note run = ks.Next_n_results [OF TrueI this, of "length es - length (if pageSize > 0 then take (nat pageSize) es else es) + k"]
  have "sorted_wrt (<) (map vkv_Key (map dec es))"
    using sorted by (simp add: dec_def case_prod_unfold comp_def)
  moreover have "kv \<in> set (map dec es) \<longleftrightarrow> (\<exists>key vv. kv = mk_kv ns key vv \<and> in_range startKey endKey key \<and>
      GetState c L n ns key s = Inr (Some vv))" for kv
  proof
    assume "kv \<in> set (map dec es)"
    then obtain key b where kb: "(key, b) \<in> set es" "kv = dec (key, b)" by auto
    with vals obtain vv where "decodeValue c b = Inr vv" by blast
    with kb mem st [of key] show "\<exists>key vv. kv = mk_kv ns key vv \<and> in_range startKey endKey key \<and>
        GetState c L n ns key s = Inr (Some vv)"
      by (intro exI [of _ key] exI [of _ vv]) (simp add: dec_def)
  next
    assume "\<exists>key vv. kv = mk_kv ns key vv \<and> in_range startKey endKey key \<and>
        GetState c L n ns key s = Inr (Some vv)"
    then obtain key vv b where "kv = mk_kv ns key vv" "in_range startKey endKey key"
      "contents s (?f key) = Some b" "decodeValue c b = Inr vv"
      using st by (auto simp: go_res split: option.splits)
    then have "(key, b) \<in> set es" "kv = dec (key, b)" using mem by (simp_all add: dec_def)
    then show "kv \<in> set (map dec es)" by force
  qed
  moreover have "Next_n (kvScanner_Next c) (length (map dec es) + k) sc =
      (if pageSize > 0 then map (\<lambda>kv. Inr (Some kv)) (take (nat pageSize) (map dec es)) @
         replicate (length (map dec es) - nat pageSize + k) (Inr None)
       else map (\<lambda>kv. Inr (Some kv)) (map dec es) @ replicate k (Inr None))"
    using run by (auto simp: min_def split: if_splits)
  ultimately show ?thesis by blast
qed

lemma sample_states:
  "\<exists>v. GetState sample_dbcodec mem_ops ''ch'' ''ns1'' key sample_committed = Inr v"
  using NewHeightFromBytes_ToBytes [OF ToBytes_opv]
  by (auto simp: GetState_def DBHandle_Get_def DB_Get_def mem_ops_def sample_committed_def
      sample_dbcodec_def sample_dbvalue_def decodeValue_def ToBytes_opv Let_def)

definition sample_scanner :: kvScanner where
  "sample_scanner = newKVScanner ''ns1'' [(constructLevelKey ''ch'' (encodeDataKey ''ns1'' ''a''), ''v'')] 0"

lemma sample_scan:
  "GetStateRangeScanIteratorWithPagination mem_ops ''ch'' ''ns1'' '''' '''' 0 sample_committed = Inr sample_scanner"
  by (simp add: RangeScan_iterator mem_ops_def sample_committed_def sample_scanner_def in_bounds_def end_key_def
      constructLevelKey_def encodeDataKey_def dataKeyPrefix_def nsKeySep_def savePointKey_def)

theorem range_scan_complete_witness:
  "\<exists>kvs. sorted_wrt (<) (map vkv_Key kvs) \<and>
    mk_kv ''ns1'' ''a'' \<lparr>vv_Value = Some ''1'', vv_Metadata = None, vv_Version = Some (NewHeight 7 1)\<rparr> \<in> set kvs \<and>
    Next_n (kvScanner_Next sample_dbcodec) (length kvs + 1) sample_scanner =
      map (\<lambda>kv. Inr (Some kv)) kvs @ [Inr None]"
proof -
  have "GetState sample_dbcodec mem_ops ''ch'' ''ns1'' ''a'' sample_committed =
      Inr (Some \<lparr>vv_Value = Some ''1'', vv_Metadata = None, vv_Version = Some (NewHeight 7 1)\<rparr>)"
    using NewHeightFromBytes_ToBytes [OF ToBytes_opv, of "NewHeight 7 1"]
    by (simp add: GetState_def DBHandle_Get_def DB_Get_def mem_ops_def sample_committed_def
        sample_dbcodec_def sample_dbvalue_def decodeValue_def ToBytes_opv)
  moreover have "in_range '''' '''' ''a''" by (simp add: in_range_def)
  ultimately show ?thesis
    using range_scan_complete [OF mem.goleveldb_axioms sample_batch_ok(4,3) sample_scan sample_states, of 1]
    by auto
qed

section \<open>The state database as a versioned database\<close>

definition leveldb_VersionedDB :: "dbvalue_codec \<Rightarrow> 's goleveldb_ops \<Rightarrow> gostring \<Rightarrow> 's VersionedDB" where
  "leveldb_VersionedDB c L dbName =
     \<lparr>vdb_GetState = (\<lambda>s ns key. GetState c L dbName ns key s),
      vdb_GetVersion = (\<lambda>s ns key. GetVersion c L dbName ns key s),
      vdb_GetStateMultipleKeys = (\<lambda>s ns keys. GetStateMultipleKeys c L dbName ns keys s),
      vdb_GetStateRangeScanIterator = (\<lambda>s ns startKey endKey.
        bindE (GetStateRangeScanIterator L dbName ns startKey endKey s) (\<lambda>scanner. Inr (scan_remaining c scanner))),
      vdb_GetStateRangeScanIteratorWithPagination = (\<lambda>s ns startKey endKey pageSize.
        bindE (GetStateRangeScanIteratorWithPagination L dbName ns startKey endKey pageSize s)
          (\<lambda>scanner. Inr (scan_remaining c scanner))),
      vdb_ApplyUpdates = ApplyUpdates c L dbName,
      vdb_GetLatestSavePoint = GetLatestSavePoint L dbName,
      vdb_ValidateKeyValue = ValidateKeyValue,
      vdb_BytesKeySupported = True,
      vdb_BulkOptimizable = None\<rparr>"

text \<open>What the database holds: the decoded values of the data keys of the named leveldb.\<close>

definition level_contents ::
  "dbvalue_codec \<Rightarrow> gostring \<Rightarrow> (bytes \<Rightarrow> bytes option) \<Rightarrow> gostring \<Rightarrow> gostring \<Rightarrow> VersionedValue option" where
  "level_contents c n store ns key =
     (case store (constructLevelKey n (encodeDataKey ns key)) of None \<Rightarrow> None
      | Some b \<Rightarrow> (case decodeValue c b of Inl _ \<Rightarrow> None | Inr vv \<Rightarrow> Some vv))"

lemma level_contents_Some:
  "level_contents c n store ns key = Some vv \<longleftrightarrow>
     (\<exists>b. store (constructLevelKey n (encodeDataKey ns key)) = Some b \<and> decodeValue c b = Inr vv)"
  by (auto simp: level_contents_def split: option.splits sum.splits)

definition level_stored :: "VersionedValue \<Rightarrow> VersionedValue" where
  "level_stored vv = (if VersionedValue_IsDelete vv then vv else stored vv)"

lemma decodeValue_not_nil: "decodeValue c b = Inr vv \<Longrightarrow> vv_Value vv \<noteq> None"
  by (auto simp: decodeValue_def go_res Let_def split: option.splits)

locale state_leveldb = goleveldb L contents
  for L :: "'s goleveldb_ops" and contents +
  fixes c :: dbvalue_codec and n :: gostring
  assumes faithful: "dbvalue_faithful c" and name: "no_NUL n"
begin

lemma GetState_level_contents:
  assumes "GetState c L n ns key s = Inr v"
  shows "v = level_contents c n (contents s) ns key"
proof -
  from assms obtain x where x: "ldb_Get L s (constructLevelKey n (encodeDataKey ns key)) = Inr x"
    "(case x of None \<Rightarrow> Inr None | Some b \<Rightarrow> bindE (decodeValue c b) (\<lambda>vv. Inr (Some vv))) = Inr v"
    by (auto simp: GetState_def DBHandle_Get_def DB_Get_def go_res)
  then show ?thesis
    using get_contents [OF x(1)] by (auto simp: level_contents_def go_res split: option.splits)
qed

lemma ApplyUpdates_level_contents:
  assumes "ApplyUpdates c L n batch height s = Inr s'" and "wf_batch batch"
    and "batch_namespaces no_NUL batch" and "no_NUL ns"
  shows "level_contents c n (contents s') ns key =
    overlay (map_option level_stored (UpdateBatch_Get batch ns key)) (level_contents c n (contents s) ns key)"
proof -
  have ok: "ns_ok batch" using assms(3) by (simp add: batch_namespaces_def ns_ok_def)
  note st = commit_contents [OF goleveldb_axioms assms(2) ok assms(1)] commit_state [OF assms(2) ok assms(4)]
  show ?thesis
  proof (cases "UpdateBatch_Get batch ns key")
    case None
    then show ?thesis using st by (simp add: level_contents_def)
  next
    case (Some vv)
    then have "encodable c vv" using ApplyUpdates_write [OF assms(2,1)] by blast
    with Some show ?thesis
      using st decode_encodeValue [OF faithful, of vv]
      by (auto simp: level_contents_def level_stored_def encodable_def VersionedValue_IsDelete_def stored_def)
  qed
qed

lemma scan_level_contents:
  assumes "bindE (GetStateRangeScanIterator L n ns startKey endKey s) (\<lambda>scanner. Inr (scan_remaining c scanner)) =
      Inr (map Inr kvs)" and "no_NUL ns"
  shows "sorted_wrt (<) (map vkv_Key kvs)"
    and "kv \<in> set kvs \<longleftrightarrow> (\<exists>key vv. kv = mk_kv ns key vv \<and> in_range startKey endKey key \<and>
      level_contents c n (contents s) ns key = Some vv)"
proof -
  let ?f = "\<lambda>key. constructLevelKey n (encodeDataKey ns key)"
  from assms(1) obtain sc where sc: "GetStateRangeScanIteratorWithPagination L n ns startKey endKey 0 s = Inr sc"
    and rem: "scan_remaining c sc = map Inr kvs"
    by (auto simp: GetStateRangeScanIterator_def go_res)
  from scan_entries [OF goleveldb_axioms sc] obtain es where
    es: "sc = newKVScanner ns (map (\<lambda>(key, b). (?f key, b)) es) 0"
    and sorted: "sorted_wrt (<) (map fst es)"
    and mem: "\<And>key b. (key, b) \<in> set es \<longleftrightarrow> in_range startKey endKey key \<and> contents s (?f key) = Some b"
    by blast
  have entry: "decode_entry c ns (?f key, b) = bindE (decodeValue c b) (\<lambda>vv. Inr (mk_kv ns key vv))" for key b
    by (simp add: decode_entry_def Iterator_Key_def retrieveAppKey_construct [OF name]
        decode_encodeDataKey [OF assms(2)])
  have kvs: "map Inr kvs = map (\<lambda>(key, b). bindE (decodeValue c b) (\<lambda>vv. Inr (mk_kv ns key vv))) es"
    using rem by (simp add: es scan_remaining_def newKVScanner_def Let_def case_prod_unfold entry comp_def)
  have dec: "\<exists>vv. decodeValue c b = Inr vv" if "(key, b) \<in> set es" for key b
  proof -
    have "bindE (decodeValue c b) (\<lambda>vv. Inr (mk_kv ns key vv)) \<in> set (map Inr kvs)"
      unfolding kvs using that by force
    then show ?thesis by (auto simp: go_res dest!: sym [of "Inr _" "bindE _ _"])
  qed
  have "(map Inr kvs :: VersionedKV res list) = map Inr (map (\<lambda>(key, b). mk_kv ns key (projr (decodeValue c b))) es)"
    unfolding kvs using dec by fastforce
  then have kvs': "kvs = map (\<lambda>(key, b). mk_kv ns key (projr (decodeValue c b))) es"
    by (simp only: inj_map_eq_map [OF inj_Inr])
  show "sorted_wrt (<) (map vkv_Key kvs)"
    using sorted by (simp add: kvs' case_prod_unfold comp_def)
  have "kv \<in> set kvs \<longleftrightarrow> (\<exists>key b vv. kv = mk_kv ns key vv \<and> (key, b) \<in> set es \<and> decodeValue c b = Inr vv)"
  proof
    assume "kv \<in> set kvs"
    then obtain key b where kb: "(key, b) \<in> set es" "kv = mk_kv ns key (projr (decodeValue c b))"
      unfolding kvs' by auto
    with dec show "\<exists>key b vv. kv = mk_kv ns key vv \<and> (key, b) \<in> set es \<and> decodeValue c b = Inr vv" by force
  next
    assume "\<exists>key b vv. kv = mk_kv ns key vv \<and> (key, b) \<in> set es \<and> decodeValue c b = Inr vv"
    then show "kv \<in> set kvs" unfolding kvs' by force
  qed
  then show "kv \<in> set kvs \<longleftrightarrow> (\<exists>key vv. kv = mk_kv ns key vv \<and> in_range startKey endKey key \<and>
      level_contents c n (contents s) ns key = Some vv)"
    unfolding mem level_contents_Some by blast
qed

text \<open>Where every value can be decoded, a scan gives no error.\<close>

lemma scan_answers:
  assumes "GetStateRangeScanIterator L n ns startKey endKey s = Inr sc" and "no_NUL ns"
    and "\<And>key. \<exists>v. GetState c L n ns key s = Inr v"
  shows "\<exists>kvs. scan_remaining c sc = map Inr kvs"
proof -
  let ?f = "\<lambda>key. constructLevelKey n (encodeDataKey ns key)"
  from assms(1) have sc: "GetStateRangeScanIteratorWithPagination L n ns startKey endKey 0 s = Inr sc"
    by (simp add: GetStateRangeScanIterator_def)
  from scan_entries [OF goleveldb_axioms sc] obtain es where
    es: "sc = newKVScanner ns (map (\<lambda>(key, b). (?f key, b)) es) 0"
    and mem: "\<And>key b. (key, b) \<in> set es \<longleftrightarrow> in_range startKey endKey key \<and> contents s (?f key) = Some b"
    by blast
  have dec: "decodeValue c b = Inr (projr (decodeValue c b))" if "(key, b) \<in> set es" for key b
  proof -
    from assms(3) [of key] obtain v x where x: "ldb_Get L s (?f key) = Inr x"
      "(case x of None \<Rightarrow> Inr None | Some b \<Rightarrow> bindE (decodeValue c b) (\<lambda>vv. Inr (Some vv))) = (Inr v :: VersionedValue option res)"
      by (auto simp: GetState_def DBHandle_Get_def DB_Get_def go_res)
    with get_contents [OF x(1)] mem [of key b] that show ?thesis by (auto simp: go_res)
  qed
  have "decode_entry c ns (?f key, b) = bindE (decodeValue c b) (\<lambda>vv. Inr (mk_kv ns key vv))" for key b
    by (simp add: decode_entry_def Iterator_Key_def retrieveAppKey_construct [OF name] decode_encodeDataKey [OF assms(2)])
  then have "scan_remaining c sc = map (\<lambda>(key, b). bindE (decodeValue c b) (\<lambda>vv. Inr (mk_kv ns key vv))) es"
    by (simp add: es scan_remaining_def newKVScanner_def Let_def case_prod_unfold comp_def)
  also have "\<dots> = map Inr (map (\<lambda>(key, b). mk_kv ns key (projr (decodeValue c b))) es)"
    using dec by (auto simp: case_prod_unfold) (metis bindE.simps(2) prod.collapse)
  finally show ?thesis by blast
qed

end

sublocale state_leveldb \<subseteq> versioned_db "leveldb_VersionedDB c L n" "\<lambda>s. level_contents c n (contents s)"
  no_NUL level_stored
proof
  fix s ns key v h startKey endKey kvs kv batch height s' and vv :: VersionedValue
  show "v = level_contents c n (contents s) ns key" if "vdb_GetState (leveldb_VersionedDB c L n) s ns key = Inr v"
    using that GetState_level_contents by (simp add: leveldb_VersionedDB_def)
  show "h = Option.bind (level_contents c n (contents s) ns key) vv_Version"
    if "vdb_GetVersion (leveldb_VersionedDB c L n) s ns key = Inr h"
    using that GetState_level_contents [of ns key s]
    by (cases "GetState c L n ns key s"; cases "level_contents c n (contents s) ns key")
      (auto simp: leveldb_VersionedDB_def GetVersion_def)
  show "sorted_wrt (<) (map vkv_Key kvs)"
    if "vdb_GetStateRangeScanIterator (leveldb_VersionedDB c L n) s ns startKey endKey = Inr (map Inr kvs)" "no_NUL ns"
    using that scan_level_contents(1) by (simp add: leveldb_VersionedDB_def)
  show "kv \<in> set kvs \<longleftrightarrow> (\<exists>key vv. kv = mk_kv ns key vv \<and> in_range startKey endKey key \<and>
      level_contents c n (contents s) ns key = Some vv)"
    if "vdb_GetStateRangeScanIterator (leveldb_VersionedDB c L n) s ns startKey endKey = Inr (map Inr kvs)" "no_NUL ns"
    using that scan_level_contents(2) by (simp add: leveldb_VersionedDB_def)
  show "level_contents c n (contents s') ns key =
      overlay (map_option level_stored (UpdateBatch_Get batch ns key)) (level_contents c n (contents s) ns key)"
    if "vdb_ApplyUpdates (leveldb_VersionedDB c L n) batch height s = Inr s'" "wf_batch batch"
      "batch_namespaces no_NUL batch" "no_NUL ns"
    using that ApplyUpdates_level_contents by (simp add: leveldb_VersionedDB_def)
  show "sp' = (case height of None \<Rightarrow> sp | Some h \<Rightarrow> Some h)"
    if "vdb_ApplyUpdates (leveldb_VersionedDB c L n) batch height s = Inr s'" "wf_batch batch"
      "batch_namespaces no_NUL batch" "vdb_GetLatestSavePoint (leveldb_VersionedDB c L n) s = Inr sp"
      "vdb_GetLatestSavePoint (leveldb_VersionedDB c L n) s' = Inr sp'" for sp sp'
    using that commit_GetLatestSavePoint [OF goleveldb_axioms, of batch c n height s s' sp sp']
    by (simp add: leveldb_VersionedDB_def batch_namespaces_def ns_ok_def)
  show "vv_Value vv \<noteq> None" if "level_contents c n (contents s) ns key = Some vv"
    using that decodeValue_not_nil by (auto simp: level_contents_def split: option.splits sum.splits)
  show "vv_Metadata (level_stored vv) = None" if "vv_Metadata vv = None"
    using that by (simp add: level_stored_def stored_def)
  show "content (vv_Metadata (level_stored vv)) = content (vv_Metadata vv)"
    by (cases "vv_Metadata vv") (simp_all add: level_stored_def stored_def)
qed (simp_all add: level_stored_def stored_def VersionedValue_IsDelete_def leveldb_VersionedDB_def)

interpretation sld: state_leveldb mem_ops map_of sample_dbcodec "''ch''"
  by unfold_locales (simp_all add: sample_dbcodec_faithful sample_batch_ok(4))

end
