(* ===== verification/PrivacyState.thy ===== *)
theory PrivacyState
  imports StateLevelDB
begin

text \<open>
  The state database with private data
  (core/ledger/kvledger/txmgmt/privacyenabledstate/types.go, db.go and optimization.go): batches with
  a collection level, the namespaces private data and its hashes are kept under, the commit that
  merges all three kinds of updates into one batch, and the hint that spares reads of metadata that
  was never set. Shown: the commit updates public data, private data and hashes independently of
  each other, and the metadata hint never changes what a metadata read returns, before or after a
  restart.
\<close>

section \<open>Update batches with collections\<close>

record PvtdataCompositeKey =
  pk_Namespace :: gostring
  pk_CollectionName :: gostring
  pk_Key :: gostring

record HashedCompositeKey =
  hk_Namespace :: gostring
  hk_CollectionName :: gostring
  hk_KeyHash :: gostring

text \<open>The batch of a namespace is an update batch whose namespaces are the collections.\<close>

type_synonym NsBatch = UpdateBatch
type_synonym UpdateMap = "(gostring, NsBatch) gomap"

record PrivacyUpdateBatch =
  PubUpdates :: UpdateBatch
  HashUpdates :: UpdateMap
  PvtUpdates :: UpdateMap

definition NewPrivacyUpdateBatch :: PrivacyUpdateBatch where
  "NewPrivacyUpdateBatch = \<lparr>PubUpdates = NewUpdateBatch, HashUpdates = [], PvtUpdates = []\<rparr>"

definition UpdateMap_IsEmpty :: "UpdateMap \<Rightarrow> bool" where
  "UpdateMap_IsEmpty b = (length b = 0)"

definition getOrCreateNsBatch :: "UpdateMap \<Rightarrow> gostring \<Rightarrow> NsBatch" where
  "getOrCreateNsBatch b ns = (case map_of b ns of None \<Rightarrow> NewUpdateBatch | Some batch \<Rightarrow> batch)"

definition UpdateMap_PutValAndMetadata ::
  "gostring \<Rightarrow> gostring \<Rightarrow> gostring \<Rightarrow> gobytes \<Rightarrow> gobytes \<Rightarrow> Height option \<Rightarrow> UpdateMap \<Rightarrow> UpdateMap res" where
  "UpdateMap_PutValAndMetadata ns coll key val metadata ver b =
     bindE (PutValAndMetadata coll key val metadata ver (getOrCreateNsBatch b ns)) (\<lambda>batch.
       Inr (AList.update ns batch b))"

definition UpdateMap_Put ::
  "gostring \<Rightarrow> gostring \<Rightarrow> gostring \<Rightarrow> gobytes \<Rightarrow> Height option \<Rightarrow> UpdateMap \<Rightarrow> UpdateMap res" where
  "UpdateMap_Put ns coll key val ver b = UpdateMap_PutValAndMetadata ns coll key val None ver b"

definition UpdateMap_Delete ::
  "gostring \<Rightarrow> gostring \<Rightarrow> gostring \<Rightarrow> Height option \<Rightarrow> UpdateMap \<Rightarrow> UpdateMap" where
  "UpdateMap_Delete ns coll key ver b =
     AList.update ns (UpdateBatch_Delete coll key ver (getOrCreateNsBatch b ns)) b"

definition UpdateMap_Get :: "UpdateMap \<Rightarrow> gostring \<Rightarrow> gostring \<Rightarrow> gostring \<Rightarrow> VersionedValue option" where
  "UpdateMap_Get b ns coll key =
     (case map_of b ns of None \<Rightarrow> None | Some nsPvtBatch \<Rightarrow> UpdateBatch_Get nsPvtBatch coll key)"

definition UpdateMap_Contains :: "UpdateMap \<Rightarrow> gostring \<Rightarrow> gostring \<Rightarrow> gostring \<Rightarrow> bool" where
  "UpdateMap_Contains b ns coll key =
     (case map_of b ns of None \<Rightarrow> False | Some nsBatch \<Rightarrow> UpdateBatch_Exists nsBatch coll key)"

definition GetCollectionNames :: "NsBatch \<Rightarrow> gostring list" where
  "GetCollectionNames nsb = GetUpdatedNamespaces nsb"

definition GetCollectionUpdates :: "NsBatch \<Rightarrow> gostring \<Rightarrow> (gostring, VersionedValue) gomap" where
  "GetCollectionUpdates nsb collName = GetUpdates nsb collName"

definition UpdateMap_GetUpdatedNamespaces :: "UpdateMap \<Rightarrow> gostring list" where
  "UpdateMap_GetUpdatedNamespaces b = map fst b"

text \<open>The batch of hashes takes the key as bytes; a nil slice converts to the empty string.\<close>

definition Hashed_Contains :: "UpdateMap \<Rightarrow> gostring \<Rightarrow> gostring \<Rightarrow> gobytes \<Rightarrow> bool" where
  "Hashed_Contains h ns coll keyHash = UpdateMap_Contains h ns coll (content keyHash)"

definition PutValHashAndMetadata ::
  "gostring \<Rightarrow> gostring \<Rightarrow> gobytes \<Rightarrow> gobytes \<Rightarrow> gobytes \<Rightarrow> Height option \<Rightarrow> UpdateMap \<Rightarrow> UpdateMap res" where
  "PutValHashAndMetadata ns coll key val metadata ver h =
     UpdateMap_PutValAndMetadata ns coll (content key) val metadata ver h"

definition Hashed_Put ::
  "gostring \<Rightarrow> gostring \<Rightarrow> gobytes \<Rightarrow> gobytes \<Rightarrow> Height option \<Rightarrow> UpdateMap \<Rightarrow> UpdateMap res" where
  "Hashed_Put ns coll key val ver h = PutValHashAndMetadata ns coll key val None ver h"

definition Hashed_Delete :: "gostring \<Rightarrow> gostring \<Rightarrow> gobytes \<Rightarrow> Height option \<Rightarrow> UpdateMap \<Rightarrow> UpdateMap" where
  "Hashed_Delete ns coll key ver h = UpdateMap_Delete ns coll (content key) ver h"

definition Hashed_ToCompositeKeyMap :: "UpdateMap \<Rightarrow> (HashedCompositeKey, VersionedValue) gomap" where
  "Hashed_ToCompositeKeyMap h =
     fold (\<lambda>(ns, nsBatch). fold (\<lambda>coll. fold (\<lambda>(key, vv).
         AList.update \<lparr>hk_Namespace = ns, hk_CollectionName = coll, hk_KeyHash = key\<rparr> vv)
       (GetUpdates nsBatch coll)) (GetCollectionNames nsBatch)) h []"

definition Pvt_ToCompositeKeyMap :: "UpdateMap \<Rightarrow> (PvtdataCompositeKey, VersionedValue) gomap" where
  "Pvt_ToCompositeKeyMap p =
     fold (\<lambda>(ns, nsBatch). fold (\<lambda>coll. fold (\<lambda>(key, vv).
         AList.update \<lparr>pk_Namespace = ns, pk_CollectionName = coll, pk_Key = key\<rparr> vv)
       (GetUpdates nsBatch coll)) (GetCollectionNames nsBatch)) p []"

section \<open>Derived namespaces\<close>

definition nsJoiner :: gostring where "nsJoiner = ''$$''"
definition pvtDataPrefix :: gostring where "pvtDataPrefix = ''p''"
definition hashDataPrefix :: gostring where "hashDataPrefix = ''h''"

definition derivePvtDataNs :: "gostring \<Rightarrow> gostring \<Rightarrow> gostring" where
  "derivePvtDataNs namespace collection = namespace @ nsJoiner @ pvtDataPrefix @ collection"

definition deriveHashedDataNs :: "gostring \<Rightarrow> gostring \<Rightarrow> gostring" where
  "deriveHashedDataNs namespace collection = namespace @ nsJoiner @ hashDataPrefix @ collection"

text \<open>\<open>strings.Split\<close> with a separator that is not empty, and \<open>strings.Contains\<close>.\<close>

function strings_Split :: "gostring \<Rightarrow> gostring \<Rightarrow> gostring \<Rightarrow> gostring list" where
  "strings_Split acc sep s =
     (if s = [] \<or> sep = [] then [rev acc @ s]
      else if take (length sep) s = sep then rev acc # strings_Split [] sep (drop (length sep) s)
      else strings_Split (hd s # acc) sep (tl s))"
  by pat_completeness auto
termination
  by (relation "measure (\<lambda>(_, _, s). length s)") auto

declare strings_Split.simps [simp del]

definition strings_Contains :: "gostring \<Rightarrow> gostring \<Rightarrow> bool" where
  "strings_Contains s sub = list_ex (\<lambda>i. take (length sub) (drop i s) = sub) [0..<Suc (length s)]"

definition decodeHashedDataNsColl :: "gostring \<Rightarrow> (gostring \<times> gostring) res" where
  "decodeHashedDataNsColl hashedDataNs =
     (let strs = strings_Split [] (nsJoiner @ hashDataPrefix) hashedDataNs in
      if length strs \<noteq> 2 then Inl (Error ''not a valid hashedDataNs'') else Inr (strs ! 0, strs ! 1))"

definition isPvtdataNs :: "gostring \<Rightarrow> bool" where
  "isPvtdataNs namespace = strings_Contains namespace (nsJoiner @ pvtDataPrefix)"

definition isHashedDataNs :: "gostring \<Rightarrow> bool" where
  "isHashedDataNs namespace = strings_Contains namespace (nsJoiner @ hashDataPrefix)"

text \<open>\<open>base64.StdEncoding.EncodeToString\<close>.\<close>

definition base64_alphabet :: gostring where
  "base64_alphabet = ''ABCDEFGHIJKLMNOPQRSTUVWXYZabcdefghijklmnopqrstuvwxyz0123456789+/''"

definition base64_digit :: "nat \<Rightarrow> char" where
  "base64_digit n = base64_alphabet ! n"

fun base64_EncodeToString :: "bytes \<Rightarrow> gostring" where
  "base64_EncodeToString [] = []"
| "base64_EncodeToString [a] =
     (let a = of_char a :: nat in
      [base64_digit (a div 4), base64_digit (a mod 4 * 16), CHR ''='', CHR ''=''])"
| "base64_EncodeToString [a, b] =
     (let a = of_char a :: nat; b = of_char b :: nat in
      [base64_digit (a div 4), base64_digit (a mod 4 * 16 + b div 16), base64_digit (b mod 16 * 4), CHR ''=''])"
| "base64_EncodeToString (a # b # c # r) =
     (let a = of_char a :: nat; b = of_char b :: nat; c = of_char c :: nat in
      [base64_digit (a div 4), base64_digit (a mod 4 * 16 + b div 16),
       base64_digit (b mod 16 * 4 + c div 64), base64_digit (c mod 64)]) @ base64_EncodeToString r"

section \<open>The metadata hint\<close>

record 'b metadataHint =
  mh_cache :: "(gostring, bool) gomap"
  mh_leveldb :: "'b goleveldb_ops"
  mh_dbName :: gostring
  mh_bookkeeper :: 'b

definition newMetadataHint :: "'b goleveldb_ops \<Rightarrow> gostring \<Rightarrow> 'b \<Rightarrow> 'b metadataHint res" where
  "newMetadataHint L dbName bookkeeper =
     bindE (DBHandle_GetIterator L dbName None None bookkeeper) (\<lambda>itr.
     bindE (foldE (\<lambda>e cache. bindE (Iterator_Key e) (\<lambda>namespace. Inr (AList.update namespace True cache))) itr [])
       (\<lambda>cache. Inr \<lparr>mh_cache = cache, mh_leveldb = L, mh_dbName = dbName, mh_bookkeeper = bookkeeper\<rparr>))"

definition metadataEverUsedFor :: "'b metadataHint \<Rightarrow> gostring \<Rightarrow> bool" where
  "metadataEverUsedFor h namespace = (map_of (mh_cache h) namespace = Some True)"

definition filterNamespacesThatHasMetadata :: "PrivacyUpdateBatch \<Rightarrow> (gostring, bool) gomap" where
  "filterNamespacesThatHasMetadata updates =
     fold (\<lambda>(ns, nsBatch). fold (\<lambda>coll. fold (\<lambda>(_, vv) namespaces.
         if vv_Metadata vv = None then namespaces else AList.update ns True namespaces)
       (GetUpdates nsBatch coll)) (GetCollectionNames nsBatch)) (HashUpdates updates)
     (fold (\<lambda>ns. fold (\<lambda>(_, vv) namespaces.
         if vv_Metadata vv = None then namespaces else AList.update ns True namespaces)
       (GetUpdates (PubUpdates updates) ns)) (GetUpdatedNamespaces (PubUpdates updates)) [])"

text \<open>The loop over the namespaces updates the cache and the batch; an error leaves no state.\<close>

definition setMetadataUsedFlag :: "PrivacyUpdateBatch \<Rightarrow> 'b metadataHint \<Rightarrow> 'b metadataHint res" where
  "setMetadataUsedFlag updates h =
     bindE (foldE (\<lambda>(ns, _) (cache, batch).
              if map_of cache ns = Some True then Inr (cache, batch)
              else bindE (LevelBatch_Put ns (Some []) batch) (\<lambda>batch'. Inr (AList.update ns True cache, batch')))
            (filterNamespacesThatHasMetadata updates) (mh_cache h, DBHandle_NewUpdateBatch (mh_dbName h)))
       (\<lambda>(cache, batch). bindE (DBHandle_WriteBatch (mh_leveldb h) batch (mh_bookkeeper h)) (\<lambda>bookkeeper.
          Inr (h\<lparr>mh_cache := cache, mh_bookkeeper := bookkeeper\<rparr>)))"

definition importNamespacesThatUseMetadata :: "gostring list \<Rightarrow> 'b metadataHint \<Rightarrow> 'b metadataHint res" where
  "importNamespacesThatUseMetadata namespaces h =
     bindE (foldE (\<lambda>ns batch. LevelBatch_Put ns (Some []) batch) namespaces (DBHandle_NewUpdateBatch (mh_dbName h)))
       (\<lambda>batch. bindE (DBHandle_WriteBatch (mh_leveldb h) batch (mh_bookkeeper h)) (\<lambda>bookkeeper.
          Inr (h\<lparr>mh_bookkeeper := bookkeeper\<rparr>)))"

section \<open>The database\<close>

text \<open>The wrapped database with its state, and the hint.\<close>

record ('s, 'b) DB =
  db_VersionedDB :: "'s VersionedDB"
  db_state :: 's
  db_metadataHint :: "'b metadataHint"

abbreviation db_GetState :: "('s, 'b) DB \<Rightarrow> gostring \<Rightarrow> gostring \<Rightarrow> VersionedValue option res" where
  "db_GetState db ns key \<equiv> vdb_GetState (db_VersionedDB db) (db_state db) ns key"

abbreviation db_GetVersion :: "('s, 'b) DB \<Rightarrow> gostring \<Rightarrow> gostring \<Rightarrow> Height option res" where
  "db_GetVersion db ns key \<equiv> vdb_GetVersion (db_VersionedDB db) (db_state db) ns key"

definition NewDB :: "'s VersionedDB \<Rightarrow> 's \<Rightarrow> 'b metadataHint \<Rightarrow> ('s, 'b) DB" where
  "NewDB vdb s hint = \<lparr>db_VersionedDB = vdb, db_state = s, db_metadataHint = hint\<rparr>"

definition IsBulkOptimizable :: "('s, 'b) DB \<Rightarrow> bool" where
  "IsBulkOptimizable s = (vdb_BulkOptimizable (db_VersionedDB s) \<noteq> None)"

text \<open>The key a hash is stored under: base64 where the database does not take arbitrary bytes.\<close>

definition keyHashStr :: "('s, 'b) DB \<Rightarrow> bytes \<Rightarrow> gostring" where
  "keyHashStr s keyHash =
     (if \<not> vdb_BytesKeySupported (db_VersionedDB s) then base64_EncodeToString keyHash else keyHash)"

definition LoadCommittedVersionsOfPubAndHashedKeys ::
  "CompositeKey list \<Rightarrow> HashedCompositeKey list \<Rightarrow> ('s, 'b) DB \<Rightarrow> ('s, 'b) DB res" where
  "LoadCommittedVersionsOfPubAndHashedKeys pubKeys hashedKeys s =
     (case vdb_BulkOptimizable (db_VersionedDB s) of None \<Rightarrow> Inr s
      | Some bulkOptimizable \<Rightarrow>
          (let allKeys = pubKeys @ map (\<lambda>key. \<lparr>ck_Namespace = deriveHashedDataNs (hk_Namespace key) (hk_CollectionName key),
                                               ck_Key = keyHashStr s (hk_KeyHash key)\<rparr>) hashedKeys in
           bindE (bo_LoadCommittedVersions bulkOptimizable allKeys (db_state s)) (\<lambda>st. Inr (s\<lparr>db_state := st\<rparr>))))"

definition ClearCachedVersions :: "('s, 'b) DB \<Rightarrow> ('s, 'b) DB" where
  "ClearCachedVersions s =
     (case vdb_BulkOptimizable (db_VersionedDB s) of None \<Rightarrow> s
      | Some bulkOptimizable \<Rightarrow> s\<lparr>db_state := bo_ClearCachedVersions bulkOptimizable (db_state s)\<rparr>)"

definition GetPrivateData :: "('s, 'b) DB \<Rightarrow> gostring \<Rightarrow> gostring \<Rightarrow> gostring \<Rightarrow> VersionedValue option res" where
  "GetPrivateData s namespace collection key = db_GetState s (derivePvtDataNs namespace collection) key"

definition GetValueHash :: "('s, 'b) DB \<Rightarrow> gostring \<Rightarrow> gostring \<Rightarrow> bytes \<Rightarrow> VersionedValue option res" where
  "GetValueHash s namespace collection keyHash =
     db_GetState s (deriveHashedDataNs namespace collection) (keyHashStr s keyHash)"

definition GetPrivateDataHash ::
  "(bytes \<Rightarrow> bytes) \<Rightarrow> ('s, 'b) DB \<Rightarrow> gostring \<Rightarrow> gostring \<Rightarrow> gostring \<Rightarrow> VersionedValue option res" where
  "GetPrivateDataHash computeHash s namespace collection key = GetValueHash s namespace collection (computeHash key)"

definition GetKeyHashVersion :: "('s, 'b) DB \<Rightarrow> gostring \<Rightarrow> gostring \<Rightarrow> bytes \<Rightarrow> Height option res" where
  "GetKeyHashVersion s namespace collection keyHash =
     db_GetVersion s (deriveHashedDataNs namespace collection) (keyHashStr s keyHash)"

definition GetCachedKeyHashVersion :: "('s, 'b) DB \<Rightarrow> gostring \<Rightarrow> gostring \<Rightarrow> bytes \<Rightarrow> Height option \<times> bool" where
  "GetCachedKeyHashVersion s namespace collection keyHash =
     (case vdb_BulkOptimizable (db_VersionedDB s) of None \<Rightarrow> (None, False)
      | Some bulkOptimizable \<Rightarrow> bo_GetCachedVersion bulkOptimizable (db_state s)
          (deriveHashedDataNs namespace collection) (keyHashStr s keyHash))"

definition GetPrivateDataMultipleKeys ::
  "('s, 'b) DB \<Rightarrow> gostring \<Rightarrow> gostring \<Rightarrow> gostring list \<Rightarrow> VersionedValue option list res" where
  "GetPrivateDataMultipleKeys s namespace collection keys =
     vdb_GetStateMultipleKeys (db_VersionedDB s) (db_state s) (derivePvtDataNs namespace collection) keys"

definition GetPrivateDataRangeScanIterator ::
  "('s, 'b) DB \<Rightarrow> gostring \<Rightarrow> gostring \<Rightarrow> gostring \<Rightarrow> gostring \<Rightarrow> ResultsIterator res" where
  "GetPrivateDataRangeScanIterator s namespace collection startKey endKey =
     vdb_GetStateRangeScanIterator (db_VersionedDB s) (db_state s) (derivePvtDataNs namespace collection) startKey endKey"

definition PrivacyDB_ApplyUpdates :: "UpdateBatch \<Rightarrow> Height option \<Rightarrow> ('s, 'b) DB \<Rightarrow> ('s, 'b) DB res" where
  "PrivacyDB_ApplyUpdates batch height s =
     Inl (Error ''this function should not be invoked on this type. Please invoke function ApplyPrivacyAwareUpdates'')"

definition addPvtUpdates :: "UpdateMap \<Rightarrow> UpdateBatch \<Rightarrow> UpdateBatch" where
  "addPvtUpdates pvtUpdateBatch =
     fold (\<lambda>(ns, nsBatch). fold (\<lambda>coll. fold (\<lambda>(key, vv). UpdateBatch_Update (derivePvtDataNs ns coll) key vv)
       (GetUpdates nsBatch coll)) (GetCollectionNames nsBatch)) pvtUpdateBatch"

definition addHashedUpdates :: "UpdateMap \<Rightarrow> bool \<Rightarrow> UpdateBatch \<Rightarrow> UpdateBatch" where
  "addHashedUpdates hashedUpdateBatch base64Key =
     fold (\<lambda>(ns, nsBatch). fold (\<lambda>coll. fold (\<lambda>(key, vv).
         UpdateBatch_Update (deriveHashedDataNs ns coll) (if base64Key then base64_EncodeToString key else key) vv)
       (GetUpdates nsBatch coll)) (GetCollectionNames nsBatch)) hashedUpdateBatch"

text \<open>
  The combined batch is the public batch itself, so the hint is set from a batch whose public part
  already holds the private and hashed updates.
\<close>

definition ApplyPrivacyAwareUpdates ::
  "PrivacyUpdateBatch \<Rightarrow> Height option \<Rightarrow> ('s, 'b) DB \<Rightarrow> ('s, 'b) DB res" where
  "ApplyPrivacyAwareUpdates updates height s =
     (let combinedUpdates = addHashedUpdates (HashUpdates updates) (\<not> vdb_BytesKeySupported (db_VersionedDB s))
            (addPvtUpdates (PvtUpdates updates) (PubUpdates updates)) in
      bindE (setMetadataUsedFlag (updates\<lparr>PubUpdates := combinedUpdates\<rparr>) (db_metadataHint s)) (\<lambda>hint.
      bindE (vdb_ApplyUpdates (db_VersionedDB s) combinedUpdates height (db_state s)) (\<lambda>st.
        Inr (s\<lparr>db_metadataHint := hint, db_state := st\<rparr>))))"

definition GetStateMetadata :: "('s, 'b) DB \<Rightarrow> gostring \<Rightarrow> gostring \<Rightarrow> gobytes res" where
  "GetStateMetadata s namespace key =
     (if \<not> metadataEverUsedFor (db_metadataHint s) namespace then Inr None
      else bindE (db_GetState s namespace key) (\<lambda>vv.
             case vv of None \<Rightarrow> Inr None | Some vv \<Rightarrow> Inr (vv_Metadata vv)))"

definition GetPrivateDataMetadataByHash :: "('s, 'b) DB \<Rightarrow> gostring \<Rightarrow> gostring \<Rightarrow> bytes \<Rightarrow> gobytes res" where
  "GetPrivateDataMetadataByHash s namespace collection keyHash =
     (if \<not> metadataEverUsedFor (db_metadataHint s) namespace then Inr None
      else bindE (GetValueHash s namespace collection keyHash) (\<lambda>vv.
             case vv of None \<Rightarrow> Inr None | Some vv \<Rightarrow> Inr (vv_Metadata vv)))"

text \<open>The namespaces a channel may have, from its namespaces and collections.\<close>

definition PossibleNamespaces :: "(gostring, gostring list) gomap \<Rightarrow> gostring list" where
  "PossibleNamespaces nsCollMap =
     concat (map (\<lambda>(ns, collections). ns # concat (map (\<lambda>collection.
       [deriveHashedDataNs ns collection, derivePvtDataNs ns collection]) collections)) nsCollMap)"

section \<open>The encodings\<close>

definition no_dollar :: "gostring \<Rightarrow> bool" where
  "no_dollar ns = (CHR ''$'' \<notin> set ns)"

lemma before_dollar:
  assumes "no_dollar ns" and "no_dollar ns'" and "ns @ CHR ''$'' # r = ns' @ CHR ''$'' # r'"
  shows "ns = ns' \<and> r = r'"
proof -
  have "takeWhile (\<lambda>c. c \<noteq> CHR ''$'') (xs @ CHR ''$'' # ys) = xs" if "no_dollar xs" for xs ys
    using that by (subst takeWhile_append2) (auto simp: no_dollar_def)
  then have "ns = ns'" using assms by metis
  with assms(3) show ?thesis by simp
qed

lemma derived_ns_inject:
  assumes "no_dollar ns" and "no_dollar ns'"
  shows "derivePvtDataNs ns coll = derivePvtDataNs ns' coll' \<longleftrightarrow> ns = ns' \<and> coll = coll'"
    and "deriveHashedDataNs ns coll = deriveHashedDataNs ns' coll' \<longleftrightarrow> ns = ns' \<and> coll = coll'"
    and "derivePvtDataNs ns coll \<noteq> deriveHashedDataNs ns' coll'"
  using before_dollar [OF assms]
  by (auto simp: derivePvtDataNs_def deriveHashedDataNs_def nsJoiner_def pvtDataPrefix_def hashDataPrefix_def)

lemma derived_ns_dollar [simp]: "\<not> no_dollar (derivePvtDataNs ns coll)" "\<not> no_dollar (deriveHashedDataNs ns coll)"
  by (simp_all add: no_dollar_def derivePvtDataNs_def deriveHashedDataNs_def nsJoiner_def)

lemma base64_alphabet_props:
  "distinct base64_alphabet" "length base64_alphabet = 64" "CHR ''='' \<notin> set base64_alphabet"
  by (simp_all add: base64_alphabet_def)

lemma base64_digit_inject: "m < 64 \<Longrightarrow> n < 64 \<Longrightarrow> base64_digit m = base64_digit n \<longleftrightarrow> m = n"
  by (simp add: base64_digit_def nth_eq_iff_index_eq base64_alphabet_props)

lemma base64_digit_padding:
  assumes "m < 64"
  shows "base64_digit m \<noteq> CHR ''=''" "CHR ''='' \<noteq> base64_digit m"
  by (metis assms base64_digit_def base64_alphabet_props(2,3) nth_mem)+

lemma two_digits_inject:
  fixes m m' x x' k :: nat
  assumes "x < k" and "x' < k"
  shows "m * k + x = m' * k + x' \<longleftrightarrow> m = m' \<and> x = x'"
proof
  assume "m * k + x = m' * k + x'"
  then have "(m * k + x) div k = (m' * k + x') div k" "(m * k + x) mod k = (m' * k + x') mod k" by simp_all
  with assms show "m = m' \<and> x = x'" by simp
qed simp

lemma div_mod_inject:
  fixes a a' k :: nat
  shows "a div k = a' div k \<Longrightarrow> a mod k = a' mod k \<Longrightarrow> a = a'"
  by (metis div_mult_mod_eq)

lemma digit_bounds:
  fixes a b c :: nat
  assumes "a < 256" and "b < 256" and "c < 256"
  shows "a div 4 < 64" "a mod 4 * 16 + b div 16 < 64" "b mod 16 * 4 + c div 64 < 64" "c mod 64 < 64"
    "a mod 4 * 16 < 64" "b mod 16 * 4 < 64" "b div 16 < 16" "c div 64 < 4"
proof -
  have m: "a mod 4 < 4" "b mod 16 < 16" by simp_all
  show b: "a div 4 < 64" "b div 16 < 16" "c div 64 < 4" using assms by (simp_all add: less_mult_imp_div_less)
  from m b show "a mod 4 * 16 + b div 16 < 64" "b mod 16 * 4 + c div 64 < 64" "a mod 4 * 16 < 64" "b mod 16 * 4 < 64"
    by linarith+
qed simp

lemmas base64_bounds = digit_bounds [OF of_char_less_256 of_char_less_256 of_char_less_256]

lemma char_eq_div_mod:
  "(of_char a :: nat) div k = of_char a' div k \<Longrightarrow> (of_char a :: nat) mod k = of_char a' mod k \<Longrightarrow> a = a'"
  using div_mod_inject of_char_eq_iff by blast

lemma base64_inject: "base64_EncodeToString x = base64_EncodeToString y \<Longrightarrow> x = y"
proof (induction x arbitrary: y rule: base64_EncodeToString.induct)
  case 1
  then show ?case by (cases y rule: base64_EncodeToString.cases) (simp_all add: Let_def)
next
  case (2 a)
  note eq = 2
  show ?case
  proof (cases y rule: base64_EncodeToString.cases)
    case (2 a')
    with eq show ?thesis
      by (auto simp: Let_def base64_digit_inject base64_digit_padding base64_bounds intro: char_eq_div_mod)
  qed (use eq in \<open>simp_all add: Let_def base64_digit_padding base64_bounds\<close>)
next
  case (3 a b)
  note eq = 3
  show ?case
  proof (cases y rule: base64_EncodeToString.cases)
    case (3 a' b')
    with eq show ?thesis
      by (auto simp: Let_def base64_digit_inject base64_digit_padding base64_bounds two_digits_inject intro: char_eq_div_mod)
  qed (use eq in \<open>simp_all add: Let_def base64_digit_padding base64_bounds\<close>)
next
  case (4 a b c r)
  note eq = 4
  show ?case
  proof (cases y rule: base64_EncodeToString.cases)
    case (4 a' b' c' r')
    with eq show ?thesis
      by (auto simp: Let_def base64_digit_inject base64_digit_padding base64_bounds two_digits_inject intro: char_eq_div_mod)
  qed (use eq in \<open>simp_all add: Let_def base64_digit_padding base64_bounds\<close>)
qed

section \<open>Lookups in batches with collections\<close>

definition wf_map_batch :: "UpdateMap \<Rightarrow> bool" where
  "wf_map_batch m = (wf_map m \<and> (\<forall>ns b. map_of m ns = Some b \<longrightarrow> wf_batch b))"

abbreviation (input) um_get :: "UpdateMap \<Rightarrow> gostring \<times> gostring \<times> gostring \<Rightarrow> VersionedValue option" where
  "um_get m \<equiv> \<lambda>(ns, coll, key). UpdateMap_Get m ns coll key"

abbreviation (input) um_upd :: "gostring \<times> gostring \<times> gostring \<Rightarrow> VersionedValue \<Rightarrow> UpdateMap \<Rightarrow> UpdateMap" where
  "um_upd \<equiv> \<lambda>(ns, coll, key) vv m. AList.update ns (UpdateBatch_Update coll key vv (getOrCreateNsBatch m ns)) m"

lemma UpdateMap_Get_update [simp]:
  "UpdateMap_Get (AList.update ns (UpdateBatch_Update coll key vv (getOrCreateNsBatch m ns)) m) ns' coll' key' =
     (if ns' = ns \<and> coll' = coll \<and> key' = key then Some vv else UpdateMap_Get m ns' coll' key')"
  by (auto simp: UpdateMap_Get_def getOrCreateNsBatch_def split: option.splits)

interpretation um: kv_store um_get um_upd
proof
  fix k v s k'
  show "um_get (um_upd k v s) k' = (if k' = k then Some v else um_get s k')"
    by (cases k; cases k') simp
qed

lemma UpdateMap_Contains_iff: "UpdateMap_Contains m ns coll key \<longleftrightarrow> UpdateMap_Get m ns coll key \<noteq> None"
  by (simp add: UpdateMap_Contains_def UpdateMap_Get_def split: option.splits)

lemma UpdateMap_Put_Inr:
  "UpdateMap_PutValAndMetadata ns coll key val md ver m = Inr m' \<longleftrightarrow>
     val \<noteq> None \<and> m' = um_upd (ns, coll, key) \<lparr>vv_Value = val, vv_Metadata = md, vv_Version = ver\<rparr> m"
  by (auto simp: UpdateMap_PutValAndMetadata_def PutValAndMetadata_def)

lemma UpdateMap_Delete_upd:
  "UpdateMap_Delete ns coll key ver m = um_upd (ns, coll, key) \<lparr>vv_Value = None, vv_Metadata = None, vv_Version = ver\<rparr> m"
  by (simp add: UpdateMap_Delete_def UpdateBatch_Delete_def)

lemma wf_map_batch_empty [simp]: "wf_map_batch []"
  by (simp add: wf_map_batch_def)

lemma wf_map_batch_upd [simp]:
  "wf_map_batch m \<Longrightarrow>
    wf_map_batch (AList.update ns (UpdateBatch_Update coll key vv (getOrCreateNsBatch m ns)) m)"
  by (auto simp: wf_map_batch_def getOrCreateNsBatch_def split: option.splits)

text \<open>All the entries, in the order the loops visit them.\<close>

definition um_entries :: "UpdateMap \<Rightarrow> ((gostring \<times> gostring \<times> gostring) \<times> VersionedValue) list" where
  "um_entries m = concat (map (\<lambda>(ns, b). map (\<lambda>((coll, key), vv). ((ns, coll, key), vv)) (batch_entries b)) m)"

lemma fold_GetUpdates:
  assumes "wf_batch b"
  shows "fold (\<lambda>coll. fold (\<lambda>(key, vv). g coll key vv) (GetUpdates b coll)) (GetUpdatedNamespaces b) s =
     fold (\<lambda>((coll, key), vv). g coll key vv) (batch_entries b) s"
proof -
  have "fold (\<lambda>coll. fold (\<lambda>(key, vv). g coll key vv) (u coll)) colls s =
      fold (\<lambda>((coll, key), vv). g coll key vv)
        (concat (map (\<lambda>coll. map (\<lambda>(k, vv). ((coll, k), vv)) (u coll)) colls)) s" for u colls
    by (induction colls arbitrary: s) (auto simp: fold_map comp_def case_prod_unfold)
  then show ?thesis by (simp only: batch_entries_GetUpdates [OF assms])
qed

lemma fold_collections:
  assumes "wf_map_batch m"
  shows "fold (\<lambda>(ns, b). fold (\<lambda>coll. fold (\<lambda>(key, vv). g ns coll key vv) (GetUpdates b coll)) (GetCollectionNames b)) m s =
     fold (\<lambda>((ns, coll, key), vv). g ns coll key vv) (um_entries m) s"
proof -
  have "fold (\<lambda>(ns, b). fold (\<lambda>coll. fold (\<lambda>(key, vv). g ns coll key vv) (GetUpdates b coll)) (GetCollectionNames b)) m s =
     fold (\<lambda>((ns, coll, key), vv). g ns coll key vv) (um_entries m) s" if "\<forall>(ns, b) \<in> set m. wf_batch b" for m
    using that
  proof (induction m arbitrary: s)
    case (Cons e m)
    obtain ns b where e: "e = (ns, b)" by fastforce
    with Cons.prems have "wf_batch b" by simp
    then have "fold (\<lambda>coll. fold (\<lambda>(key, vv). g ns coll key vv) (GetUpdates b coll)) (GetCollectionNames b) s =
        fold (\<lambda>((ns, coll, key), vv). g ns coll key vv) (map (\<lambda>((coll, key), vv). ((ns, coll, key), vv)) (batch_entries b)) s"
      using fold_GetUpdates [of b "g ns" s] by (simp add: GetCollectionNames_def fold_map comp_def case_prod_unfold)
    with Cons e show ?case by (simp add: um_entries_def)
  qed (simp add: um_entries_def)
  then show ?thesis
    using assms by (fastforce simp: wf_map_batch_def wf_map_def)
qed

lemma distinct_um_entries:
  assumes "wf_map_batch m"
  shows "distinct (map fst (um_entries m))"
proof -
  have "distinct (map fst (batch_entries b))" if "(ns, b) \<in> set m" for ns b
    using assms that distinct_batch_entries by (auto simp: wf_map_batch_def wf_map_def)
  then have "distinct (concat (map (\<lambda>u. map (\<lambda>e. (fst u, fst e)) (batch_entries (snd u))) m))"
    using assms by (intro distinct_nested) (auto simp: wf_map_batch_def wf_map_def)
  then show ?thesis
    by (simp add: um_entries_def map_concat case_prod_unfold comp_def)
qed

lemma map_of_um_entries:
  assumes "wf_map_batch m"
  shows "map_of (um_entries m) (ns, coll, key) = UpdateMap_Get m ns coll key"
proof -
  have keyed: "map_of (map (\<lambda>((coll, key), vv). ((n, coll, key), vv)) es) (ns, coll, key) =
      (if n = ns then map_of es (coll, key) else None)"
    for n and es :: "((gostring \<times> gostring) \<times> VersionedValue) list"
    by (induction es) auto
  have "map_of (um_entries m) (ns, coll, key) =
      (case map_of m ns of None \<Rightarrow> None | Some b \<Rightarrow> map_of (batch_entries b) (coll, key))"
    if "distinct (map fst m)" for m
    using that
  proof (induction m)
    case (Cons u m)
    obtain n b where u: "u = (n, b)" by fastforce
    have "map_of m n = None" using Cons.prems u by (simp add: map_of_eq_None_iff)
    with Cons u show ?case
      by (auto simp: um_entries_def map_add_def keyed split: option.splits)
  qed (simp add: um_entries_def)
  then show ?thesis
    using assms by (auto simp: wf_map_batch_def wf_map_def UpdateMap_Get_def map_of_batch_entries split: option.splits)
qed

lemma um_entries_dom:
  assumes "wf_map_batch m"
  shows "(ns, coll, key) \<in> fst ` set (um_entries m) \<longleftrightarrow> UpdateMap_Get m ns coll key \<noteq> None"
  using map_of_um_entries [OF assms, of ns coll key] map_of_eq_None_iff [of "um_entries m" "(ns, coll, key)"] by auto

section \<open>The combined batch of a commit\<close>

definition combinedUpdates :: "bool \<Rightarrow> PrivacyUpdateBatch \<Rightarrow> UpdateBatch" where
  "combinedUpdates base64Key u = addHashedUpdates (HashUpdates u) base64Key (addPvtUpdates (PvtUpdates u) (PubUpdates u))"

definition pvt_loc :: "gostring \<times> gostring \<times> gostring \<Rightarrow> gostring \<times> gostring" where
  "pvt_loc = (\<lambda>(ns, coll, key). (derivePvtDataNs ns coll, key))"

definition hash_loc :: "bool \<Rightarrow> gostring \<times> gostring \<times> gostring \<Rightarrow> gostring \<times> gostring" where
  "hash_loc base64Key = (\<lambda>(ns, coll, key).
     (deriveHashedDataNs ns coll, if base64Key then base64_EncodeToString key else key))"

text \<open>
  The updates a commit gets: maps as Go has them, chaincode names, which have no dollar sign, as
  namespaces, and only namespaces the database can tell apart.
\<close>

definition wf_updates :: "(gostring \<Rightarrow> bool) \<Rightarrow> PrivacyUpdateBatch \<Rightarrow> bool" where
  "wf_updates valid_ns u \<longleftrightarrow>
     wf_batch (PubUpdates u) \<and> wf_map_batch (HashUpdates u) \<and> wf_map_batch (PvtUpdates u) \<and>
     batch_namespaces (\<lambda>ns. no_dollar ns \<and> valid_ns ns) (PubUpdates u) \<and>
     list_all (\<lambda>((ns, coll, key), vv). no_dollar ns \<and> valid_ns (deriveHashedDataNs ns coll)) (um_entries (HashUpdates u)) \<and>
     list_all (\<lambda>((ns, coll, key), vv). no_dollar ns \<and> valid_ns (derivePvtDataNs ns coll)) (um_entries (PvtUpdates u))"

lemma fold_batch_upd_invariant:
  assumes "P b" and "\<And>k v b. (k, v) \<in> set kvs \<Longrightarrow> P b \<Longrightarrow> P (upd k v b)"
  shows "P (fold (\<lambda>(k, v). upd k v) kvs b)"
  using assms by (induction kvs arbitrary: b) auto

lemma addPvtUpdates_fold:
  assumes "wf_map_batch m"
  shows "addPvtUpdates m b = fold (\<lambda>(k, v). batch_upd (pvt_loc k) v) (um_entries m) b"
proof -
  have "(\<lambda>((ns, coll, key), vv). UpdateBatch_Update (derivePvtDataNs ns coll) key vv) =
      (\<lambda>(k, v). batch_upd (pvt_loc k) v)"
    by (auto simp: fun_eq_iff pvt_loc_def)
  then show ?thesis
    using fold_collections [OF assms, of "\<lambda>ns coll. UpdateBatch_Update (derivePvtDataNs ns coll)" b]
    by (simp only: addPvtUpdates_def)
qed

lemma addHashedUpdates_fold:
  assumes "wf_map_batch m"
  shows "addHashedUpdates m f b = fold (\<lambda>(k, v). batch_upd (hash_loc f k) v) (um_entries m) b"
proof -
  have "(\<lambda>((ns, coll, key), vv). UpdateBatch_Update (deriveHashedDataNs ns coll)
        (if f then base64_EncodeToString key else key) vv) = (\<lambda>(k, v). batch_upd (hash_loc f k) v)"
    by (auto simp: fun_eq_iff hash_loc_def)
  then show ?thesis
    using fold_collections [OF assms, of "\<lambda>ns coll key. UpdateBatch_Update (deriveHashedDataNs ns coll)
        (if f then base64_EncodeToString key else key)" b]
    by (simp only: addHashedUpdates_def)
qed

lemma combinedUpdates_fold:
  assumes "wf_updates valid_ns u"
  shows "combinedUpdates f u = fold (\<lambda>(k, v). batch_upd (hash_loc f k) v) (um_entries (HashUpdates u))
      (fold (\<lambda>(k, v). batch_upd (pvt_loc k) v) (um_entries (PvtUpdates u)) (PubUpdates u))"
  using assms by (simp only: combinedUpdates_def wf_updates_def addPvtUpdates_fold addHashedUpdates_fold)

lemma fold_batch_upd_wf:
  assumes "wf_batch b" and "batch_namespaces P b" and "list_all (\<lambda>(k, v). P (fst (loc k))) kvs"
  shows "wf_batch (fold (\<lambda>(k, v). batch_upd (loc k) v) kvs b) \<and>
    batch_namespaces P (fold (\<lambda>(k, v). batch_upd (loc k) v) kvs b)"
  using assms
proof (induction kvs arbitrary: b)
  case (Cons e kvs)
  then show ?case by (cases e; cases "loc (fst e)") simp
qed simp

lemma wf_combinedUpdates:
  assumes "wf_updates valid_ns u"
  shows "wf_batch (combinedUpdates f u) \<and> batch_namespaces valid_ns (combinedUpdates f u)"
proof -
  have "batch_namespaces valid_ns (PubUpdates u)" "wf_batch (PubUpdates u)"
    using assms by (auto simp: wf_updates_def batch_namespaces_def list_all_iff)
  moreover have "list_all (\<lambda>(k, v). valid_ns (fst (pvt_loc k))) (um_entries (PvtUpdates u))"
    and "list_all (\<lambda>(k, v). valid_ns (fst (hash_loc f k))) (um_entries (HashUpdates u))"
    using assms by (auto simp: wf_updates_def list_all_iff pvt_loc_def hash_loc_def)
  ultimately show ?thesis
    unfolding combinedUpdates_fold [OF assms] using fold_batch_upd_wf by metis
qed

lemma namespaces_Get: "batch_namespaces P b \<Longrightarrow> UpdateBatch_Get b ns key = Some vv \<Longrightarrow> P ns"
  by (auto simp: batch_namespaces_def UpdateBatch_Get_def list_all_iff split: option.splits dest!: map_of_SomeD)

lemma public_no_derived:
  assumes "wf_updates valid_ns u" and "\<not> no_dollar ns"
  shows "UpdateBatch_Get (PubUpdates u) ns key = None"
  using assms namespaces_Get [of "\<lambda>ns. no_dollar ns \<and> valid_ns ns" "PubUpdates u" ns key]
  by (cases "UpdateBatch_Get (PubUpdates u) ns key") (auto simp: wf_updates_def)

lemma update_names:
  assumes "wf_updates valid_ns u"
  shows "(ns, coll, key) \<in> fst ` set (um_entries (HashUpdates u)) \<Longrightarrow> no_dollar ns"
    and "(ns, coll, key) \<in> fst ` set (um_entries (PvtUpdates u)) \<Longrightarrow> no_dollar ns"
  using assms by (auto simp: wf_updates_def list_all_iff)

lemma loc_distinct:
  assumes "wf_updates valid_ns u" and "no_dollar ns"
  shows "(ns, key) \<notin> pvt_loc ` fst ` set (um_entries (PvtUpdates u))"
    and "(ns, key) \<notin> hash_loc f ` fst ` set (um_entries (HashUpdates u))"
    and "hash_loc f (ns, coll, key) \<notin> pvt_loc ` fst ` set (um_entries (PvtUpdates u))"
    and "pvt_loc (ns, coll, key) \<notin> hash_loc f ` fst ` set (um_entries (HashUpdates u))"
proof -
  show "(ns, key) \<notin> pvt_loc ` fst ` set (um_entries (PvtUpdates u))"
    "(ns, key) \<notin> hash_loc f ` fst ` set (um_entries (HashUpdates u))"
    using assms(2) by (auto simp: hash_loc_def pvt_loc_def)
  show "hash_loc f (ns, coll, key) \<notin> pvt_loc ` fst ` set (um_entries (PvtUpdates u))"
  proof
    assume "hash_loc f (ns, coll, key) \<in> pvt_loc ` fst ` set (um_entries (PvtUpdates u))"
    then obtain k where k: "k \<in> fst ` set (um_entries (PvtUpdates u))" "hash_loc f (ns, coll, key) = pvt_loc k" by blast
    obtain ns' coll' key' where k': "k = (ns', coll', key')" using prod_cases3 by blast
    have "no_dollar ns'" by (rule update_names(2) [OF assms(1)]) (use k(1) k' in simp)
    from derived_ns_inject(3) [OF this assms(2), of coll' coll] k(2) k' show False
      by (simp add: hash_loc_def pvt_loc_def)
  qed
  show "pvt_loc (ns, coll, key) \<notin> hash_loc f ` fst ` set (um_entries (HashUpdates u))"
  proof
    assume "pvt_loc (ns, coll, key) \<in> hash_loc f ` fst ` set (um_entries (HashUpdates u))"
    then obtain k where k: "k \<in> fst ` set (um_entries (HashUpdates u))" "pvt_loc (ns, coll, key) = hash_loc f k" by blast
    obtain ns' coll' key' where k': "k = (ns', coll', key')" using prod_cases3 by blast
    have "no_dollar ns'" by (rule update_names(1) [OF assms(1)]) (use k(1) k' in simp)
    from derived_ns_inject(3) [OF assms(2) this, of coll coll'] k(2) k' show False
      by (simp add: hash_loc_def pvt_loc_def)
  qed
qed

lemma combined_public:
  assumes "wf_updates valid_ns u" and "no_dollar ns"
  shows "UpdateBatch_Get (combinedUpdates f u) ns key = UpdateBatch_Get (PubUpdates u) ns key"
  using ub.get_fold_upd_other [OF loc_distinct(2) [OF assms]] ub.get_fold_upd_other [OF loc_distinct(1) [OF assms]]
  by (simp add: combinedUpdates_fold [OF assms(1)])

lemma combined_hashed:
  assumes "wf_updates valid_ns u" and "no_dollar ns"
  shows "UpdateBatch_Get (combinedUpdates f u) (deriveHashedDataNs ns coll)
      (if f then base64_EncodeToString key else key) = UpdateMap_Get (HashUpdates u) ns coll key"
proof -
  let ?k = "(ns, coll, key)"
  have wf: "wf_map_batch (HashUpdates u)" using assms(1) by (simp add: wf_updates_def)
  have inj: "k' = ?k" if "k' \<in> fst ` set (um_entries (HashUpdates u))" "hash_loc f k' = hash_loc f ?k" for k'
  proof -
    obtain ns' coll' key' where k': "k' = (ns', coll', key')" using prod_cases3 by blast
    have "no_dollar ns'" by (rule update_names(1) [OF assms(1)]) (use that(1) k' in simp)
    with that(2) k' show ?thesis
      using derived_ns_inject(2) [OF _ assms(2)] base64_inject by (auto simp: hash_loc_def split: if_splits)
  qed
  have "batch_get (combinedUpdates f u) (hash_loc f ?k) =
      (case UpdateMap_Get (HashUpdates u) ns coll key of Some v \<Rightarrow> Some v | None \<Rightarrow> batch_get (PubUpdates u) (hash_loc f ?k))"
    by (simp only: combinedUpdates_fold [OF assms(1)] map_of_um_entries [OF wf]
        ub.get_fold_upd_image [where f = "hash_loc f", OF distinct_um_entries [OF wf] inj]
        ub.get_fold_upd_other [OF loc_distinct(3) [OF assms]])
  then show ?thesis
    using public_no_derived [OF assms(1), of "deriveHashedDataNs ns coll"] by (simp add: hash_loc_def split: option.splits)
qed

lemma combined_private:
  assumes "wf_updates valid_ns u" and "no_dollar ns"
  shows "UpdateBatch_Get (combinedUpdates f u) (derivePvtDataNs ns coll) key = UpdateMap_Get (PvtUpdates u) ns coll key"
proof -
  let ?k = "(ns, coll, key)"
  have wf: "wf_map_batch (PvtUpdates u)" using assms(1) by (simp add: wf_updates_def)
  have inj: "k' = ?k" if "k' \<in> fst ` set (um_entries (PvtUpdates u))" "pvt_loc k' = pvt_loc ?k" for k'
  proof -
    obtain ns' coll' key' where k': "k' = (ns', coll', key')" using prod_cases3 by blast
    have "no_dollar ns'" by (rule update_names(2) [OF assms(1)]) (use that(1) k' in simp)
    with that(2) k' show ?thesis using derived_ns_inject(1) [OF _ assms(2)] by (auto simp: pvt_loc_def)
  qed
  have "batch_get (combinedUpdates f u) (pvt_loc ?k) =
      (case UpdateMap_Get (PvtUpdates u) ns coll key of Some v \<Rightarrow> Some v | None \<Rightarrow> batch_get (PubUpdates u) (pvt_loc ?k))"
    by (simp only: combinedUpdates_fold [OF assms(1)] map_of_um_entries [OF wf]
        ub.get_fold_upd_image [where f = pvt_loc, OF distinct_um_entries [OF wf] inj]
        ub.get_fold_upd_other [OF loc_distinct(4) [OF assms]])
  then show ?thesis
    using public_no_derived [OF assms(1), of "derivePvtDataNs ns coll"] by (simp add: pvt_loc_def split: option.splits)
qed

section \<open>What the hint records\<close>

lemma fold_flags:
  "map_of (fold (\<lambda>x m. if P x then m else AList.update (f x) True m) xs m) ns = Some True \<longleftrightarrow>
     map_of m ns = Some True \<or> (\<exists>x \<in> set xs. \<not> P x \<and> f x = ns)"
  by (induction xs arbitrary: m) auto

definition has_metadata :: "PrivacyUpdateBatch \<Rightarrow> gostring \<Rightarrow> bool" where
  "has_metadata u ns \<longleftrightarrow>
     (\<exists>key vv. UpdateBatch_Get (PubUpdates u) ns key = Some vv \<and> vv_Metadata vv \<noteq> None) \<or>
     (\<exists>coll key vv. UpdateMap_Get (HashUpdates u) ns coll key = Some vv \<and> vv_Metadata vv \<noteq> None)"

lemma batch_entries_mem:
  "wf_batch b \<Longrightarrow> ((ns, key), vv) \<in> set (batch_entries b) \<longleftrightarrow> UpdateBatch_Get b ns key = Some vv"
  by (simp flip: map_of_batch_entries add: map_of_eq_Some_iff [OF distinct_batch_entries])

lemma um_entries_mem:
  "wf_map_batch m \<Longrightarrow> ((ns, coll, key), vv) \<in> set (um_entries m) \<longleftrightarrow> UpdateMap_Get m ns coll key = Some vv"
  by (simp flip: map_of_um_entries add: map_of_eq_Some_iff [OF distinct_um_entries])

lemma filterNamespaces_entries:
  assumes "wf_batch (PubUpdates u)" and "wf_map_batch (HashUpdates u)"
  shows "filterNamespacesThatHasMetadata u =
    fold (\<lambda>x m. if vv_Metadata (snd x) = None then m else AList.update (fst (fst x)) True m) (um_entries (HashUpdates u))
      (fold (\<lambda>x m. if vv_Metadata (snd x) = None then m else AList.update (fst (fst x)) True m) (batch_entries (PubUpdates u)) [])"
proof -
  let ?g = "\<lambda>ns (vv :: VersionedValue) m. if vv_Metadata vv = None then m else AList.update ns True m"
  have "((\<lambda>((ns, coll, key), vv). ?g ns vv) :: (gostring \<times> gostring \<times> gostring) \<times> VersionedValue \<Rightarrow> _) =
      (\<lambda>x. ?g (fst (fst x)) (snd x))"
    and "((\<lambda>((ns, key), vv). ?g ns vv) :: (gostring \<times> gostring) \<times> VersionedValue \<Rightarrow> _) =
      (\<lambda>x. ?g (fst (fst x)) (snd x))"
    by (auto simp: fun_eq_iff)
  then show ?thesis
    using fold_collections [OF assms(2), of "\<lambda>ns coll key. ?g ns"] fold_GetUpdates [OF assms(1), of "\<lambda>ns key. ?g ns"]
    by (simp only: filterNamespacesThatHasMetadata_def)
qed

lemma ex_entry: "(\<exists>x \<in> set es. P (snd x) \<and> fst (fst x) = ns) \<longleftrightarrow> (\<exists>k vv. ((ns, k), vv) \<in> set es \<and> P vv)"
  by (metis fst_conv prod.collapse snd_conv)

lemma filterNamespaces_iff:
  assumes "wf_batch (PubUpdates u)" and "wf_map_batch (HashUpdates u)"
  shows "map_of (filterNamespacesThatHasMetadata u) ns = Some True \<longleftrightarrow> has_metadata u ns"
  unfolding filterNamespaces_entries [OF assms] fold_flags
    ex_entry [where P = "\<lambda>vv. vv_Metadata vv \<noteq> None"] has_metadata_def split_paired_Ex
    batch_entries_mem [OF assms(1)] um_entries_mem [OF assms(2)]
  by auto

lemma fold_flags_keys:
  assumes "\<And>n. n \<in> fst ` set m \<Longrightarrow> map_of m n = Some True"
  shows "n \<in> fst ` set (fold (\<lambda>x m. if P x then m else AList.update (f x) True m) xs m) \<Longrightarrow>
    map_of (fold (\<lambda>x m. if P x then m else AList.update (f x) True m) xs m) n = Some True"
  using assms
proof (induction xs arbitrary: m)
  case (Cons x xs)
  show ?case
  proof (cases "P x")
    case True
    with Cons show ?thesis by simp
  next
    case False
    have "map_of (AList.update (f x) True m) n = Some True" if "n \<in> fst ` set (AList.update (f x) True m)" for n
      using that Cons.prems(2) [of n] by (auto simp: dom_update)
    with False Cons show ?thesis by simp
  qed
qed simp

lemma filterNamespaces_keys:
  assumes "wf_batch (PubUpdates u)" and "wf_map_batch (HashUpdates u)"
  shows "ns \<in> fst ` set (filterNamespacesThatHasMetadata u) \<longleftrightarrow> has_metadata u ns"
proof
  assume "ns \<in> fst ` set (filterNamespacesThatHasMetadata u)"
  then have "map_of (filterNamespacesThatHasMetadata u) ns = Some True"
    unfolding filterNamespaces_entries [OF assms] by (intro fold_flags_keys) auto
  then show "has_metadata u ns" using filterNamespaces_iff [OF assms] by blast
next
  assume "has_metadata u ns"
  then have "map_of (filterNamespacesThatHasMetadata u) ns = Some True" using filterNamespaces_iff [OF assms] by blast
  then show "ns \<in> fst ` set (filterNamespacesThatHasMetadata u)"
    by (metis fst_conv imageI map_of_SomeD)
qed

text \<open>The loop of \<open>setMetadataUsedFlag\<close> over the namespaces.\<close>

lemma flag_loop:
  assumes "foldE (\<lambda>(ns, _) (cache, batch). if map_of cache ns = Some True then Inr (cache, batch)
              else bindE (LevelBatch_Put ns (Some []) batch) (\<lambda>batch'. Inr (AList.update ns True cache, batch')))
            nss (cache, batch) = Inr (cache', batch')"
  shows "(map_of cache' ns = Some True \<longleftrightarrow> map_of cache ns = Some True \<or> ns \<in> fst ` set nss) \<and>
    (\<exists>new. lb_leveldbBatch batch' = lb_leveldbBatch batch @ map (\<lambda>ns. (constructLevelKey (lb_dbName batch) ns, Some [])) new \<and>
      (\<forall>ns. map_of cache' ns = Some True \<longleftrightarrow> map_of cache ns = Some True \<or> ns \<in> set new))"
  using assms
proof (induction nss arbitrary: cache batch)
  case (Cons e nss)
  obtain n x where e: "e = (n, x)" by fastforce
  show ?case
  proof (cases "map_of cache n = Some True")
    case True
    with Cons.prems e have "foldE (\<lambda>(ns, _) (cache, batch). if map_of cache ns = Some True then Inr (cache, batch)
              else bindE (LevelBatch_Put ns (Some []) batch) (\<lambda>batch'. Inr (AList.update ns True cache, batch')))
            nss (cache, batch) = Inr (cache', batch')" by simp
    from Cons.IH [OF this] True e show ?thesis by auto
  next
    case False
    define b1 where "b1 = batch\<lparr>lb_leveldbBatch := lb_leveldbBatch batch @ [(constructLevelKey (lb_dbName batch) n, Some [])],
        lb_size := lb_size batch + (length (constructLevelKey (lb_dbName batch) n) + 0)\<rparr>"
    from False Cons.prems e have "foldE (\<lambda>(ns, _) (cache, batch). if map_of cache ns = Some True then Inr (cache, batch)
              else bindE (LevelBatch_Put ns (Some []) batch) (\<lambda>batch'. Inr (AList.update ns True cache, batch')))
            nss (AList.update n True cache, b1) = Inr (cache', batch')"
      by (simp add: LevelBatch_Put_def Let_def b1_def)
    note ih = Cons.IH [OF this]
    from ih obtain new where new: "lb_leveldbBatch batch' = lb_leveldbBatch b1 @ map (\<lambda>ns. (constructLevelKey (lb_dbName b1) ns, Some [])) new"
      "\<forall>ns. map_of cache' ns = Some True \<longleftrightarrow> map_of (AList.update n True cache) ns = Some True \<or> ns \<in> set new" by blast
    then have "lb_leveldbBatch batch' = lb_leveldbBatch batch @ map (\<lambda>ns. (constructLevelKey (lb_dbName batch) ns, Some [])) (n # new)"
      by (simp add: b1_def)
    moreover have "\<forall>ns. map_of cache' ns = Some True \<longleftrightarrow> map_of cache ns = Some True \<or> ns \<in> set (n # new)"
      using new(2) by auto
    moreover have "map_of cache' ns = Some True \<longleftrightarrow> map_of cache ns = Some True \<or> ns \<in> fst ` set (e # nss)"
      using ih e by auto
    ultimately show ?thesis by blast
  qed
qed auto

lemma apply_flags:
  "apply_batch (map (\<lambda>ns. (constructLevelKey n ns, Some [])) new) m (constructLevelKey n ns) =
     (if ns \<in> set new then Some [] else m (constructLevelKey n ns))"
  by (induction new arbitrary: m) (auto simp: apply_batch_def)

lemma setMetadataUsedFlag_spec:
  assumes "wf_batch (PubUpdates u)" and "wf_map_batch (HashUpdates u)" and "goleveldb (mh_leveldb h) bcontents"
    and "setMetadataUsedFlag u h = Inr h'"
  shows "metadataEverUsedFor h' ns \<longleftrightarrow> metadataEverUsedFor h ns \<or> has_metadata u ns"
    and "mh_leveldb h' = mh_leveldb h" and "mh_dbName h' = mh_dbName h"
    and "(metadataEverUsedFor h ns \<longleftrightarrow> bcontents (mh_bookkeeper h) (constructLevelKey (mh_dbName h) ns) \<noteq> None) \<Longrightarrow>
      (metadataEverUsedFor h' ns \<longleftrightarrow> bcontents (mh_bookkeeper h') (constructLevelKey (mh_dbName h) ns) \<noteq> None)"
proof -
  from assms(4) obtain cache batch book where
    loop: "foldE (\<lambda>(ns, _) (cache, batch). if map_of cache ns = Some True then Inr (cache, batch)
              else bindE (LevelBatch_Put ns (Some []) batch) (\<lambda>batch'. Inr (AList.update ns True cache, batch')))
            (filterNamespacesThatHasMetadata u) (mh_cache h, DBHandle_NewUpdateBatch (mh_dbName h)) = Inr (cache, batch)"
    and w: "DBHandle_WriteBatch (mh_leveldb h) batch (mh_bookkeeper h) = Inr book"
    and h': "h' = h\<lparr>mh_cache := cache, mh_bookkeeper := book\<rparr>"
    by (auto simp: setMetadataUsedFlag_def go_res)
  note l = flag_loop [OF loop]
  show used: "metadataEverUsedFor h' ns \<longleftrightarrow> metadataEverUsedFor h ns \<or> has_metadata u ns" for ns
    using l filterNamespaces_keys [OF assms(1,2)] by (simp add: metadataEverUsedFor_def h')
  from l obtain new where new: "lb_leveldbBatch batch = map (\<lambda>ns. (constructLevelKey (mh_dbName h) ns, Some [])) new"
    "\<forall>ns. map_of cache ns = Some True \<longleftrightarrow> map_of (mh_cache h) ns = Some True \<or> ns \<in> set new"
  proof -
    from l obtain new where "lb_leveldbBatch batch = lb_leveldbBatch (DBHandle_NewUpdateBatch (mh_dbName h)) @
        map (\<lambda>ns. (constructLevelKey (lb_dbName (DBHandle_NewUpdateBatch (mh_dbName h))) ns, Some [])) new"
      "\<forall>ns. map_of cache ns = Some True \<longleftrightarrow> map_of (mh_cache h) ns = Some True \<or> ns \<in> set new" by blast
    then show ?thesis using that by (simp add: DBHandle_NewUpdateBatch_def)
  qed
  have "bcontents book = apply_batch (lb_leveldbBatch batch) (bcontents (mh_bookkeeper h))"
    using w goleveldb.write_contents [OF assms(3)]
    by (auto simp: DBHandle_WriteBatch_def DB_WriteBatch_def apply_batch_def split: if_splits)
  then show "metadataEverUsedFor h' ns \<longleftrightarrow> bcontents (mh_bookkeeper h') (constructLevelKey (mh_dbName h) ns) \<noteq> None"
    if "metadataEverUsedFor h ns \<longleftrightarrow> bcontents (mh_bookkeeper h) (constructLevelKey (mh_dbName h) ns) \<noteq> None"
    using that new(2) by (auto simp: new(1) apply_flags metadataEverUsedFor_def h')
  show "mh_leveldb h' = mh_leveldb h" "mh_dbName h' = mh_dbName h" by (simp_all add: h')
qed

lemma newMetadataHint_spec:
  assumes "goleveldb L bcontents" and "no_NUL n" and "newMetadataHint L n book = Inr h"
  shows "metadataEverUsedFor h ns \<longleftrightarrow> bcontents book (constructLevelKey n ns) \<noteq> None"
    and "mh_leveldb h = L" and "mh_dbName h = n" and "mh_bookkeeper h = book"
proof -
  from assms(3) obtain itr cache where itr: "DBHandle_GetIterator L n None None book = Inr itr"
    and c: "foldE (\<lambda>e cache. bindE (Iterator_Key e) (\<lambda>namespace. Inr (AList.update namespace True cache))) itr [] = Inr cache"
    and h: "h = \<lparr>mh_cache = cache, mh_leveldb = L, mh_dbName = n, mh_bookkeeper = book\<rparr>"
    by (auto simp: newMetadataHint_def go_res)
  have mem: "(lk, v) \<in> set itr \<longleftrightarrow> (\<exists>k. lk = constructLevelKey n k) \<and> bcontents book lk = Some v" for lk v
    using goleveldb.iterator_contents [OF assms(1) itr [unfolded GetIterator_bounds]] level_bounds [of n None None lk]
    by (auto simp: in_bounds_def)
  have keys: "foldE (\<lambda>e cache. bindE (Iterator_Key e) (\<lambda>namespace. Inr (AList.update namespace True cache))) es c0 = Inr c1 \<Longrightarrow>
      \<forall>e \<in> set es. \<exists>k. fst e = constructLevelKey n k \<Longrightarrow>
      map_of c1 ns = Some True \<longleftrightarrow> map_of c0 ns = Some True \<or> constructLevelKey n ns \<in> fst ` set es" for es c0 c1
  proof (induction es arbitrary: c0)
    case (Cons e es)
    from Cons.prems(2) obtain k where k: "fst e = constructLevelKey n k" by auto
    with Cons.prems(1) have "foldE (\<lambda>e cache. bindE (Iterator_Key e) (\<lambda>namespace. Inr (AList.update namespace True cache)))
        es (AList.update k True c0) = Inr c1"
      by (simp add: Iterator_Key_def retrieveAppKey_construct [OF assms(2)])
    from Cons.IH [OF this] Cons.prems(2) k show ?case by auto
  qed simp
  have "\<forall>e \<in> set itr. \<exists>k. fst e = constructLevelKey n k" using mem by (metis prod.collapse)
  from keys [OF c this] have "metadataEverUsedFor h ns \<longleftrightarrow> constructLevelKey n ns \<in> fst ` set itr"
    by (simp add: metadataEverUsedFor_def h)
  also have "\<dots> \<longleftrightarrow> bcontents book (constructLevelKey n ns) \<noteq> None"
  proof -
    have "constructLevelKey n ns \<in> fst ` set itr \<longleftrightarrow> (\<exists>v. (constructLevelKey n ns, v) \<in> set itr)" by force
    then show ?thesis using mem [of "constructLevelKey n ns"] by auto
  qed
  finally show "metadataEverUsedFor h ns \<longleftrightarrow> bcontents book (constructLevelKey n ns) \<noteq> None" .
  show "mh_leveldb h = L" "mh_dbName h = n" "mh_bookkeeper h = book" by (simp_all add: h)
qed

section \<open>Properties\<close>

lemma ApplyPrivacyAware_commit:
  assumes "ApplyPrivacyAwareUpdates u height db = Inr db'"
  shows "\<exists>hint. setMetadataUsedFlag (u\<lparr>PubUpdates := combinedUpdates (\<not> vdb_BytesKeySupported (db_VersionedDB db)) u\<rparr>)
      (db_metadataHint db) = Inr hint \<and>
    vdb_ApplyUpdates (db_VersionedDB db) (combinedUpdates (\<not> vdb_BytesKeySupported (db_VersionedDB db)) u) height (db_state db) =
      Inr (db_state db') \<and> db' = db\<lparr>db_metadataHint := hint, db_state := db_state db'\<rparr>"
  using assms by (auto simp: ApplyPrivacyAwareUpdates_def combinedUpdates_def Let_def go_res)

text \<open>What the database holds after a commit, part by part.\<close>

lemma privacy_commit_contents:
  assumes "versioned_db (db_VersionedDB db) contents valid_ns stored_as" and "wf_updates valid_ns u"
    and "ApplyPrivacyAwareUpdates u height db = Inr db'" and "no_dollar ns"
  shows "valid_ns ns \<Longrightarrow> contents (db_state db') ns key =
      overlay (map_option stored_as (UpdateBatch_Get (PubUpdates u) ns key)) (contents (db_state db) ns key)"
    and "valid_ns (derivePvtDataNs ns coll) \<Longrightarrow> contents (db_state db') (derivePvtDataNs ns coll) key =
      overlay (map_option stored_as (UpdateMap_Get (PvtUpdates u) ns coll key)) (contents (db_state db) (derivePvtDataNs ns coll) key)"
    and "valid_ns (deriveHashedDataNs ns coll) \<Longrightarrow> contents (db_state db') (deriveHashedDataNs ns coll) (keyHashStr db keyHash) =
      overlay (map_option stored_as (UpdateMap_Get (HashUpdates u) ns coll keyHash))
        (contents (db_state db) (deriveHashedDataNs ns coll) (keyHashStr db keyHash))"
    and "db_VersionedDB db' = db_VersionedDB db" and "keyHashStr db' = keyHashStr db"
proof -
  let ?f = "\<not> vdb_BytesKeySupported (db_VersionedDB db)"
  obtain hint where a: "vdb_ApplyUpdates (db_VersionedDB db) (combinedUpdates ?f u) height (db_state db) = Inr (db_state db')"
    and db': "db' = db\<lparr>db_metadataHint := hint, db_state := db_state db'\<rparr>"
    using ApplyPrivacyAware_commit [OF assms(3)] by blast
  show V: "db_VersionedDB db' = db_VersionedDB db" by (subst db') simp
  show "keyHashStr db' = keyHashStr db" by (rule ext) (simp add: keyHashStr_def V)
  note wf = wf_combinedUpdates [OF assms(2), THEN conjunct1] wf_combinedUpdates [OF assms(2), THEN conjunct2]
  note commit = versioned_db.ApplyUpdates_contents [OF assms(1) a wf]
  show "contents (db_state db') ns key =
      overlay (map_option stored_as (UpdateBatch_Get (PubUpdates u) ns key)) (contents (db_state db) ns key)" if "valid_ns ns"
    using commit [OF that] combined_public [OF assms(2,4)] by simp
  show "contents (db_state db') (derivePvtDataNs ns coll) key =
      overlay (map_option stored_as (UpdateMap_Get (PvtUpdates u) ns coll key)) (contents (db_state db) (derivePvtDataNs ns coll) key)"
    if "valid_ns (derivePvtDataNs ns coll)"
    using commit [OF that] combined_private [OF assms(2,4)] by simp
  show "contents (db_state db') (deriveHashedDataNs ns coll) (keyHashStr db keyHash) =
      overlay (map_option stored_as (UpdateMap_Get (HashUpdates u) ns coll keyHash))
        (contents (db_state db) (deriveHashedDataNs ns coll) (keyHashStr db keyHash))"
    if "valid_ns (deriveHashedDataNs ns coll)"
    using commit [OF that] combined_hashed [OF assms(2,4), of ?f] by (simp add: keyHashStr_def)
qed

text \<open>
  C20: A commit updates public data, private data and hashes independently: afterwards a read of
  each kind gives what the corresponding part of the updates says of the key, nothing if that is a
  deletion, and what it gave before if that part has no entry for the key. This holds for keys
  stored as bytes and as base64.
\<close>

theorem commit_keeps_parts_apart:
  assumes "versioned_db (db_VersionedDB db) contents valid_ns stored_as" and "wf_updates valid_ns updates"
    and "ApplyPrivacyAwareUpdates updates height db = Inr db'"
    and "no_dollar ns" and "valid_ns ns" and "valid_ns (derivePvtDataNs ns coll)" and "valid_ns (deriveHashedDataNs ns coll)"
    and "db_GetState db ns key = Inr old" and "db_GetState db' ns key = Inr new"
    and "GetPrivateData db ns coll key = Inr pold" and "GetPrivateData db' ns coll key = Inr pnew"
    and "GetValueHash db ns coll keyHash = Inr hold" and "GetValueHash db' ns coll keyHash = Inr hnew"
  shows "new = overlay (map_option stored_as (UpdateBatch_Get (PubUpdates updates) ns key)) old \<and>
    pnew = overlay (map_option stored_as (UpdateMap_Get (PvtUpdates updates) ns coll key)) pold \<and>
    hnew = overlay (map_option stored_as (UpdateMap_Get (HashUpdates updates) ns coll keyHash)) hold"
proof (intro conjI)
  note commit = privacy_commit_contents [OF assms(1-4)]
  note read = versioned_db.GetState_contents [OF assms(1)]
  show "new = overlay (map_option stored_as (UpdateBatch_Get (PubUpdates updates) ns key)) old"
    using commit(1) [OF assms(5)] read [OF assms(8)] read [OF assms(9) [unfolded commit(4)]] by simp
  show "pnew = overlay (map_option stored_as (UpdateMap_Get (PvtUpdates updates) ns coll key)) pold"
    using commit(2) [OF assms(6)] read [OF assms(10) [unfolded GetPrivateData_def]]
      read [OF assms(11) [unfolded GetPrivateData_def commit(4)]] by simp
  show "hnew = overlay (map_option stored_as (UpdateMap_Get (HashUpdates updates) ns coll keyHash)) hold"
    using commit(3) [OF assms(7)] read [OF assms(12) [unfolded GetValueHash_def]]
      read [OF assms(13) [unfolded GetValueHash_def commit(4,5)]] by simp
qed

lemma bind_None: "\<forall>v. x = Some v \<longrightarrow> f v = None \<Longrightarrow> Option.bind x f = None"
  by (cases x) auto

text \<open>
  The invariant of the hint: a namespace whose public values or hashes have metadata is recorded,
  and the bookkeeper has exactly the namespaces of the cache.
\<close>

definition hint_ok ::
  "('s \<Rightarrow> gostring \<Rightarrow> gostring \<Rightarrow> VersionedValue option) \<Rightarrow> (gostring \<Rightarrow> bool) \<Rightarrow> ('b \<Rightarrow> bytes \<Rightarrow> bytes option) \<Rightarrow> ('s, 'b) DB \<Rightarrow> bool" where
  "hint_ok contents valid_ns bcontents db \<longleftrightarrow>
     (\<forall>ns key vv. valid_ns ns \<longrightarrow> contents (db_state db) ns key = Some vv \<longrightarrow> vv_Metadata vv \<noteq> None \<longrightarrow>
        metadataEverUsedFor (db_metadataHint db) ns) \<and>
     (\<forall>ns coll key vv. no_dollar ns \<longrightarrow> valid_ns (deriveHashedDataNs ns coll) \<longrightarrow>
        contents (db_state db) (deriveHashedDataNs ns coll) key = Some vv \<longrightarrow> vv_Metadata vv \<noteq> None \<longrightarrow>
        metadataEverUsedFor (db_metadataHint db) ns) \<and>
     (\<forall>ns. metadataEverUsedFor (db_metadataHint db) ns \<longleftrightarrow>
        bcontents (mh_bookkeeper (db_metadataHint db)) (constructLevelKey (mh_dbName (db_metadataHint db)) ns) \<noteq> None)"

lemma combined_hashed_entry:
  assumes "wf_updates valid_ns u" and "no_dollar ns"
    and "UpdateBatch_Get (combinedUpdates f u) (deriveHashedDataNs ns coll) k = Some vv"
  shows "\<exists>key. UpdateMap_Get (HashUpdates u) ns coll key = Some vv"
proof -
  have "batch_get (combinedUpdates f u) (deriveHashedDataNs ns coll, k) = Some vv" using assms(3) by simp
  from ub.get_fold_upd_cases [OF this [unfolded combinedUpdates_fold [OF assms(1)]]]
  consider (rest) "batch_get (fold (\<lambda>(k, v). batch_upd (pvt_loc k) v) (um_entries (PvtUpdates u)) (PubUpdates u))
      (deriveHashedDataNs ns coll, k) = Some vv"
    | (hash) k' where "(k', vv) \<in> set (um_entries (HashUpdates u))" "hash_loc f k' = (deriveHashedDataNs ns coll, k)"
    by blast
  then show ?thesis
  proof cases
    case rest
    from ub.get_fold_upd_cases [OF this] public_no_derived [OF assms(1), of "deriveHashedDataNs ns coll" k]
    obtain k' where k': "(k', vv) \<in> set (um_entries (PvtUpdates u))" "pvt_loc k' = (deriveHashedDataNs ns coll, k)" by auto
    obtain ns' coll' key' where e: "k' = (ns', coll', key')" using prod_cases3 by blast
    have "no_dollar ns'" by (rule update_names(2) [OF assms(1)]) (use k'(1) e in force)
    from derived_ns_inject(3) [OF this assms(2), of coll' coll] k'(2) e show ?thesis by (simp add: pvt_loc_def)
  next
    case hash
    obtain ns' coll' key' where e: "k' = (ns', coll', key')" using prod_cases3 by blast
    have "no_dollar ns'" by (rule update_names(1) [OF assms(1)]) (use hash(1) e in force)
    with derived_ns_inject(2) [OF this assms(2)] hash(2) e have "ns' = ns" "coll' = coll" by (auto simp: hash_loc_def)
    with hash(1) e show ?thesis using um_entries_mem assms(1) by (auto simp: wf_updates_def)
  qed
qed

lemma overlay_metadata:
  assumes "versioned_db V contents valid_ns stored_as"
    and "new = overlay (map_option stored_as upd) old" and "new = Some vv" and "vv_Metadata vv \<noteq> None"
  shows "old = Some vv \<or> (\<exists>vv'. upd = Some vv' \<and> vv_Metadata vv' \<noteq> None)"
  using assms versioned_db.stored_metadata [OF assms(1)] by (cases upd) (auto split: if_splits)

lemma ApplyPrivacyAware_hint_ok:
  assumes "versioned_db (db_VersionedDB db) contents valid_ns stored_as"
    and "goleveldb (mh_leveldb (db_metadataHint db)) bcontents" and "no_NUL (mh_dbName (db_metadataHint db))"
    and "wf_updates valid_ns updates" and "hint_ok contents valid_ns bcontents db"
    and "ApplyPrivacyAwareUpdates updates height db = Inr db'"
    and "newMetadataHint (mh_leveldb (db_metadataHint db')) (mh_dbName (db_metadataHint db'))
      (mh_bookkeeper (db_metadataHint db')) = Inr hint"
  shows "hint_ok contents valid_ns bcontents db' \<and> hint_ok contents valid_ns bcontents (db'\<lparr>db_metadataHint := hint\<rparr>)"
proof
  let ?f = "\<not> vdb_BytesKeySupported (db_VersionedDB db)"
  let ?u = "updates\<lparr>PubUpdates := combinedUpdates ?f updates\<rparr>"
  obtain h where s: "setMetadataUsedFlag ?u (db_metadataHint db) = Inr h"
    and a: "vdb_ApplyUpdates (db_VersionedDB db) (combinedUpdates ?f updates) height (db_state db) = Inr (db_state db')"
    and db': "db' = db\<lparr>db_metadataHint := h, db_state := db_state db'\<rparr>"
    using ApplyPrivacyAware_commit [OF assms(6)] by blast
  have h: "db_metadataHint db' = h" by (subst db') simp
  note wf = wf_combinedUpdates [OF assms(4), of ?f, THEN conjunct1] wf_combinedUpdates [OF assms(4), of ?f, THEN conjunct2]
  have wfu: "wf_batch (PubUpdates ?u)" "wf_map_batch (HashUpdates ?u)" using wf assms(4) by (simp_all add: wf_updates_def)
  note flag = setMetadataUsedFlag_spec [OF wfu assms(2) s]
  note put = versioned_db.ApplyUpdates_contents [OF assms(1) a wf]
  have old: "metadataEverUsedFor h ns" if "contents (db_state db') ns key = Some vv" "vv_Metadata vv \<noteq> None" "valid_ns ns" for ns key vv
    using that overlay_metadata [OF assms(1) put [OF that(3)] that(1,2)] assms(5) flag(1)
    by (auto simp: hint_ok_def has_metadata_def)
  have hashed: "metadataEverUsedFor h ns"
    if "contents (db_state db') (deriveHashedDataNs ns coll) key = Some vv" "vv_Metadata vv \<noteq> None"
      "valid_ns (deriveHashedDataNs ns coll)" "no_dollar ns" for ns coll key vv
  proof -
    from overlay_metadata [OF assms(1) put [OF that(3)] that(1,2)]
    consider "contents (db_state db) (deriveHashedDataNs ns coll) key = Some vv"
      | vv' where "UpdateBatch_Get (combinedUpdates ?f updates) (deriveHashedDataNs ns coll) key = Some vv'" "vv_Metadata vv' \<noteq> None"
      by blast
    then show ?thesis
    proof cases
      case 1
      with that assms(5) have "metadataEverUsedFor (db_metadataHint db) ns" unfolding hint_ok_def by blast
      then show ?thesis using flag(1) by blast
    next
      case 2
      from combined_hashed_entry [OF assms(4) that(4) 2(1)] 2(2) have "has_metadata ?u ns"
        unfolding has_metadata_def by auto
      then show ?thesis using flag(1) by blast
    qed
  qed
  have persist: "metadataEverUsedFor h ns \<longleftrightarrow> bcontents (mh_bookkeeper h) (constructLevelKey (mh_dbName h) ns) \<noteq> None" for ns
    using assms(5) flag(3,4) by (simp add: hint_ok_def)
  show "hint_ok contents valid_ns bcontents db'"
    using old hashed persist unfolding hint_ok_def h by blast
  have "goleveldb (mh_leveldb (db_metadataHint db')) bcontents" "no_NUL (mh_dbName (db_metadataHint db'))"
    using assms(2,3) flag(2,3) by (simp_all add: h)
  note new = newMetadataHint_spec [OF this assms(7), unfolded h]
  then show "hint_ok contents valid_ns bcontents (db'\<lparr>db_metadataHint := hint\<rparr>)"
    using old hashed persist by (simp add: hint_ok_def)
qed

text \<open>
  C21: Every commit keeps the metadata hint right: each namespace that holds metadata, in public data
  or in hashes, is recorded in the cache and on disk, and a hint read back from disk after a restart
  is right too.
\<close>

theorem metadata_hint_invariant:
  assumes "versioned_db (db_VersionedDB db) contents valid_ns stored_as"
    and "goleveldb (mh_leveldb (db_metadataHint db)) bcontents" and "no_NUL (mh_dbName (db_metadataHint db))"
    and "wf_updates valid_ns updates" and "hint_ok contents valid_ns bcontents db"
    and "ApplyPrivacyAwareUpdates updates height db = Inr db'"
    and "newMetadataHint (mh_leveldb (db_metadataHint db')) (mh_dbName (db_metadataHint db'))
      (mh_bookkeeper (db_metadataHint db')) = Inr hint"
  shows "hint_ok contents valid_ns bcontents db' \<and> hint_ok contents valid_ns bcontents (db'\<lparr>db_metadataHint := hint\<rparr>)"
  by (rule ApplyPrivacyAware_hint_ok [OF assms])

lemma metadata_read:
  assumes "versioned_db (db_VersionedDB db) contents valid_ns stored_as" and "hint_ok contents valid_ns bcontents db"
    and "no_dollar ns" and "valid_ns ns" and "GetStateMetadata db ns key = Inr md"
  shows "md = Option.bind (contents (db_state db) ns key) vv_Metadata"
proof (cases "metadataEverUsedFor (db_metadataHint db) ns")
  case True
  with assms(5) versioned_db.GetState_contents [OF assms(1)] show ?thesis
    by (auto simp: GetStateMetadata_def go_res split: option.splits bind_splits)
next
  case False
  with assms(2-4) have "\<forall>vv. contents (db_state db) ns key = Some vv \<longrightarrow> vv_Metadata vv = None"
    unfolding hint_ok_def by blast
  with False assms(5) show ?thesis by (simp add: GetStateMetadata_def bind_None)
qed

lemma metadata_read_hashed:
  assumes "versioned_db (db_VersionedDB db) contents valid_ns stored_as" and "hint_ok contents valid_ns bcontents db"
    and "no_dollar ns" and "valid_ns (deriveHashedDataNs ns coll)"
    and "GetPrivateDataMetadataByHash db ns coll keyHash = Inr md"
  shows "md = Option.bind (contents (db_state db) (deriveHashedDataNs ns coll) (keyHashStr db keyHash)) vv_Metadata"
proof (cases "metadataEverUsedFor (db_metadataHint db) ns")
  case True
  with assms(5) versioned_db.GetState_contents [OF assms(1)] show ?thesis
    by (auto simp: GetPrivateDataMetadataByHash_def GetValueHash_def go_res split: option.splits bind_splits)
next
  case False
  with assms(2-4) have "\<forall>vv. contents (db_state db) (deriveHashedDataNs ns coll) (keyHashStr db keyHash) = Some vv \<longrightarrow>
      vv_Metadata vv = None"
    unfolding hint_ok_def by blast
  with False assms(5) show ?thesis by (simp add: GetPrivateDataMetadataByHash_def bind_None)
qed

text \<open>
  C22: The hint never changes what a metadata read returns: it is the metadata the database holds for
  the key, public or by hash, and nil where the key does not exist or has none.
\<close>

theorem metadata_hint_transparent:
  assumes "versioned_db (db_VersionedDB db) contents valid_ns stored_as" and "hint_ok contents valid_ns bcontents db"
    and "no_dollar ns" and "valid_ns ns" and "valid_ns (deriveHashedDataNs ns coll)"
    and "GetStateMetadata db ns key = Inr md" and "GetPrivateDataMetadataByHash db ns coll keyHash = Inr hmd"
  shows "md = Option.bind (contents (db_state db) ns key) vv_Metadata \<and>
    hmd = Option.bind (contents (db_state db) (deriveHashedDataNs ns coll) (keyHashStr db keyHash)) vv_Metadata"
  using metadata_read [OF assms(1-4,6)] metadata_read_hashed [OF assms(1-3,5,7)] by (rule conjI)

section \<open>Witnesses\<close>

definition sample_md :: VersionedValue where
  "sample_md = \<lparr>vv_Value = Some ''1'', vv_Metadata = Some ''m'', vv_Version = Some (NewHeight 7 1)\<rparr>"

definition sample_md_dbvalue :: DBValue where
  "sample_md_dbvalue = \<lparr>dv_Version = projr (ToBytes (NewHeight 7 1)), dv_Value = Some ''1'', dv_Metadata = Some ''m''\<rparr>"

definition sample_md_codec :: dbvalue_codec where
  "sample_md_codec =
     \<lparr>Marshal_DBValue = (\<lambda>d. if d = sample_md_dbvalue then Inr ''v'' else Inl (Error ''marshal'')),
      Unmarshal_DBValue = (\<lambda>b. if b = ''v'' then Inr sample_md_dbvalue else Inl (Error ''unmarshal'')),
      Marshal_DBMVCC = (\<lambda>d. Inl (Error ''marshal'')), Unmarshal_DBMVCC = (\<lambda>b. Inl (Error ''unmarshal''))\<rparr>"

interpretation mdb: state_leveldb mem_ops map_of sample_md_codec "''ch''"
  by unfold_locales (simp_all add: dbvalue_faithful_def sample_md_codec_def sample_md_dbvalue_def no_NUL_def)

definition sample_updates :: PrivacyUpdateBatch where
  "sample_updates =
     \<lparr>PubUpdates = UpdateBatch_Update ''ns1'' ''a'' sample_md NewUpdateBatch,
      HashUpdates = [(''ns1'', UpdateBatch_Update ''c1'' ''k'' sample_md NewUpdateBatch)],
      PvtUpdates = [(''ns1'', UpdateBatch_Update ''c1'' ''a'' sample_md NewUpdateBatch)]\<rparr>"

definition sample_db :: "((bytes, bytes) gomap, (bytes, bytes) gomap) DB" where
  "sample_db =
     \<lparr>db_VersionedDB = leveldb_VersionedDB sample_md_codec mem_ops ''ch'', db_state = [],
      db_metadataHint = \<lparr>mh_cache = [], mh_leveldb = mem_ops, mh_dbName = ''hint'', mh_bookkeeper = []\<rparr>\<rparr>"

definition sample_db' :: "((bytes, bytes) gomap, (bytes, bytes) gomap) DB" where
  "sample_db' =
     \<lparr>db_VersionedDB = leveldb_VersionedDB sample_md_codec mem_ops ''ch'',
      db_state = [(constructLevelKey ''ch'' (encodeDataKey ''ns1'' ''a''), ''v''),
        (constructLevelKey ''ch'' (encodeDataKey ''ns1$$pc1'' ''a''), ''v''),
        (constructLevelKey ''ch'' (encodeDataKey ''ns1$$hc1'' ''k''), ''v'')],
      db_metadataHint =
        \<lparr>mh_cache = [(''ns1'', True), (''ns1$$pc1'', True), (''ns1$$hc1'', True)], mh_leveldb = mem_ops, mh_dbName = ''hint'',
         mh_bookkeeper = [(constructLevelKey ''hint'' ''ns1'', []), (constructLevelKey ''hint'' ''ns1$$pc1'', []),
           (constructLevelKey ''hint'' ''ns1$$hc1'', [])]\<rparr>\<rparr>"

lemma sample_names: "derivePvtDataNs ''ns1'' ''c1'' = ''ns1$$pc1''" "deriveHashedDataNs ''ns1'' ''c1'' = ''ns1$$hc1''"
  by (simp_all add: derivePvtDataNs_def deriveHashedDataNs_def nsJoiner_def pvtDataPrefix_def hashDataPrefix_def)

lemma sample_combined:
  "combinedUpdates False sample_updates = \<lparr>ContainsPostOrderWrites = False,
     Updates = [(''ns1'', [(''a'', sample_md)]), (''ns1$$pc1'', [(''a'', sample_md)]), (''ns1$$hc1'', [(''k'', sample_md)])],
     SchemaUpdates = []\<rparr>"
  by (simp add: combinedUpdates_def sample_updates_def addHashedUpdates_def addPvtUpdates_def GetUpdates_def
      GetCollectionNames_def GetUpdatedNamespaces_def NewUpdateBatch_def UpdateBatch_Update_def getOrCreateNsUpdates_def
      sample_names)

lemma sample_encode: "encodeValue sample_md_codec sample_md = Inr ''v''"
  by (simp add: encodeValue_def heightBytes_def sample_md_def ToBytes_opv sample_md_codec_def sample_md_dbvalue_def)

lemma sample_flags:
  "setMetadataUsedFlag (sample_updates\<lparr>PubUpdates := combinedUpdates False sample_updates\<rparr>) (db_metadataHint sample_db) =
     Inr (db_metadataHint sample_db')"
  unfolding sample_combined
  by (simp add: setMetadataUsedFlag_def NewUpdateBatch_def UpdateBatch_Update_def getOrCreateNsUpdates_def sample_db_def sample_db'_def filterNamespacesThatHasMetadata_def sample_updates_def
      GetUpdates_def GetCollectionNames_def GetUpdatedNamespaces_def sample_md_def LevelBatch_Put_def
      DBHandle_NewUpdateBatch_def DBHandle_WriteBatch_def DB_WriteBatch_def mem_ops_def Let_def)

lemma sample_apply:
  "ApplyUpdates sample_md_codec mem_ops ''ch'' (combinedUpdates False sample_updates) None [] = Inr (db_state sample_db')"
  unfolding sample_combined
  by (simp add: ApplyUpdates_def applyUpdate_def GetUpdatedNamespaces_def GetUpdates_def sample_encode LevelBatch_Put_def
      DBHandle_NewUpdateBatch_def DBHandle_WriteBatch_def DB_WriteBatch_def mem_ops_def sample_db'_def encodeDataKey_inject
      no_NUL_def Let_def)
    (simp add: sample_md_def)

lemma sample_private_commit: "ApplyPrivacyAwareUpdates sample_updates None sample_db = Inr sample_db'"
proof -
  have v: "db_VersionedDB sample_db = leveldb_VersionedDB sample_md_codec mem_ops ''ch''" "db_state sample_db = []"
    "vdb_BytesKeySupported (db_VersionedDB sample_db)" "vdb_ApplyUpdates (db_VersionedDB sample_db) = ApplyUpdates sample_md_codec mem_ops ''ch''"
    by (simp_all add: sample_db_def leveldb_VersionedDB_def)
  have "sample_db\<lparr>db_metadataHint := db_metadataHint sample_db', db_state := db_state sample_db'\<rparr> = sample_db'"
    by (simp add: sample_db_def sample_db'_def)
  then show ?thesis
    by (simp add: ApplyPrivacyAwareUpdates_def flip: combinedUpdates_def)
      (simp add: v(2-4) sample_flags sample_apply Let_def)
qed

lemma sample_updates_wf: "wf_updates no_NUL sample_updates"
proof -
  have "wf_batch (UpdateBatch_Update ns key vv NewUpdateBatch)" for ns key vv by simp
  then show ?thesis
    by (simp add: wf_updates_def sample_updates_def wf_map_batch_def wf_map_def um_entries_def batch_entries_def
        batch_namespaces_def NewUpdateBatch_def UpdateBatch_Update_def getOrCreateNsUpdates_def sample_names no_dollar_def no_NUL_def)
qed

lemma sample_valid: "no_dollar ''ns1''" "no_NUL ''ns1''" "no_NUL (derivePvtDataNs ''ns1'' ''c1'')" "no_NUL (deriveHashedDataNs ''ns1'' ''c1'')"
  by (simp_all add: sample_names no_dollar_def no_NUL_def)

lemma sample_vdb: "versioned_db (db_VersionedDB sample_db) (\<lambda>s. level_contents sample_md_codec ''ch'' (map_of s)) no_NUL level_stored"
  using mdb.versioned_db_axioms by (simp add: sample_db_def)

lemma sample_decode: "decodeValue sample_md_codec ''v'' = Inr sample_md"
  using NewHeightFromBytes_ToBytes [OF ToBytes_opv, of "NewHeight 7 1"]
  by (simp add: decodeValue_def sample_md_codec_def sample_md_dbvalue_def sample_md_def ToBytes_opv)

lemma sample_reads_before:
  "db_GetState sample_db ns key = Inr None" "GetPrivateData sample_db ns coll key = Inr None"
  "GetValueHash sample_db ns coll keyHash = Inr None"
  by (simp_all add: GetPrivateData_def GetValueHash_def sample_db_def leveldb_VersionedDB_def GetState_def
      DBHandle_Get_def DB_Get_def mem_ops_def)

lemma sample_reads_after:
  "db_GetState sample_db' ''ns1'' ''a'' = Inr (Some sample_md)"
  "GetPrivateData sample_db' ''ns1'' ''c1'' ''a'' = Inr (Some sample_md)"
  "GetValueHash sample_db' ''ns1'' ''c1'' ''k'' = Inr (Some sample_md)"
  by (simp_all add: GetPrivateData_def GetValueHash_def keyHashStr_def sample_names sample_db'_def leveldb_VersionedDB_def GetState_def
      DBHandle_Get_def DB_Get_def mem_ops_def encodeDataKey_inject no_NUL_def sample_decode)

theorem commit_keeps_parts_apart_witness:
  "Some sample_md = overlay (map_option level_stored (UpdateBatch_Get (PubUpdates sample_updates) ''ns1'' ''a'')) None \<and>
   Some sample_md = overlay (map_option level_stored (UpdateMap_Get (PvtUpdates sample_updates) ''ns1'' ''c1'' ''a'')) None \<and>
   Some sample_md = overlay (map_option level_stored (UpdateMap_Get (HashUpdates sample_updates) ''ns1'' ''c1'' ''k'')) None"
  by (rule commit_keeps_parts_apart [OF sample_vdb sample_updates_wf sample_private_commit sample_valid
        sample_reads_before(1) sample_reads_after(1) sample_reads_before(2) sample_reads_after(2)
        sample_reads_before(3) sample_reads_after(3)])

lemma sample_hint_ok:
  "hint_ok (\<lambda>s. level_contents sample_md_codec ''ch'' (map_of s)) no_NUL map_of sample_db"
  by (simp add: hint_ok_def sample_db_def level_contents_def metadataEverUsedFor_def)

lemma sample_restart:
  "newMetadataHint (mh_leveldb (db_metadataHint sample_db')) (mh_dbName (db_metadataHint sample_db'))
     (mh_bookkeeper (db_metadataHint sample_db')) =
   Inr ((db_metadataHint sample_db')\<lparr>mh_cache := [(''ns1'', True), (''ns1$$hc1'', True), (''ns1$$pc1'', True)]\<rparr>)"
proof -
  have "DBHandle_GetIterator mem_ops ''hint'' None None [(constructLevelKey ''hint'' ''ns1'', []),
      (constructLevelKey ''hint'' ''ns1$$pc1'', []), (constructLevelKey ''hint'' ''ns1$$hc1'', [])] =
    Inr [(constructLevelKey ''hint'' ''ns1'', []), (constructLevelKey ''hint'' ''ns1$$hc1'', []),
      (constructLevelKey ''hint'' ''ns1$$pc1'', [])]"
    by code_simp
  then show ?thesis
    by (simp add: newMetadataHint_def sample_db'_def Iterator_Key_def retrieveAppKey_construct no_NUL_def)
qed

theorem metadata_hint_invariant_witness:
  "hint_ok (\<lambda>s. level_contents sample_md_codec ''ch'' (map_of s)) no_NUL map_of sample_db' \<and>
   hint_ok (\<lambda>s. level_contents sample_md_codec ''ch'' (map_of s)) no_NUL map_of
     (sample_db'\<lparr>db_metadataHint := (db_metadataHint sample_db')\<lparr>mh_cache := [(''ns1'', True), (''ns1$$hc1'', True), (''ns1$$pc1'', True)]\<rparr>\<rparr>)"
  by (rule metadata_hint_invariant [OF sample_vdb _ _ sample_updates_wf sample_hint_ok sample_private_commit sample_restart])
    (simp_all add: sample_db_def mem.goleveldb_axioms no_NUL_def)

lemma sample_metadata_reads:
  "GetStateMetadata sample_db' ''ns1'' ''a'' = Inr (Some ''m'')"
  "GetPrivateDataMetadataByHash sample_db' ''ns1'' ''c1'' ''k'' = Inr (Some ''m'')"
proof -
  have "metadataEverUsedFor (db_metadataHint sample_db') ''ns1''" by (simp add: metadataEverUsedFor_def sample_db'_def)
  then show "GetStateMetadata sample_db' ''ns1'' ''a'' = Inr (Some ''m'')"
    "GetPrivateDataMetadataByHash sample_db' ''ns1'' ''c1'' ''k'' = Inr (Some ''m'')"
    by (simp_all add: GetStateMetadata_def GetPrivateDataMetadataByHash_def sample_reads_after)
      (simp_all add: sample_md_def)
qed

theorem metadata_hint_transparent_witness:
  "Some ''m'' = Option.bind (level_contents sample_md_codec ''ch'' (map_of (db_state sample_db')) ''ns1'' ''a'') vv_Metadata \<and>
   Some ''m'' = Option.bind (level_contents sample_md_codec ''ch'' (map_of (db_state sample_db'))
     (deriveHashedDataNs ''ns1'' ''c1'') (keyHashStr sample_db' ''k'')) vv_Metadata"
proof (rule metadata_hint_transparent [OF _ _ sample_valid(1,2,4) sample_metadata_reads])
  show "versioned_db (db_VersionedDB sample_db') (\<lambda>s. level_contents sample_md_codec ''ch'' (map_of s)) no_NUL level_stored"
    using mdb.versioned_db_axioms by (simp add: sample_db'_def)
  show "hint_ok (\<lambda>s. level_contents sample_md_codec ''ch'' (map_of s)) no_NUL map_of sample_db'"
    using ApplyPrivacyAware_hint_ok [OF sample_vdb _ _ sample_updates_wf sample_hint_ok sample_private_commit sample_restart]
    by (simp add: sample_db_def mem.goleveldb_axioms no_NUL_def)
qed

end
