(* ===== verification/TxOps.thy ===== *)
theory TxOps
  imports PrivacyState RWSet
begin

text \<open>
  The effect of a transaction's writes on the updates of its block
  (core/ledger/kvledger/txmgmt/validation/tx_ops.go, types.go and
  core/ledger/kvledger/txmgmt/statemetadata): the operations on each key are collected as flags, the
  half a transaction does not write, value or metadata, is completed from the latest state, and the
  result is put into the batch of public and hashed updates. Shown: the updates, read on top of the
  database, change exactly as an update of a key-value state with metadata does, whatever the
  iteration order of the maps; and exactly which transactions make the code panic.
\<close>

section \<open>Operations on keys\<close>

type_synonym keyOpsFlag = u8

definition upsertVal :: keyOpsFlag where "upsertVal = 1"
definition metadataUpdate :: keyOpsFlag where "metadataUpdate = 2"
definition metadataDelete :: keyOpsFlag where "metadataDelete = 4"
definition keyDelete :: keyOpsFlag where "keyDelete = 8"

record compositeKey =
  cmp_ns :: gostring
  cmp_coll :: gostring
  cmp_key :: gostring

record keyOps =
  ko_flag :: keyOpsFlag
  ko_value :: gobytes
  ko_metadata :: gobytes

type_synonym txOps = "(compositeKey, keyOps) gomap"

definition mk_compositeKey :: "gostring \<Rightarrow> gostring \<Rightarrow> gostring \<Rightarrow> compositeKey" where
  "mk_compositeKey ns coll key = \<lparr>cmp_ns = ns, cmp_coll = coll, cmp_key = key\<rparr>"

text \<open>The entry of a key; the callers store the updated entry back.\<close>

definition getOrCreateKeyEntry :: "txOps \<Rightarrow> compositeKey \<Rightarrow> keyOps" where
  "getOrCreateKeyEntry txops k =
     (case map_of txops k of None \<Rightarrow> \<lparr>ko_flag = 0, ko_value = None, ko_metadata = None\<rparr> | Some keyops \<Rightarrow> keyops)"

definition txOps_upsert :: "compositeKey \<Rightarrow> gobytes \<Rightarrow> txOps \<Rightarrow> txOps" where
  "txOps_upsert k val txops =
     (let keyops = getOrCreateKeyEntry txops k in
      AList.update k (keyops\<lparr>ko_flag := ko_flag keyops + upsertVal, ko_value := val\<rparr>) txops)"

definition txOps_delete :: "compositeKey \<Rightarrow> txOps \<Rightarrow> txOps" where
  "txOps_delete k txops =
     (let keyops = getOrCreateKeyEntry txops k in
      AList.update k (keyops\<lparr>ko_flag := ko_flag keyops + keyDelete\<rparr>) txops)"

definition txOps_metadataUpdate :: "compositeKey \<Rightarrow> gobytes \<Rightarrow> txOps \<Rightarrow> txOps" where
  "txOps_metadataUpdate k metadata txops =
     (let keyops = getOrCreateKeyEntry txops k in
      AList.update k (keyops\<lparr>ko_flag := ko_flag keyops + metadataUpdate, ko_metadata := metadata\<rparr>) txops)"

definition txOps_metadataDelete :: "compositeKey \<Rightarrow> txOps \<Rightarrow> txOps" where
  "txOps_metadataDelete k txops =
     (let keyops = getOrCreateKeyEntry txops k in
      AList.update k (keyops\<lparr>ko_flag := ko_flag keyops + metadataDelete\<rparr>) txops)"

unbundle bit_operations_syntax

definition keyOps_isDelete :: "keyOps \<Rightarrow> bool" where
  "keyOps_isDelete keyops = (ko_flag keyops AND keyDelete = keyDelete)"

definition isUpsertAndMetadataUpdate :: "keyOps \<Rightarrow> bool" where
  "isUpsertAndMetadataUpdate keyops =
     (if ko_flag keyops AND upsertVal = upsertVal
      then ko_flag keyops AND metadataUpdate = metadataUpdate \<or> ko_flag keyops AND metadataDelete = metadataDelete
      else False)"

definition isOnlyUpsert :: "keyOps \<Rightarrow> bool" where
  "isOnlyUpsert keyops = (ko_flag keyops OR upsertVal = upsertVal)"

section \<open>Metadata of a key\<close>

text \<open>
  \<open>Serialize\<close> and \<open>Deserialize\<close> of package statemetadata: metadata is stored as a metadata write
  without a key. The protobuf codec of that message is a parameter.
\<close>

definition statemetadata_Serialize :: "(KVMetadataWrite \<Rightarrow> bytes res) \<Rightarrow> KVMetadataEntry list \<Rightarrow> gobytes res" where
  "statemetadata_Serialize marshal metadataEntries =
     bindE (marshal \<lparr>mw_Key = [], mw_Entries = metadataEntries\<rparr>) (\<lambda>b. Inr (Some b))"

definition statemetadata_Deserialize ::
  "(bytes \<Rightarrow> KVMetadataWrite res) \<Rightarrow> gobytes \<Rightarrow> (gostring, gobytes) gomap option res" where
  "statemetadata_Deserialize unmarshal metadataBytes =
     (case metadataBytes of None \<Rightarrow> Inr None
      | Some b \<Rightarrow> bindE (unmarshal b) (\<lambda>metadata.
          Inr (Some (fold (\<lambda>e. AList.update (me_Name e) (me_Value e)) (mw_Entries metadata) []))))"

section \<open>Collecting the operations of a transaction\<close>

definition applyKVWrite :: "gostring \<Rightarrow> gostring \<Rightarrow> KVWrite \<Rightarrow> txOps \<Rightarrow> txOps" where
  "applyKVWrite ns coll kvWrite txops =
     (if IsKVWriteDelete kvWrite then txOps_delete (mk_compositeKey ns coll (w_Key kvWrite)) txops
      else txOps_upsert (mk_compositeKey ns coll (w_Key kvWrite)) (w_Value kvWrite) txops)"

definition applyMetadata ::
  "(KVMetadataWrite \<Rightarrow> bytes res) \<Rightarrow> gostring \<Rightarrow> gostring \<Rightarrow> KVMetadataWrite \<Rightarrow> txOps \<Rightarrow> txOps res" where
  "applyMetadata marshal ns coll metadataWrite txops =
     (if mw_Entries metadataWrite = [] then Inr (txOps_metadataDelete (mk_compositeKey ns coll (mw_Key metadataWrite)) txops)
      else bindE (statemetadata_Serialize marshal (mw_Entries metadataWrite)) (\<lambda>metadataBytes.
        Inr (txOps_metadataUpdate (mk_compositeKey ns coll (mw_Key metadataWrite)) metadataBytes txops)))"

definition applyTxRwset ::
  "(KVMetadataWrite \<Rightarrow> bytes res) \<Rightarrow> (bytes \<Rightarrow> bytes) \<Rightarrow> TxRwSet \<Rightarrow> txOps \<Rightarrow> txOps res" where
  "applyTxRwset marshal ComputeHash rwset =
     foldE (\<lambda>nsRWSet txops.
       let ns = NameSpace nsRWSet;
           txops = fold (applyKVWrite ns []) (Writes (KvRwSet nsRWSet)) txops in
       bindE (foldE (applyMetadata marshal ns []) (MetadataWrites (KvRwSet nsRWSet)) txops)
         (foldE (\<lambda>collHashRWset txops.
            let coll = ch_CollectionName collHashRWset;
                txops = fold (\<lambda>hashedWrite. applyKVWrite ns coll
                  \<lparr>w_Key = wh_KeyHash hashedWrite, w_IsDelete = IsKVWriteHashDelete ComputeHash hashedWrite,
                   w_Value = wh_ValueHash hashedWrite\<rparr>) (HashedWrites (HashedRwSet collHashRWset)) txops in
            foldE (\<lambda>metadataWrite. applyMetadata marshal ns coll
                \<lparr>mw_Key = mh_KeyHash metadataWrite, mw_Entries = mh_Entries metadataWrite\<rparr>)
              (HashedMetadataWrites (HashedRwSet collHashRWset)) txops)
          (CollHashedRwSets nsRWSet)))
     (NsRwSets rwset)"

section \<open>Public and hashed updates of a block\<close>

record publicAndHashUpdates =
  publicUpdates :: UpdateBatch
  hashUpdates :: UpdateMap

definition newPubAndHashUpdates :: publicAndHashUpdates where
  "newPubAndHashUpdates = \<lparr>publicUpdates = NewUpdateBatch, hashUpdates = []\<rparr>"

definition retrieveLatestState ::
  "gostring \<Rightarrow> gostring \<Rightarrow> gostring \<Rightarrow> publicAndHashUpdates \<Rightarrow> ('s, 'b) DB \<Rightarrow> VersionedValue option res" where
  "retrieveLatestState ns coll key precedingUpdates db =
     (if coll = [] then
        (case UpdateBatch_Get (publicUpdates precedingUpdates) ns key of
           None \<Rightarrow> db_GetState db ns key | Some vv \<Rightarrow> Inr (Some vv))
      else
        (case UpdateMap_Get (hashUpdates precedingUpdates) ns coll key of
           None \<Rightarrow> GetValueHash db ns coll key | Some vv \<Rightarrow> Inr (Some vv)))"

definition retrieveLatestMetadata ::
  "gostring \<Rightarrow> gostring \<Rightarrow> gostring \<Rightarrow> publicAndHashUpdates \<Rightarrow> ('s, 'b) DB \<Rightarrow> gobytes res" where
  "retrieveLatestMetadata ns coll key precedingUpdates db =
     (if coll = [] then
        (case UpdateBatch_Get (publicUpdates precedingUpdates) ns key of
           Some vv \<Rightarrow> Inr (vv_Metadata vv) | None \<Rightarrow> GetStateMetadata db ns key)
      else
        (case UpdateMap_Get (hashUpdates precedingUpdates) ns coll key of
           Some vv \<Rightarrow> Inr (vv_Metadata vv) | None \<Rightarrow> GetPrivateDataMetadataByHash db ns coll key))"

text \<open>The body of the loop that completes the entry of one key.\<close>

definition completeKeyOps ::
  "publicAndHashUpdates \<Rightarrow> ('s, 'b) DB \<Rightarrow> compositeKey \<times> keyOps \<Rightarrow> txOps \<Rightarrow> txOps res" where
  "completeKeyOps precedingUpdates db = (\<lambda>(ck, keyop) txops.
     if keyOps_isDelete keyop \<or> isUpsertAndMetadataUpdate keyop then Inr txops
     else if isOnlyUpsert keyop then
       bindE (retrieveLatestMetadata (cmp_ns ck) (cmp_coll ck) (cmp_key ck) precedingUpdates db) (\<lambda>latestMetadata.
         Inr (AList.update ck (keyop\<lparr>ko_metadata := latestMetadata\<rparr>) txops))
     else
       bindE (retrieveLatestState (cmp_ns ck) (cmp_coll ck) (cmp_key ck) precedingUpdates db) (\<lambda>latestVal.
         case latestVal of
           Some vv \<Rightarrow> Inr (AList.update ck (keyop\<lparr>ko_value := vv_Value vv\<rparr>) txops)
         | None \<Rightarrow> Inr (AList.delete ck txops)))"

definition prepareTxOps ::
  "(KVMetadataWrite \<Rightarrow> bytes res) \<Rightarrow> (bytes \<Rightarrow> bytes) \<Rightarrow> TxRwSet \<Rightarrow> publicAndHashUpdates \<Rightarrow> ('s, 'b) DB \<Rightarrow> txOps res" where
  "prepareTxOps marshal ComputeHash rwset precedingUpdates db =
     bindE (applyTxRwset marshal ComputeHash rwset []) (\<lambda>txops.
       foldE (completeKeyOps precedingUpdates db) txops txops)"

text \<open>The body of the loop that puts one key into the updates.\<close>

definition applyKeyOps ::
  "Height option \<Rightarrow> compositeKey \<times> keyOps \<Rightarrow> publicAndHashUpdates \<Rightarrow> publicAndHashUpdates res" where
  "applyKeyOps txHeight = (\<lambda>(ck, keyops) u.
     if cmp_coll ck = [] then
       (if keyOps_isDelete keyops then
          Inr (u\<lparr>publicUpdates := UpdateBatch_Delete (cmp_ns ck) (cmp_key ck) txHeight (publicUpdates u)\<rparr>)
        else bindE (PutValAndMetadata (cmp_ns ck) (cmp_key ck) (ko_value keyops) (ko_metadata keyops) txHeight (publicUpdates u))
          (\<lambda>b. Inr (u\<lparr>publicUpdates := b\<rparr>)))
     else
       (if keyOps_isDelete keyops then
          Inr (u\<lparr>hashUpdates := Hashed_Delete (cmp_ns ck) (cmp_coll ck) (Some (cmp_key ck)) txHeight (hashUpdates u)\<rparr>)
        else bindE (PutValHashAndMetadata (cmp_ns ck) (cmp_coll ck) (Some (cmp_key ck)) (ko_value keyops) (ko_metadata keyops)
            txHeight (hashUpdates u))
          (\<lambda>b. Inr (u\<lparr>hashUpdates := b\<rparr>))))"

definition applyWriteSet ::
  "(KVMetadataWrite \<Rightarrow> bytes res) \<Rightarrow> (bytes \<Rightarrow> bytes) \<Rightarrow> TxRwSet \<Rightarrow> Height option \<Rightarrow> ('s, 'b) DB \<Rightarrow> bool \<Rightarrow>
   publicAndHashUpdates \<Rightarrow> publicAndHashUpdates res" where
  "applyWriteSet marshal ComputeHash txRWSet txHeight db containsPostOrderWrites u =
     (let u = u\<lparr>publicUpdates := (publicUpdates u)
            \<lparr>ContainsPostOrderWrites := ContainsPostOrderWrites (publicUpdates u) \<or> containsPostOrderWrites\<rparr>\<rparr> in
      bindE (prepareTxOps marshal ComputeHash txRWSet u db) (\<lambda>txops. foldE (applyKeyOps txHeight) txops u))"

section \<open>The operations as a sequence of steps\<close>

text \<open>
  The nested loops over a read-write set visit a sequence of writes and metadata writes, those of
  collections by the hashes of their keys.
\<close>

datatype rw_step = KW (step_key: compositeKey) KVWrite | MW (step_key: compositeKey) "KVMetadataEntry list"

fun is_KW :: "rw_step \<Rightarrow> bool" where
  "is_KW (KW _ _) = True"
| "is_KW (MW _ _) = False"

definition coll_steps :: "(bytes \<Rightarrow> bytes) \<Rightarrow> gostring \<Rightarrow> CollHashedRwSet \<Rightarrow> rw_step list" where
  "coll_steps ComputeHash ns c =
     map (\<lambda>h. KW (mk_compositeKey ns (ch_CollectionName c) (wh_KeyHash h))
       \<lparr>w_Key = wh_KeyHash h, w_IsDelete = IsKVWriteHashDelete ComputeHash h, w_Value = wh_ValueHash h\<rparr>)
       (HashedWrites (HashedRwSet c)) @
     map (\<lambda>m. MW (mk_compositeKey ns (ch_CollectionName c) (mh_KeyHash m)) (mh_Entries m))
       (HashedMetadataWrites (HashedRwSet c))"

definition ns_steps :: "(bytes \<Rightarrow> bytes) \<Rightarrow> NsRwSet \<Rightarrow> rw_step list" where
  "ns_steps ComputeHash n =
     map (\<lambda>w. KW (mk_compositeKey (NameSpace n) [] (w_Key w)) w) (Writes (KvRwSet n)) @
     map (\<lambda>m. MW (mk_compositeKey (NameSpace n) [] (mw_Key m)) (mw_Entries m)) (MetadataWrites (KvRwSet n)) @
     concat (map (coll_steps ComputeHash (NameSpace n)) (CollHashedRwSets n))"

definition tx_steps :: "(bytes \<Rightarrow> bytes) \<Rightarrow> TxRwSet \<Rightarrow> rw_step list" where
  "tx_steps ComputeHash rwset = concat (map (ns_steps ComputeHash) (NsRwSets rwset))"

text \<open>What one step does to the entry of its key.\<close>

fun entry_step :: "(KVMetadataWrite \<Rightarrow> bytes res) \<Rightarrow> rw_step \<Rightarrow> keyOps \<Rightarrow> keyOps res" where
  "entry_step marshal (KW _ w) e =
     Inr (if IsKVWriteDelete w then e\<lparr>ko_flag := ko_flag e + keyDelete\<rparr>
          else e\<lparr>ko_flag := ko_flag e + upsertVal, ko_value := w_Value w\<rparr>)"
| "entry_step marshal (MW _ es) e =
     (if es = [] then Inr (e\<lparr>ko_flag := ko_flag e + metadataDelete\<rparr>)
      else bindE (statemetadata_Serialize marshal es) (\<lambda>b.
        Inr (e\<lparr>ko_flag := ko_flag e + metadataUpdate, ko_metadata := b\<rparr>)))"

definition step_apply :: "(KVMetadataWrite \<Rightarrow> bytes res) \<Rightarrow> rw_step \<Rightarrow> txOps \<Rightarrow> txOps res" where
  "step_apply marshal s t =
     bindE (entry_step marshal s (getOrCreateKeyEntry t (step_key s))) (\<lambda>e. Inr (AList.update (step_key s) e t))"

lemma applyKVWrite_step:
  "w_Key w = key \<Longrightarrow> step_apply marshal (KW (mk_compositeKey ns coll key) w) = (\<lambda>t. Inr (applyKVWrite ns coll w t))"
  by (auto simp: fun_eq_iff step_apply_def applyKVWrite_def txOps_delete_def txOps_upsert_def Let_def)

lemma applyMetadata_step:
  "step_apply marshal (MW (mk_compositeKey ns coll (mw_Key m)) (mw_Entries m)) = applyMetadata marshal ns coll m"
  by (auto simp: fun_eq_iff step_apply_def applyMetadata_def txOps_metadataDelete_def txOps_metadataUpdate_def Let_def bindE_assoc)

lemma foldE_map: "foldE f (map g xs) = foldE (\<lambda>x. f (g x)) xs"
proof
  show "foldE f (map g xs) s = foldE (\<lambda>x. f (g x)) xs s" for s
    by (induction xs arbitrary: s) (auto intro!: arg_cong2 [where f = bindE])
qed

lemma foldE_concat: "foldE f (concat xss) = foldE (foldE f) xss"
proof
  show "foldE f (concat xss) s = foldE (foldE f) xss s" for s
    by (induction xss arbitrary: s) (auto simp: foldE_append intro!: arg_cong2 [where f = bindE])
qed

lemma foldE_fold: "foldE (\<lambda>x s. Inr (f x s)) xs s = Inr (fold f xs s)"
  by (simp add: foldE_Inr)

lemma coll_steps_apply:
  "foldE (step_apply marshal) (coll_steps H ns c) t =
     foldE (\<lambda>metadataWrite. applyMetadata marshal ns (ch_CollectionName c)
         \<lparr>mw_Key = mh_KeyHash metadataWrite, mw_Entries = mh_Entries metadataWrite\<rparr>)
       (HashedMetadataWrites (HashedRwSet c))
       (fold (\<lambda>hashedWrite. applyKVWrite ns (ch_CollectionName c)
           \<lparr>w_Key = wh_KeyHash hashedWrite, w_IsDelete = IsKVWriteHashDelete H hashedWrite,
            w_Value = wh_ValueHash hashedWrite\<rparr>) (HashedWrites (HashedRwSet c)) t)"
proof -
  have "step_apply marshal (MW (mk_compositeKey ns (ch_CollectionName c) (mh_KeyHash m)) (mh_Entries m)) =
      applyMetadata marshal ns (ch_CollectionName c) \<lparr>mw_Key = mh_KeyHash m, mw_Entries = mh_Entries m\<rparr>" for m :: KVMetadataWriteHash
    using applyMetadata_step [where m = "\<lparr>mw_Key = mh_KeyHash m, mw_Entries = mh_Entries m\<rparr>"] by (simp add: fun_eq_iff)
  then show ?thesis
    by (simp add: coll_steps_def foldE_append foldE_map applyKVWrite_step foldE_fold)
qed

lemma applyTxRwset_steps: "applyTxRwset marshal H rwset = foldE (step_apply marshal) (tx_steps H rwset)"
proof -
  have ns: "foldE (step_apply marshal) (ns_steps H n) = (\<lambda>t.
      (let ns = NameSpace n; txops = fold (applyKVWrite ns []) (Writes (KvRwSet n)) t in
       bindE (foldE (applyMetadata marshal ns []) (MetadataWrites (KvRwSet n)) txops)
         (foldE (\<lambda>c. foldE (step_apply marshal) (coll_steps H ns c)) (CollHashedRwSets n))))" for n
    by (simp add: fun_eq_iff ns_steps_def foldE_append foldE_append [abs_def] foldE_map applyKVWrite_step applyMetadata_step foldE_fold Let_def foldE_concat)
  show ?thesis
    unfolding applyTxRwset_def tx_steps_def foldE_concat foldE_map ns
    by (simp only: coll_steps_apply [abs_def] Let_def)
qed

section \<open>The entry of each key\<close>

abbreviation no_ops :: keyOps where
  "no_ops \<equiv> \<lparr>ko_flag = 0, ko_value = None, ko_metadata = None\<rparr>"

lemma getOrCreateKeyEntry_empty [simp]: "getOrCreateKeyEntry [] k = no_ops"
  by (simp add: getOrCreateKeyEntry_def)

lemma getOrCreateKeyEntry_update [simp]:
  "getOrCreateKeyEntry (AList.update k e t) k' = (if k' = k then e else getOrCreateKeyEntry t k')"
  by (simp add: getOrCreateKeyEntry_def)

lemma steps_entry:
  assumes "foldE (step_apply marshal) ss t = Inr t'"
  shows "foldE (entry_step marshal) (filter (\<lambda>s. step_key s = ck) ss) (getOrCreateKeyEntry t ck) =
      Inr (getOrCreateKeyEntry t' ck) \<and>
    (map_of t' ck = None \<longleftrightarrow> map_of t ck = None \<and> filter (\<lambda>s. step_key s = ck) ss = []) \<and>
    (wf_map t \<longrightarrow> wf_map t')"
  using assms
proof (induction ss arbitrary: t)
  case (Cons s ss)
  then obtain t1 where t1: "step_apply marshal s t = Inr t1" and t2: "foldE (step_apply marshal) ss t1 = Inr t'"
    by (auto simp: go_res)
  then obtain e where e: "entry_step marshal s (getOrCreateKeyEntry t (step_key s)) = Inr e"
    and t1': "t1 = AList.update (step_key s) e t"
    by (auto simp: go_res step_apply_def)
  note t' = t2 [unfolded t1']
  from Cons.IH [OF t'] e show ?case by (auto split: if_splits)
qed simp

lemma steps_succeed:
  assumes "\<And>s e. s \<in> set ss \<Longrightarrow> \<exists>e'. entry_step marshal s e = Inr e'"
  shows "\<exists>t'. foldE (step_apply marshal) ss t = Inr t'"
  using assms
proof (induction ss arbitrary: t)
  case (Cons s ss)
  from Cons.prems [of s] obtain e' where "entry_step marshal s (getOrCreateKeyEntry t (step_key s)) = Inr e'" by auto
  with Cons show ?case by (simp add: step_apply_def)
qed simp

text \<open>The write and the metadata write of a key.\<close>

fun write_of :: "rw_step list \<Rightarrow> compositeKey \<Rightarrow> KVWrite option" where
  "write_of [] ck = None"
| "write_of (KW k w # ss) ck = (if k = ck then Some w else write_of ss ck)"
| "write_of (MW k es # ss) ck = write_of ss ck"

fun metadata_of :: "rw_step list \<Rightarrow> compositeKey \<Rightarrow> KVMetadataEntry list option" where
  "metadata_of [] ck = None"
| "metadata_of (MW k es # ss) ck = (if k = ck then Some es else metadata_of ss ck)"
| "metadata_of (KW k w # ss) ck = metadata_of ss ck"

text \<open>A read-write set as the builder makes it writes each key, and the metadata of each key, once.\<close>

definition wf_steps :: "rw_step list \<Rightarrow> bool" where
  "wf_steps ss = distinct (map (\<lambda>s. (is_KW s, step_key s)) ss)"

lemma write_of_None: "write_of ss ck = None \<longleftrightarrow> (\<forall>s \<in> set ss. \<not> (is_KW s \<and> step_key s = ck))"
proof (induction ss)
  case (Cons s ss)
  then show ?case by (cases s) auto
qed simp

lemma metadata_of_None: "metadata_of ss ck = None \<longleftrightarrow> (\<forall>s \<in> set ss. \<not> (\<not> is_KW s \<and> step_key s = ck))"
proof (induction ss)
  case (Cons s ss)
  then show ?case by (cases s) auto
qed simp

definition key_entry :: "(KVMetadataWrite \<Rightarrow> bytes res) \<Rightarrow> KVWrite option \<Rightarrow> KVMetadataEntry list option \<Rightarrow> keyOps res" where
  "key_entry marshal w md =
     bindE (case w of None \<Rightarrow> Inr no_ops | Some w \<Rightarrow> entry_step marshal (KW (mk_compositeKey [] [] []) w) no_ops) (\<lambda>e.
       case md of None \<Rightarrow> Inr e | Some es \<Rightarrow> entry_step marshal (MW (mk_compositeKey [] [] []) es) e)"

lemma key_filter_cases:
  assumes "wf_steps ss"
  shows "filter (\<lambda>s. step_key s = ck) ss =
     (case (write_of ss ck, metadata_of ss ck) of
        (None, None) \<Rightarrow> [] | (Some w, None) \<Rightarrow> [KW ck w] | (None, Some es) \<Rightarrow> [MW ck es]
      | (Some w, Some es) \<Rightarrow> (if is_KW (hd (filter (\<lambda>s. step_key s = ck) ss)) then [KW ck w, MW ck es] else [MW ck es, KW ck w]))"
  using assms
proof (induction ss)
  case (Cons s ss)
  then have wf: "wf_steps ss" and fresh: "(is_KW s, step_key s) \<notin> (\<lambda>s. (is_KW s, step_key s)) ` set ss"
    by (auto simp: wf_steps_def)
  note IH = Cons.IH [OF wf]
  show ?case
  proof (cases s)
    case (KW k w)
    with fresh have "write_of ss k = None" by (auto simp: write_of_None image_iff)
    with KW IH show ?thesis by (auto split: option.splits)
  next
    case (MW k es)
    with fresh have "metadata_of ss k = None" by (auto simp: metadata_of_None image_iff)
    with MW IH show ?thesis by (auto split: option.splits)
  qed
qed simp

lemma wf_steps_entry:
  assumes "wf_steps ss"
  shows "foldE (entry_step marshal) (filter (\<lambda>s. step_key s = ck) ss) no_ops = key_entry marshal (write_of ss ck) (metadata_of ss ck)"
  by (subst key_filter_cases [OF assms])
    (auto simp: key_entry_def statemetadata_Serialize_def bindE_assoc split: option.splits intro!: arg_cong2 [where f = bindE])

section \<open>Completing the entries\<close>

text \<open>What the loop leaves of the entry of a key; \<open>None\<close> where the key is dropped.\<close>

definition complete_entry ::
  "publicAndHashUpdates \<Rightarrow> ('s, 'b) DB \<Rightarrow> compositeKey \<Rightarrow> keyOps \<Rightarrow> keyOps option res" where
  "complete_entry u db ck e =
     (if keyOps_isDelete e \<or> isUpsertAndMetadataUpdate e then Inr (Some e)
      else if isOnlyUpsert e then
        bindE (retrieveLatestMetadata (cmp_ns ck) (cmp_coll ck) (cmp_key ck) u db) (\<lambda>md. Inr (Some (e\<lparr>ko_metadata := md\<rparr>)))
      else bindE (retrieveLatestState (cmp_ns ck) (cmp_coll ck) (cmp_key ck) u db) (\<lambda>vv.
        Inr (map_option (\<lambda>vv. e\<lparr>ko_value := vv_Value vv\<rparr>) vv)))"

lemma completeKeyOps_entry:
  assumes "completeKeyOps u db (ck, e) t = Inr t'" and "map_of t ck = Some e"
  shows "\<exists>r. complete_entry u db ck e = Inr r \<and> map_of t' = (map_of t)(ck := r) \<and> (wf_map t \<longrightarrow> wf_map t')"
proof (cases "keyOps_isDelete e \<or> isUpsertAndMetadataUpdate e \<or> isOnlyUpsert e")
  case True
  with assms show ?thesis by (auto simp: completeKeyOps_def complete_entry_def go_res fun_eq_iff split: if_splits)
next
  case False
  with assms(1) obtain vv where "retrieveLatestState (cmp_ns ck) (cmp_coll ck) (cmp_key ck) u db = Inr vv"
    and "(case vv of Some vv \<Rightarrow> Inr (AList.update ck (e\<lparr>ko_value := vv_Value vv\<rparr>) t) | None \<Rightarrow> Inr (AList.delete ck t)) = (Inr t' :: txOps res)"
    by (auto simp: completeKeyOps_def go_res)
  with False show ?thesis by (cases vv) (auto simp: complete_entry_def)
qed

lemma complete_all:
  assumes "foldE (completeKeyOps u db) es t = Inr t'" and "distinct (map fst es)"
    and "\<And>ck e. (ck, e) \<in> set es \<Longrightarrow> map_of t ck = Some e" and "wf_map t"
  shows "wf_map t' \<and> (case map_of es ck of None \<Rightarrow> map_of t' ck = map_of t ck
    | Some e \<Rightarrow> complete_entry u db ck e = Inr (map_of t' ck))"
  using assms
proof (induction es arbitrary: t)
  case (Cons x es)
  obtain k e where x: "x = (k, e)" by fastforce
  with Cons.prems(1) obtain t1 where t1: "completeKeyOps u db (k, e) t = Inr t1"
    and t': "foldE (completeKeyOps u db) es t1 = Inr t'" by (auto simp: go_res)
  from completeKeyOps_entry [OF t1] Cons.prems(3) [of k e] x obtain r where
    r: "complete_entry u db k e = Inr r" "map_of t1 = (map_of t)(k := r)" "wf_map t \<longrightarrow> wf_map t1" by auto
  have fresh: "map_of es k = None" using Cons.prems(2) x by (simp add: map_of_eq_None_iff)
  then have keep: "map_of t1 ck' = Some e'" if "(ck', e') \<in> set es" for ck' e'
    using Cons.prems(3) [of ck' e'] that r(2) x by (force simp: map_of_eq_None_iff)
  from Cons.IH [OF t' _ keep] Cons.prems(2,4) r(3) x
  have "wf_map t' \<and> (case map_of es ck of None \<Rightarrow> map_of t' ck = map_of t1 ck
    | Some e \<Rightarrow> complete_entry u db ck e = Inr (map_of t' ck))" by simp
  with r fresh x show ?case by (auto split: option.splits)
qed simp

lemma complete_succeeds:
  assumes "\<And>ck e. (ck, e) \<in> set es \<Longrightarrow> \<exists>r. complete_entry u db ck e = Inr r"
  shows "\<exists>t'. foldE (completeKeyOps u db) es t = Inr t'"
  using assms
proof (induction es arbitrary: t)
  case (Cons x es)
  obtain k e where x: "x = (k, e)" by fastforce
  have "\<exists>t1. completeKeyOps u db (k, e) t = Inr t1"
  proof (cases "keyOps_isDelete e \<or> isUpsertAndMetadataUpdate e \<or> isOnlyUpsert e")
    case True
    with Cons.prems [of k e] x show ?thesis by (auto simp: completeKeyOps_def complete_entry_def go_res split: if_splits)
  next
    case False
    with Cons.prems [of k e] x obtain vv where "retrieveLatestState (cmp_ns k) (cmp_coll k) (cmp_key k) u db = Inr vv"
      by (auto simp: complete_entry_def go_res)
    with False show ?thesis by (cases vv) (auto simp: completeKeyOps_def)
  qed
  with Cons x show ?case by auto
qed simp

text \<open>The entries a transaction ends up with.\<close>

lemma prepareTxOps_entry:
  assumes "prepareTxOps marshal H rwset u db = Inr txops" and "wf_steps (tx_steps H rwset)"
    and "w = write_of (tx_steps H rwset) ck" and "md = metadata_of (tx_steps H rwset) ck"
  shows "wf_map txops \<and> (if w = None \<and> md = None then map_of txops ck = None
    else \<exists>e. key_entry marshal w md = Inr e \<and> complete_entry u db ck e = Inr (map_of txops ck))"
proof -
  obtain t where t: "foldE (step_apply marshal) (tx_steps H rwset) [] = Inr t"
    and c: "foldE (completeKeyOps u db) t t = Inr txops"
    using assms(1) by (auto simp: prepareTxOps_def applyTxRwset_steps go_res)
  from steps_entry [OF t, of ck] have e: "key_entry marshal w md = Inr (getOrCreateKeyEntry t ck)" and wf: "wf_map t"
    and N: "map_of t ck = None \<longleftrightarrow> filter (\<lambda>s. step_key s = ck) (tx_steps H rwset) = []"
    using wf_steps_entry [OF assms(2), of marshal ck] assms(3,4) by simp_all
  have d: "distinct (map fst t)" using wf by (simp add: wf_map_def)
  have "map_of t ck' = Some e'" if "(ck', e') \<in> set t" for ck' e' using d that by simp
  from complete_all [OF c d this wf, of ck]
  have "wf_map txops \<and> (case map_of t ck of None \<Rightarrow> map_of txops ck = None
    | Some e \<Rightarrow> complete_entry u db ck e = Inr (map_of txops ck))"
    by (cases "map_of t ck") auto
  moreover have "map_of t ck = None \<longleftrightarrow> w = None \<and> md = None"
    unfolding N assms(3,4) write_of_None metadata_of_None by (auto simp: filter_empty_conv)
  ultimately show ?thesis using e by (auto simp: getOrCreateKeyEntry_def split: option.splits if_splits)
qed

section \<open>Putting the entries into the updates\<close>

definition phu_get :: "publicAndHashUpdates \<Rightarrow> compositeKey \<Rightarrow> VersionedValue option" where
  "phu_get u ck =
     (if cmp_coll ck = [] then UpdateBatch_Get (publicUpdates u) (cmp_ns ck) (cmp_key ck)
      else UpdateMap_Get (hashUpdates u) (cmp_ns ck) (cmp_coll ck) (cmp_key ck))"

definition phu_upd :: "compositeKey \<Rightarrow> VersionedValue \<Rightarrow> publicAndHashUpdates \<Rightarrow> publicAndHashUpdates" where
  "phu_upd ck vv u =
     (if cmp_coll ck = [] then u\<lparr>publicUpdates := UpdateBatch_Update (cmp_ns ck) (cmp_key ck) vv (publicUpdates u)\<rparr>
      else u\<lparr>hashUpdates := AList.update (cmp_ns ck)
             (UpdateBatch_Update (cmp_coll ck) (cmp_key ck) vv (getOrCreateNsBatch (hashUpdates u) (cmp_ns ck))) (hashUpdates u)\<rparr>)"

interpretation phu: kv_store phu_get phu_upd
proof
  fix k v s k'
  show "phu_get (phu_upd k v s) k' = (if k' = k then Some v else phu_get s k')"
    by (cases k; cases k') (auto simp: phu_get_def phu_upd_def)
qed

definition entry_value :: "Height option \<Rightarrow> keyOps \<Rightarrow> VersionedValue" where
  "entry_value h e =
     (if keyOps_isDelete e then \<lparr>vv_Value = None, vv_Metadata = None, vv_Version = h\<rparr>
      else \<lparr>vv_Value = ko_value e, vv_Metadata = ko_metadata e, vv_Version = h\<rparr>)"

definition nil_value :: "keyOps \<Rightarrow> bool" where
  "nil_value e = (\<not> keyOps_isDelete e \<and> ko_value e = None)"

abbreviation nil_value_panic :: goerr where
  "nil_value_panic \<equiv> Panic ''Nil value not allowed. Instead call 'Delete' function''"

lemma applyKeyOps_upd:
  "applyKeyOps h (ck, e) u = (if nil_value e then Inl nil_value_panic else Inr (phu_upd ck (entry_value h e) u))"
  by (auto simp: applyKeyOps_def nil_value_def entry_value_def phu_upd_def PutValAndMetadata_def UpdateBatch_Delete_def
      Hashed_Delete_def UpdateMap_Delete_def PutValHashAndMetadata_def UpdateMap_PutValAndMetadata_def)

lemma applyKeyOps_all:
  "foldE (applyKeyOps h) es u =
     (if list_ex (\<lambda>(ck, e). nil_value e) es then Inl nil_value_panic
      else Inr (fold (\<lambda>(ck, e). phu_upd ck (entry_value h e)) es u))"
  by (induction es arbitrary: u) (auto simp: applyKeyOps_upd)

lemma phu_get_fold:
  assumes "wf_map es"
  shows "phu_get (fold (\<lambda>(ck, e). phu_upd ck (entry_value h e)) es u) ck =
     (case map_of es ck of Some e \<Rightarrow> Some (entry_value h e) | None \<Rightarrow> phu_get u ck)"
proof -
  have "fold (\<lambda>(ck, e). phu_upd ck (entry_value h e)) es u =
      fold (\<lambda>(k, v). phu_upd k v) (map (\<lambda>(ck, e). (ck, entry_value h e)) es) u" for u
    by (induction es arbitrary: u) auto
  moreover have "map_of (map (\<lambda>(ck, e). (ck, entry_value h e)) es) ck = map_option (entry_value h) (map_of es ck)"
    by (induction es) auto
  moreover have "distinct (map fst (map (\<lambda>(ck, e). (ck, entry_value h e)) es))"
    using assms by (simp add: wf_map_def comp_def case_prod_unfold)
  ultimately show ?thesis by (simp add: phu.get_fold_upd_distinct split: option.splits)
qed

text \<open>Well-formed updates: maps as Go has them, and a deletion carries no metadata.\<close>

definition wf_phu :: "publicAndHashUpdates \<Rightarrow> bool" where
  "wf_phu u \<longleftrightarrow> wf_batch (publicUpdates u) \<and> wf_map_batch (hashUpdates u) \<and>
     (\<forall>ck vv. phu_get u ck = Some vv \<longrightarrow> VersionedValue_IsDelete vv \<longrightarrow> vv_Metadata vv = None)"

lemma wf_phu_new [simp]: "wf_phu newPubAndHashUpdates"
  by (simp add: wf_phu_def newPubAndHashUpdates_def phu_get_def UpdateMap_Get_def)

lemma wf_phu_upd:
  "wf_phu u \<Longrightarrow> (VersionedValue_IsDelete vv \<Longrightarrow> vv_Metadata vv = None) \<Longrightarrow> wf_phu (phu_upd ck vv u)"
  by (simp add: wf_phu_def phu.get_upd) (simp add: phu_upd_def)

lemma wf_phu_fold:
  assumes "wf_phu u" and "\<not> list_ex (\<lambda>(ck, e). nil_value e) es"
  shows "wf_phu (fold (\<lambda>(ck, e). phu_upd ck (entry_value h e)) es u)"
  using assms
proof (induction es arbitrary: u)
  case (Cons x es)
  obtain k e where x: "x = (k, e)" by fastforce
  have "wf_phu (phu_upd k (entry_value h e) u)"
    using Cons.prems x by (intro wf_phu_upd) (auto simp: nil_value_def entry_value_def VersionedValue_IsDelete_def split: if_splits)
  with Cons x show ?case by simp
qed simp

section \<open>The state with the updates on top\<close>

definition db_value ::
  "('s \<Rightarrow> gostring \<Rightarrow> gostring \<Rightarrow> VersionedValue option) \<Rightarrow> ('s, 'b) DB \<Rightarrow> compositeKey \<Rightarrow> VersionedValue option" where
  "db_value contents db ck =
     (if cmp_coll ck = [] then contents (db_state db) (cmp_ns ck) (cmp_key ck)
      else contents (db_state db) (deriveHashedDataNs (cmp_ns ck) (cmp_coll ck)) (keyHashStr db (cmp_key ck)))"

definition world ::
  "('s \<Rightarrow> gostring \<Rightarrow> gostring \<Rightarrow> VersionedValue option) \<Rightarrow> ('s, 'b) DB \<Rightarrow> publicAndHashUpdates \<Rightarrow>
   compositeKey \<Rightarrow> VersionedValue option" where
  "world contents db u ck = overlay (phu_get u ck) (db_value contents db ck)"

text \<open>Composite keys of chaincode names and namespaces the database can tell apart.\<close>

definition valid_ck :: "(gostring \<Rightarrow> bool) \<Rightarrow> compositeKey \<Rightarrow> bool" where
  "valid_ck valid_ns ck \<longleftrightarrow> no_dollar (cmp_ns ck) \<and>
     (if cmp_coll ck = [] then valid_ns (cmp_ns ck) else valid_ns (deriveHashedDataNs (cmp_ns ck) (cmp_coll ck)))"

text \<open>
  The specification of a transaction's effect on a key: a deletion removes it, a written value
  replaces it and keeps the metadata unless that is written too, and metadata alone is written only
  to a key that exists.
\<close>

definition write_effect ::
  "KVWrite option \<Rightarrow> gobytes option \<Rightarrow> Height option \<Rightarrow> VersionedValue option \<Rightarrow> VersionedValue option" where
  "write_effect w md h old =
     (case w of
        Some w \<Rightarrow> if IsKVWriteDelete w then None
          else Some \<lparr>vv_Value = w_Value w,
            vv_Metadata = (case md of Some m \<Rightarrow> m | None \<Rightarrow> Option.bind old vv_Metadata), vv_Version = h\<rparr>
      | None \<Rightarrow> (case md of None \<Rightarrow> old
          | Some m \<Rightarrow> map_option (\<lambda>vv. \<lparr>vv_Value = vv_Value vv, vv_Metadata = m, vv_Version = h\<rparr>) old))"

definition metadata_bytes :: "(KVMetadataWrite \<Rightarrow> bytes res) \<Rightarrow> KVMetadataEntry list \<Rightarrow> gobytes" where
  "metadata_bytes marshal es = (if es = [] then None else projr (statemetadata_Serialize marshal es))"

lemma retrieveLatestState_world:
  assumes "versioned_db (db_VersionedDB db) contents valid_ns stored_as"
    and "retrieveLatestState (cmp_ns ck) (cmp_coll ck) (cmp_key ck) u db = Inr vv"
  shows "vv = (case phu_get u ck of None \<Rightarrow> db_value contents db ck | Some vv \<Rightarrow> Some vv)"
  using assms(2) versioned_db.GetState_contents [OF assms(1)]
  by (auto simp: retrieveLatestState_def phu_get_def db_value_def GetValueHash_def split: option.splits if_splits)

lemma retrieveLatestMetadata_world:
  assumes "versioned_db (db_VersionedDB db) contents valid_ns stored_as" and "hint_ok contents valid_ns bcontents db"
    and "valid_ck valid_ns ck" and "wf_phu u"
    and "retrieveLatestMetadata (cmp_ns ck) (cmp_coll ck) (cmp_key ck) u db = Inr md"
  shows "md = Option.bind (world contents db u ck) vv_Metadata"
proof (cases "phu_get u ck")
  case None
  with assms(3,5) metadata_read [OF assms(1,2), of "cmp_ns ck" "cmp_key ck"]
    metadata_read_hashed [OF assms(1,2), of "cmp_ns ck" "cmp_coll ck" "cmp_key ck"]
  show ?thesis
    by (auto simp: retrieveLatestMetadata_def phu_get_def world_def db_value_def valid_ck_def split: if_splits)
next
  case (Some vv)
  with assms(4) have "VersionedValue_IsDelete vv \<Longrightarrow> vv_Metadata vv = None" unfolding wf_phu_def by blast
  with assms(5) Some show ?thesis
    by (auto simp: retrieveLatestMetadata_def phu_get_def world_def split: if_splits)
qed

lemmas flag_defs = upsertVal_def metadataUpdate_def metadataDelete_def keyDelete_def
  keyOps_isDelete_def isUpsertAndMetadataUpdate_def isOnlyUpsert_def

lemma key_entry_flags:
  assumes "key_entry marshal w md = Inr e"
  shows "keyOps_isDelete e \<longleftrightarrow> (\<exists>x. w = Some x \<and> IsKVWriteDelete x)"
    and "isUpsertAndMetadataUpdate e \<longleftrightarrow> (\<exists>x. w = Some x \<and> \<not> IsKVWriteDelete x) \<and> md \<noteq> None"
    and "w \<noteq> None \<or> md \<noteq> None \<Longrightarrow> isOnlyUpsert e \<longleftrightarrow> (\<exists>x. w = Some x \<and> \<not> IsKVWriteDelete x) \<and> md = None"
    and "ko_value e = (case w of None \<Rightarrow> None | Some x \<Rightarrow> if IsKVWriteDelete x then None else w_Value x)"
    and "ko_metadata e = (case md of None \<Rightarrow> None | Some es \<Rightarrow> metadata_bytes marshal es)"
  using assms
  by (auto simp: key_entry_def flag_defs metadata_bytes_def go_res split: option.splits if_splits)

lemma not_delete_value: "\<not> IsKVWriteDelete w \<Longrightarrow> w_Value w \<noteq> None"
  by (cases "w_Value w") (auto simp: IsKVWriteDelete_def len_bytes_def)

text \<open>The value that ends up in the updates of a key, and when it is nil.\<close>

lemma complete_entry_effect:
  assumes "versioned_db (db_VersionedDB db) contents valid_ns stored_as" and "hint_ok contents valid_ns bcontents db"
    and "valid_ck valid_ns ck" and "wf_phu u" and "key_entry marshal w md = Inr e" and "w \<noteq> None \<or> md \<noteq> None"
    and "complete_entry u db ck e = Inr r" and "\<And>e'. r = Some e' \<Longrightarrow> \<not> nil_value e'"
  shows "overlay (case r of Some e' \<Rightarrow> Some (entry_value h e') | None \<Rightarrow> phu_get u ck) (db_value contents db ck) =
    write_effect w (map_option (metadata_bytes marshal) md) h (world contents db u ck)"
proof (cases w)
  case None
  note fl = key_entry_flags [OF assms(5)]
  with None assms(6) obtain es where md: "md = Some es" "\<not> keyOps_isDelete e" "\<not> isUpsertAndMetadataUpdate e" "\<not> isOnlyUpsert e"
    by auto
  with assms(7) obtain vv where vv: "retrieveLatestState (cmp_ns ck) (cmp_coll ck) (cmp_key ck) u db = Inr vv"
    and r: "r = map_option (\<lambda>vv. e\<lparr>ko_value := vv_Value vv\<rparr>) vv" by (auto simp: complete_entry_def go_res)
  from retrieveLatestState_world [OF assms(1) vv]
  have vv': "vv = (case phu_get u ck of None \<Rightarrow> db_value contents db ck | Some vv \<Rightarrow> Some vv)" .
  have nd: "keyOps_isDelete (e\<lparr>ko_value := x\<rparr>) = keyOps_isDelete e" for x by (simp add: keyOps_isDelete_def)
  show ?thesis
  proof (cases vv)
    case None
    with vv' r \<open>w = None\<close> md show ?thesis
      by (auto simp: write_effect_def world_def split: option.splits)
  next
    case (Some x)
    with r assms(8) md nd have "vv_Value x \<noteq> None" by (auto simp: nil_value_def)
    then have "world contents db u ck = Some x"
      using Some vv' by (auto simp: world_def VersionedValue_IsDelete_def split: option.splits)
    with Some r \<open>w = None\<close> md nd fl(5) \<open>vv_Value x \<noteq> None\<close> show ?thesis
      by (auto simp: write_effect_def entry_value_def VersionedValue_IsDelete_def)
  qed
next
  case (Some x)
  note fl = key_entry_flags [OF assms(5)]
  consider "IsKVWriteDelete x" | "\<not> IsKVWriteDelete x" "md \<noteq> None" | "\<not> IsKVWriteDelete x" "md = None" by blast
  then show ?thesis
  proof cases
    case 1
    with Some fl(1) assms(7) show ?thesis
      by (auto simp: complete_entry_def entry_value_def write_effect_def VersionedValue_IsDelete_def)
  next
    case 2
    with Some fl assms(7) not_delete_value [of x] show ?thesis
      by (auto simp: complete_entry_def entry_value_def write_effect_def VersionedValue_IsDelete_def)
  next
    case 3
    with Some fl assms(7) obtain latest where
      "retrieveLatestMetadata (cmp_ns ck) (cmp_coll ck) (cmp_key ck) u db = Inr latest" and r: "r = Some (e\<lparr>ko_metadata := latest\<rparr>)"
      by (auto simp: complete_entry_def go_res)
    from retrieveLatestMetadata_world [OF assms(1-4) this(1)] r 3 Some fl not_delete_value [of x]
    show ?thesis by (auto simp: entry_value_def write_effect_def VersionedValue_IsDelete_def keyOps_isDelete_def)
  qed
qed

lemma applyWriteSet_world:
  assumes "versioned_db (db_VersionedDB db) contents valid_ns stored_as" and "hint_ok contents valid_ns bcontents db"
    and "wf_steps (tx_steps H rwset)" and "wf_phu u" and "applyWriteSet marshal H rwset h db post u = Inr u'"
  shows "wf_phu u'"
    and "valid_ck valid_ns ck \<Longrightarrow> world contents db u' ck =
      write_effect (write_of (tx_steps H rwset) ck) (map_option (metadata_bytes marshal) (metadata_of (tx_steps H rwset) ck)) h
        (world contents db u ck)"
proof -
  let ?u = "u\<lparr>publicUpdates := (publicUpdates u)\<lparr>ContainsPostOrderWrites := ContainsPostOrderWrites (publicUpdates u) \<or> post\<rparr>\<rparr>"
  have same: "phu_get ?u = phu_get u" by (simp add: phu_get_def fun_eq_iff)
  then have wf: "wf_phu ?u" using assms(4) by (simp add: wf_phu_def)
  obtain txops where p: "prepareTxOps marshal H rwset ?u db = Inr txops" and "foldE (applyKeyOps h) txops ?u = Inr u'"
    using assms(5) by (auto simp: applyWriteSet_def Let_def go_res)
  then have nn: "\<not> list_ex (\<lambda>(ck, e). nil_value e) txops" and u': "u' = fold (\<lambda>(ck, e). phu_upd ck (entry_value h e)) txops ?u"
    by (auto simp: applyKeyOps_all split: if_splits)
  show "wf_phu u'" unfolding u' by (rule wf_phu_fold [OF wf nn])
  assume ck: "valid_ck valid_ns ck"
  let ?w = "write_of (tx_steps H rwset) ck" and ?md = "metadata_of (tx_steps H rwset) ck"
  note pe = prepareTxOps_entry [OF p assms(3) refl refl, of ck]
  then have get: "phu_get u' ck = (case map_of txops ck of Some e \<Rightarrow> Some (entry_value h e) | None \<Rightarrow> phu_get ?u ck)"
    unfolding u' by (intro phu_get_fold) simp
  show "world contents db u' ck = write_effect ?w (map_option (metadata_bytes marshal) ?md) h (world contents db u ck)"
  proof (cases "?w = None \<and> ?md = None")
    case True
    with pe get same show ?thesis by (simp add: world_def write_effect_def)
  next
    case False
    with pe obtain e where e: "key_entry marshal ?w ?md = Inr e" "complete_entry ?u db ck e = Inr (map_of txops ck)" by auto
    have "\<not> nil_value e'" if "map_of txops ck = Some e'" for e'
      using nn that by (auto simp: list_ex_iff dest: map_of_SomeD)
    from complete_entry_effect [OF assms(1,2) ck wf e(1) _ e(2) this, of h] False get same
    show ?thesis by (auto simp: world_def)
  qed
qed

text \<open>
  C3: Applying the write set of a transaction updates the state, the database with the block's
  updates on top, key by key as specified: a deletion removes the key, a written value replaces the
  old one at the transaction's height and keeps the metadata unless the transaction writes that too,
  a metadata write alone changes a key that exists and does nothing to one that does not, and every
  other key is left as it was. This holds for public keys and for the hashed keys of collections,
  and for every iteration order of the maps.
\<close>

theorem write_set_refines_state_update:
  assumes "versioned_db (db_VersionedDB db) contents valid_ns stored_as" and "hint_ok contents valid_ns bcontents db"
    and "wf_steps (tx_steps ComputeHash rwset)" and "wf_phu u" and "valid_ck valid_ns ck"
    and "applyWriteSet marshal ComputeHash rwset height db containsPostOrderWrites u = Inr u'"
  shows "wf_phu u' \<and> world contents db u' ck =
    write_effect (write_of (tx_steps ComputeHash rwset) ck)
      (map_option (metadata_bytes marshal) (metadata_of (tx_steps ComputeHash rwset) ck)) height
      (world contents db u ck)"
  using applyWriteSet_world [OF assms(1-4,6)] assms(5) by blast

section \<open>When applying a write set fails\<close>

lemma entry_step_succeeds:
  assumes "\<And>m. \<exists>b. marshal m = Inr b"
  shows "\<exists>e'. entry_step marshal s e = Inr e'"
  using assms by (cases s) (auto simp: statemetadata_Serialize_def go_res)

lemma complete_entry_succeeds:
  assumes "\<And>ns key. \<exists>v. db_GetState db ns key = Inr v"
  shows "\<exists>r. complete_entry u db ck e = Inr r"
proof -
  have md: "\<exists>md. bindE (db_GetState db ns key) (\<lambda>vv. case vv of None \<Rightarrow> Inr None | Some vv \<Rightarrow> Inr (vv_Metadata vv)) = Inr md" for ns key
    using assms [of ns key] by (auto split: option.splits)
  have "\<exists>vv. retrieveLatestState (cmp_ns ck) (cmp_coll ck) (cmp_key ck) u db = Inr vv"
    using assms by (auto simp: retrieveLatestState_def GetValueHash_def split: option.splits)
  moreover have "\<exists>md. retrieveLatestMetadata (cmp_ns ck) (cmp_coll ck) (cmp_key ck) u db = Inr md"
    using md by (auto simp: retrieveLatestMetadata_def GetStateMetadata_def GetPrivateDataMetadataByHash_def
        GetValueHash_def split: option.splits)
  ultimately show ?thesis by (auto simp: complete_entry_def)
qed

lemma complete_entry_nil:
  assumes "versioned_db (db_VersionedDB db) contents valid_ns stored_as" and "key_entry marshal w md = Inr e"
    and "w \<noteq> None \<or> md \<noteq> None" and "complete_entry u db ck e = Inr r"
  shows "(\<exists>e'. r = Some e' \<and> nil_value e') \<longleftrightarrow> w = None \<and> (\<exists>vv. phu_get u ck = Some vv \<and> VersionedValue_IsDelete vv)"
proof (cases w)
  case None
  note fl = key_entry_flags [OF assms(2)]
  with None assms(3) have f: "\<not> keyOps_isDelete e" "\<not> isUpsertAndMetadataUpdate e" "\<not> isOnlyUpsert e" by auto
  with assms(4) obtain vv where vv: "retrieveLatestState (cmp_ns ck) (cmp_coll ck) (cmp_key ck) u db = Inr vv"
    and r: "r = map_option (\<lambda>vv. e\<lparr>ko_value := vv_Value vv\<rparr>) vv" by (auto simp: complete_entry_def go_res)
  have "vv_Value x \<noteq> None" if "db_value contents db ck = Some x" for x
    using that versioned_db.contents_not_nil [OF assms(1)] by (auto simp: db_value_def split: if_splits)
  with retrieveLatestState_world [OF assms(1) vv] r f None show ?thesis
    by (auto simp: nil_value_def keyOps_isDelete_def VersionedValue_IsDelete_def split: option.splits)
next
  case (Some x)
  with key_entry_flags [OF assms(2)] assms(4) not_delete_value [of x] show ?thesis
    by (auto simp: complete_entry_def nil_value_def go_res keyOps_isDelete_def split: if_splits)
qed

lemma applyWriteSet_outcome:
  assumes "versioned_db (db_VersionedDB db) contents valid_ns stored_as" and "wf_steps (tx_steps H rwset)"
    and "\<And>ns key. \<exists>v. db_GetState db ns key = Inr v" and "\<And>m. \<exists>b. marshal m = Inr b"
  shows "if \<exists>ck vv. write_of (tx_steps H rwset) ck = None \<and> metadata_of (tx_steps H rwset) ck \<noteq> None \<and>
        phu_get u ck = Some vv \<and> VersionedValue_IsDelete vv
    then applyWriteSet marshal H rwset h db post u = Inl nil_value_panic
    else \<exists>u'. applyWriteSet marshal H rwset h db post u = Inr u'"
proof -
  let ?u = "u\<lparr>publicUpdates := (publicUpdates u)\<lparr>ContainsPostOrderWrites := ContainsPostOrderWrites (publicUpdates u) \<or> post\<rparr>\<rparr>"
  let ?w = "write_of (tx_steps H rwset)" and ?md = "metadata_of (tx_steps H rwset)"
  have same: "phu_get ?u = phu_get u" by (simp add: phu_get_def fun_eq_iff)
  obtain t where "foldE (step_apply marshal) (tx_steps H rwset) [] = Inr t"
    using steps_succeed [OF entry_step_succeeds, of "tx_steps H rwset" marshal "[]"] assms(4) by blast
  moreover obtain txops where "foldE (completeKeyOps ?u db) t t = Inr txops"
    using complete_succeeds [of t ?u db t] complete_entry_succeeds [OF assms(3)] by blast
  ultimately have p: "prepareTxOps marshal H rwset ?u db = Inr txops"
    by (simp add: prepareTxOps_def applyTxRwset_steps)
  note pe = prepareTxOps_entry [OF p assms(2) refl refl]
  have "list_ex (\<lambda>(ck, e). nil_value e) txops \<longleftrightarrow> (\<exists>ck e. map_of txops ck = Some e \<and> nil_value e)"
    using pe by (auto simp: list_ex_iff wf_map_def dest: map_of_SomeD)
  also have "\<dots> \<longleftrightarrow> (\<exists>ck vv. ?w ck = None \<and> ?md ck \<noteq> None \<and> phu_get u ck = Some vv \<and> VersionedValue_IsDelete vv)"
  proof -
    have "(\<exists>e. map_of txops ck = Some e \<and> nil_value e) \<longleftrightarrow>
        ?w ck = None \<and> ?md ck \<noteq> None \<and> (\<exists>vv. phu_get u ck = Some vv \<and> VersionedValue_IsDelete vv)" for ck
    proof (cases "?w ck = None \<and> ?md ck = None")
      case True
      with pe [of ck] show ?thesis by auto
    next
      case False
      with pe [of ck] obtain e where "key_entry marshal (?w ck) (?md ck) = Inr e" "complete_entry ?u db ck e = Inr (map_of txops ck)"
        by auto
      from complete_entry_nil [OF assms(1) this(1) _ this(2)] False same show ?thesis by auto
    qed
    then show ?thesis by blast
  qed
  finally show ?thesis
    using p by (auto simp: applyWriteSet_def Let_def applyKeyOps_all)
qed

text \<open>
  C4: Applying a write set to a database that answers every read and with metadata that can be
  serialized fails in exactly one case, and then by a panic: the transaction writes only the
  metadata of a key that an earlier transaction of the same block has deleted. In all other cases it
  succeeds; in particular a metadata write to a key that never existed is no failure.
\<close>

theorem write_set_panics_exactly:
  assumes "versioned_db (db_VersionedDB db) contents valid_ns stored_as" and "wf_steps (tx_steps ComputeHash rwset)"
    and "\<And>ns key. \<exists>v. db_GetState db ns key = Inr v" and "\<And>m. \<exists>b. marshal m = Inr b"
  shows "if \<exists>ck vv. write_of (tx_steps ComputeHash rwset) ck = None \<and> metadata_of (tx_steps ComputeHash rwset) ck \<noteq> None \<and>
        phu_get u ck = Some vv \<and> VersionedValue_IsDelete vv
    then applyWriteSet marshal ComputeHash rwset height db post u = Inl (Panic ''Nil value not allowed. Instead call 'Delete' function'')
    else \<exists>u'. applyWriteSet marshal ComputeHash rwset height db post u = Inr u'"
  by (rule applyWriteSet_outcome [OF assms])

section \<open>Witnesses\<close>

definition sample_marshal :: "KVMetadataWrite \<Rightarrow> bytes res" where
  "sample_marshal m = Inr ''md''"

text \<open>One transaction writes a value; another writes metadata to a key it does not write.\<close>

definition value_tx :: TxRwSet where
  "value_tx = \<lparr>NsRwSets = [\<lparr>NameSpace = ''ns1'', KvRwSet = \<lparr>Reads = [], RangeQueriesInfo = [],
     Writes = [\<lparr>w_Key = ''a'', w_IsDelete = False, w_Value = Some ''2''\<rparr>], MetadataWrites = []\<rparr>, CollHashedRwSets = []\<rparr>]\<rparr>"

definition metadata_tx :: TxRwSet where
  "metadata_tx = \<lparr>NsRwSets = [\<lparr>NameSpace = ''ns1'', KvRwSet = \<lparr>Reads = [], RangeQueriesInfo = [],
     Writes = [], MetadataWrites = [\<lparr>mw_Key = ''a'', mw_Entries = [\<lparr>me_Name = ''n'', me_Value = Some ''x''\<rparr>]\<rparr>]\<rparr>,
     CollHashedRwSets = []\<rparr>]\<rparr>"

abbreviation ck_a :: compositeKey where
  "ck_a \<equiv> mk_compositeKey ''ns1'' [] ''a''"

lemma sample_tx_steps:
  "tx_steps H value_tx = [KW ck_a \<lparr>w_Key = ''a'', w_IsDelete = False, w_Value = Some ''2''\<rparr>]"
  "tx_steps H metadata_tx = [MW ck_a [\<lparr>me_Name = ''n'', me_Value = Some ''x''\<rparr>]]"
  by (simp_all add: tx_steps_def ns_steps_def value_tx_def metadata_tx_def)

lemma sample_vdb': "versioned_db (db_VersionedDB sample_db') (\<lambda>s. level_contents sample_md_codec ''ch'' (map_of s)) no_NUL level_stored"
  using mdb.versioned_db_axioms by (simp add: sample_db'_def)

lemma sample_hint_ok': "hint_ok (\<lambda>s. level_contents sample_md_codec ''ch'' (map_of s)) no_NUL map_of sample_db'"
  using ApplyPrivacyAware_hint_ok [OF sample_vdb _ _ sample_updates_wf sample_hint_ok sample_private_commit sample_restart]
  by (simp add: sample_db_def mem.goleveldb_axioms no_NUL_def)

lemma sample_all_reads: "\<exists>v. db_GetState sample_db' ns key = Inr v"
  by (simp add: sample_db'_def leveldb_VersionedDB_def GetState_def DBHandle_Get_def DB_Get_def mem_ops_def sample_decode)

lemma sample_applied:
  "applyWriteSet sample_marshal (\<lambda>b. b) value_tx (Some (NewHeight 8 0)) sample_db' False newPubAndHashUpdates =
     Inr (phu_upd ck_a \<lparr>vv_Value = Some ''2'', vv_Metadata = Some ''m'', vv_Version = Some (NewHeight 8 0)\<rparr> newPubAndHashUpdates)"
  unfolding applyWriteSet_def prepareTxOps_def applyTxRwset_steps sample_tx_steps
  by (simp add: step_apply_def newPubAndHashUpdates_def NewUpdateBatch_def completeKeyOps_def IsKVWriteDelete_def len_bytes_def
      flag_defs retrieveLatestMetadata_def UpdateBatch_Get_def mk_compositeKey_def sample_metadata_reads applyKeyOps_def
      PutValAndMetadata_def phu_upd_def)

theorem write_set_refines_state_update_witness:
  "wf_phu (phu_upd ck_a \<lparr>vv_Value = Some ''2'', vv_Metadata = Some ''m'', vv_Version = Some (NewHeight 8 0)\<rparr> newPubAndHashUpdates) \<and>
   world (\<lambda>s. level_contents sample_md_codec ''ch'' (map_of s)) sample_db'
     (phu_upd ck_a \<lparr>vv_Value = Some ''2'', vv_Metadata = Some ''m'', vv_Version = Some (NewHeight 8 0)\<rparr> newPubAndHashUpdates) ck_a =
   write_effect (write_of (tx_steps (\<lambda>b. b) value_tx) ck_a)
      (map_option (metadata_bytes sample_marshal) (metadata_of (tx_steps (\<lambda>b. b) value_tx) ck_a)) (Some (NewHeight 8 0))
      (world (\<lambda>s. level_contents sample_md_codec ''ch'' (map_of s)) sample_db' newPubAndHashUpdates ck_a)"
  by (rule write_set_refines_state_update [OF sample_vdb' sample_hint_ok' _ wf_phu_new _ sample_applied])
    (simp_all add: sample_tx_steps wf_steps_def valid_ck_def mk_compositeKey_def no_dollar_def no_NUL_def)

theorem write_set_panics_exactly_witness:
  "applyWriteSet sample_marshal (\<lambda>b. b) metadata_tx (Some (NewHeight 8 1)) sample_db' False
     (phu_upd ck_a \<lparr>vv_Value = None, vv_Metadata = None, vv_Version = Some (NewHeight 8 0)\<rparr> newPubAndHashUpdates) =
   Inl (Panic ''Nil value not allowed. Instead call 'Delete' function'')"
proof -
  let ?u = "phu_upd ck_a \<lparr>vv_Value = None, vv_Metadata = None, vv_Version = Some (NewHeight 8 0)\<rparr> newPubAndHashUpdates"
  have "write_of (tx_steps (\<lambda>b. b) metadata_tx) ck_a = None \<and> metadata_of (tx_steps (\<lambda>b. b) metadata_tx) ck_a \<noteq> None \<and>
      phu_get ?u ck_a = Some \<lparr>vv_Value = None, vv_Metadata = None, vv_Version = Some (NewHeight 8 0)\<rparr> \<and>
      VersionedValue_IsDelete \<lparr>vv_Value = None, vv_Metadata = None, vv_Version = Some (NewHeight 8 0)\<rparr>"
    by (simp add: sample_tx_steps phu.get_upd VersionedValue_IsDelete_def)
  then have "\<exists>ck vv. write_of (tx_steps (\<lambda>b. b) metadata_tx) ck = None \<and> metadata_of (tx_steps (\<lambda>b. b) metadata_tx) ck \<noteq> None \<and>
      phu_get ?u ck = Some vv \<and> VersionedValue_IsDelete vv" by blast
  with write_set_panics_exactly [OF sample_vdb' _ sample_all_reads, of "\<lambda>b. b" metadata_tx sample_marshal ?u "Some (NewHeight 8 1)" False]
  show ?thesis by (simp add: sample_tx_steps wf_steps_def sample_marshal_def)
qed

end
