(* ===== verification/RangeQuery.thy ===== *)
theory RangeQuery
  imports StateLevelDB Merkle
begin

text \<open>
  Validation of range queries
  (core/ledger/kvledger/txmgmt/validation/combined_iterator.go and rangequery_validator.go): the
  iterator over the state database with the updates of the block so far on top, and the two
  validators that compare its results with the ones a transaction recorded. Shown: the combined
  iterator gives the range of the merged state; validation of raw reads accepts exactly the recorded
  results; validation of a merkle summary accepts exactly the results with that summary; and a case
  in which the latter panics instead of rejecting.
\<close>

section \<open>The combined iterator\<close>

record 's combinedIterator =
  ci_ns :: gostring
  ci_db :: "'s VersionedDB"
  ci_dbState :: 's
  ci_updates :: UpdateBatch
  ci_endKey :: gostring
  ci_includeEndKey :: bool
  ci_dbItr :: ResultsIterator
  ci_updatesItr :: nsIterator
  ci_dbItem :: "VersionedKV option"
  ci_updatesItem :: "VersionedKV option"
  ci_endKeyServed :: bool

definition newCombinedIterator ::
  "'s VersionedDB \<Rightarrow> 's \<Rightarrow> UpdateBatch \<Rightarrow> gostring \<Rightarrow> gostring \<Rightarrow> gostring \<Rightarrow> bool \<Rightarrow> 's combinedIterator res" where
  "newCombinedIterator db s updates ns startKey endKey includeEndKey =
     bindE (vdb_GetStateRangeScanIterator db s ns startKey endKey) (\<lambda>dbItr.
     let updatesItr = GetRangeScanIterator updates ns startKey endKey in
     bindE (fst (ResultsIterator_Next dbItr)) (\<lambda>dbItem.
     bindE (fst (nsIterator_Next updatesItr)) (\<lambda>updatesItem.
       Inr \<lparr>ci_ns = ns, ci_db = db, ci_dbState = s, ci_updates = updates, ci_endKey = endKey, ci_includeEndKey = includeEndKey,
            ci_dbItr = snd (ResultsIterator_Next dbItr), ci_updatesItr = snd (nsIterator_Next updatesItr),
            ci_dbItem = dbItem, ci_updatesItem = updatesItem, ci_endKeyServed = False\<rparr>)))"

definition isDelete :: "VersionedKV \<Rightarrow> bool" where
  "isDelete item = (vkv_Value item = None)"

text \<open>\<open>strings.Compare\<close>, and \<open>compareKeys\<close> in which nil is greater than every item.\<close>

definition strings_Compare :: "gostring \<Rightarrow> gostring \<Rightarrow> int" where
  "strings_Compare a b = (if a = b then 0 else if a < b then -1 else 1)"

definition compareKeys :: "VersionedKV option \<Rightarrow> VersionedKV option \<Rightarrow> int" where
  "compareKeys item1 item2 =
     (case item1 of None \<Rightarrow> (case item2 of None \<Rightarrow> 0 | Some _ \<Rightarrow> 1)
      | Some i1 \<Rightarrow> (case item2 of None \<Rightarrow> -1 | Some i2 \<Rightarrow> strings_Compare (vkv_Key i1) (vkv_Key i2)))"

definition serveEndKeyIfNeeded :: "'s combinedIterator \<Rightarrow> VersionedKV option res \<times> 's combinedIterator" where
  "serveEndKeyIfNeeded itr =
     (if \<not> ci_includeEndKey itr \<or> ci_endKeyServed itr then (Inr None, itr)
      else case (case UpdateBatch_Get (ci_updates itr) (ci_ns itr) (ci_endKey itr) of
                   Some vv \<Rightarrow> Inr (Some vv)
                 | None \<Rightarrow> vdb_GetState (ci_db itr) (ci_dbState itr) (ci_ns itr) (ci_endKey itr)) of
             Inl err \<Rightarrow> (Inl err, itr)
           | Inr vv \<Rightarrow>
               (let itr1 = itr\<lparr>ci_endKeyServed := True\<rparr> in
                case vv of None \<Rightarrow> (Inr None, itr1)
                | Some vv \<Rightarrow>
                    (let vkv = \<lparr>vkv_CompositeKey = \<lparr>ck_Namespace = ci_ns itr, ck_Key = ci_endKey itr\<rparr>,
                                vkv_VersionedValue = \<lparr>vv_Value = vv_Value vv, vv_Metadata = None, vv_Version = vv_Version vv\<rparr>\<rparr> in
                     if isDelete vkv then (Inr None, itr1) else (Inr (Some vkv), itr1))))"

text \<open>One move of each of the two iterators, as the calls in \<open>Next\<close> do it.\<close>

definition moveDB :: "bool \<Rightarrow> 's combinedIterator \<Rightarrow> 's combinedIterator res" where
  "moveDB move itr =
     (if \<not> move then Inr itr
      else bindE (fst (ResultsIterator_Next (ci_dbItr itr))) (\<lambda>item.
             Inr (itr\<lparr>ci_dbItem := item, ci_dbItr := snd (ResultsIterator_Next (ci_dbItr itr))\<rparr>)))"

definition moveUpdates :: "bool \<Rightarrow> 's combinedIterator \<Rightarrow> 's combinedIterator res" where
  "moveUpdates move itr =
     (if \<not> move then Inr itr
      else bindE (fst (nsIterator_Next (ci_updatesItr itr))) (\<lambda>item.
             Inr (itr\<lparr>ci_updatesItem := item, ci_updatesItr := snd (nsIterator_Next (ci_updatesItr itr))\<rparr>)))"

definition itemsLeft :: "'s combinedIterator \<Rightarrow> nat" where
  "itemsLeft itr =
     (case ci_dbItem itr of None \<Rightarrow> 0 | Some _ \<Rightarrow> Suc (length (ci_dbItr itr))) +
     (case ci_updatesItem itr of None \<Rightarrow> 0
      | Some _ \<Rightarrow> Suc (lastIndex (ci_updatesItr itr) - nextIndex (ci_updatesItr itr)))"

lemma moveDB_itemsLeft:
  "moveDB b itr = Inr itr' \<Longrightarrow> itemsLeft itr' \<le> itemsLeft itr \<and> (b \<and> ci_dbItem itr \<noteq> None \<longrightarrow> itemsLeft itr' < itemsLeft itr) \<and>
     ci_updatesItem itr' = ci_updatesItem itr" if "b \<longrightarrow> ci_dbItem itr \<noteq> None"
  using that
  by (cases "ci_dbItr itr" rule: ResultsIterator_Next.cases)
    (auto simp: moveDB_def itemsLeft_def go_res split: if_splits option.splits)

lemma moveUpdates_itemsLeft:
  "moveUpdates b itr = Inr itr' \<Longrightarrow> itemsLeft itr' \<le> itemsLeft itr \<and> (b \<longrightarrow> itemsLeft itr' < itemsLeft itr)"
  if "b \<longrightarrow> ci_updatesItem itr \<noteq> None"
  using that
  by (auto simp: moveUpdates_def itemsLeft_def nsIterator_Next_def Let_def go_res split: if_splits option.splits)

lemma moves_itemsLeft:
  assumes "bindE (moveDB (compareKeys (ci_dbItem itr) (ci_updatesItem itr) = -1 \<or> compareKeys (ci_dbItem itr) (ci_updatesItem itr) = 0) itr)
      (moveUpdates (compareKeys (ci_dbItem itr) (ci_updatesItem itr) = 0 \<or> compareKeys (ci_dbItem itr) (ci_updatesItem itr) = 1)) = Inr itr'"
    and "\<not> (ci_dbItem itr = None \<and> ci_updatesItem itr = None)"
  shows "itemsLeft itr' < itemsLeft itr"
proof -
  let ?c = "compareKeys (ci_dbItem itr) (ci_updatesItem itr)"
  from assms(1) obtain itr1 where m: "moveDB (?c = -1 \<or> ?c = 0) itr = Inr itr1" "moveUpdates (?c = 0 \<or> ?c = 1) itr1 = Inr itr'"
    by (auto simp: go_res)
  have "(?c = -1 \<or> ?c = 0) \<longrightarrow> ci_dbItem itr \<noteq> None" "(?c = 0 \<or> ?c = 1) \<longrightarrow> ci_updatesItem itr \<noteq> None"
    "(?c = -1 \<or> ?c = 0) \<or> (?c = 0 \<or> ?c = 1)"
    using assms(2) by (auto simp: compareKeys_def strings_Compare_def split: option.splits)
  with moveDB_itemsLeft [OF _ m(1)] moveUpdates_itemsLeft [OF _ m(2)] show ?thesis by auto
qed

text \<open>
  The selected item and the iterators to move; \<open>Next\<close> skips deleted items by calling itself.
\<close>

function combinedIterator_Next :: "'s combinedIterator \<Rightarrow> VersionedKV option res \<times> 's combinedIterator" where
  "combinedIterator_Next itr =
     (if ci_dbItem itr = None \<and> ci_updatesItem itr = None then serveEndKeyIfNeeded itr
      else
        (let compResult = compareKeys (ci_dbItem itr) (ci_updatesItem itr);
             selectedItem = (if compResult = -1 then ci_dbItem itr else ci_updatesItem itr);
             moveDBItr = (compResult = -1 \<or> compResult = 0);
             moveUpdatesItr = (compResult = 0 \<or> compResult = 1)
         in case bindE (moveDB moveDBItr itr) (moveUpdates moveUpdatesItr) of
              Inl err \<Rightarrow> (Inl err, itr)
            | Inr itr' \<Rightarrow>
                (case selectedItem of None \<Rightarrow> (Inl (Panic ''nil pointer dereference''), itr')
                 | Some item \<Rightarrow> if isDelete item then combinedIterator_Next itr' else (Inr (Some item), itr'))))"
  by pat_completeness auto
termination
  by (relation "measure itemsLeft") (auto dest: moves_itemsLeft)

declare combinedIterator_Next.simps [simp del]

section \<open>The validators\<close>

text \<open>\<open>rqInfo.GetRawReads().GetKvReads()\<close> and \<open>rqInfo.GetReadsMerkleHashes()\<close>, which are nil-safe.\<close>

definition GetRawReads :: "RangeQueryInfo \<Rightarrow> KVRead list" where
  "GetRawReads rqi = (case rq_ReadsInfo rqi of Some (RawReads reads) \<Rightarrow> reads | _ \<Rightarrow> [])"

definition GetReadsMerkleHashes :: "RangeQueryInfo \<Rightarrow> QueryReadsMerkleSummary option" where
  "GetReadsMerkleHashes rqi = (case rq_ReadsInfo rqi of Some (ReadsMerkleHashes s) \<Rightarrow> Some s | _ \<Rightarrow> None)"

definition convertToVersionHeight :: "ProtoVersion option \<Rightarrow> Height res" where
  "convertToVersionHeight v =
     (case v of None \<Rightarrow> Inl (Panic ''nil pointer dereference'') | Some v \<Rightarrow> Inr (NewHeight (pv_BlockNum v) (pv_TxNum v)))"

fun results_loop :: "KVRead list \<Rightarrow> VersionedKV option \<Rightarrow> 's combinedIterator \<Rightarrow> bool res" where
  "results_loop [] result itr = Inr (result = None)"
| "results_loop (kvRead # rqResults) result itr =
     (case result of None \<Rightarrow> Inr False
      | Some r \<Rightarrow>
          if vkv_Key r \<noteq> r_Key kvRead then Inr False
          else bindE (convertToVersionHeight (r_Version kvRead)) (\<lambda>ver.
            if \<not> AreSame (vkv_Version r) (Some ver) then Inr False
            else bindE (fst (combinedIterator_Next itr)) (\<lambda>result'.
                   results_loop rqResults result' (snd (combinedIterator_Next itr)))))"

definition rangeQueryResultsValidator_validate :: "RangeQueryInfo \<Rightarrow> 's combinedIterator \<Rightarrow> bool res" where
  "rangeQueryResultsValidator_validate rqInfo itr =
     (let rqResults = GetRawReads rqInfo in
      bindE (fst (combinedIterator_Next itr)) (\<lambda>result.
        if length rqResults = 0 then Inr (result = None)
        else results_loop rqResults result (snd (combinedIterator_Next itr))))"

definition merkleSummariesEqual :: "QueryReadsMerkleSummary \<Rightarrow> QueryReadsMerkleSummary option \<Rightarrow> bool" where
  "merkleSummariesEqual ms anotherMS =
     (case anotherMS of None \<Rightarrow> False
      | Some ams \<Rightarrow>
          if ms_MaxDegree ms \<noteq> ms_MaxDegree ams \<or> ms_MaxLevel ms \<noteq> ms_MaxLevel ams \<or>
             length (ms_MaxLevelHashes ms) \<noteq> length (ms_MaxLevelHashes ams) then False
          else list_all (\<lambda>i. ms_MaxLevelHashes ms ! i = ms_MaxLevelHashes ams ! i) [0..<length (ms_MaxLevelHashes ms)])"

text \<open>Items an iterator can still give, the end key included.\<close>

definition resultsLeft :: "'s combinedIterator \<Rightarrow> nat" where
  "resultsLeft itr = itemsLeft itr + (if ci_endKeyServed itr then 0 else 1)"

lemma moves_endKey:
  "bindE (moveDB b itr) (moveUpdates b') = Inr itr' \<Longrightarrow> ci_endKeyServed itr' = ci_endKeyServed itr"
  by (auto simp: moveDB_def moveUpdates_def go_res split: if_splits)

lemma combinedIterator_Next_left:
  "combinedIterator_Next itr = (Inr (Some x), itr') \<Longrightarrow> resultsLeft itr' < resultsLeft itr"
proof (induction itr arbitrary: itr' rule: combinedIterator_Next.induct)
  case (1 itr)
  let ?c = "compareKeys (ci_dbItem itr) (ci_updatesItem itr)"
  let ?moves = "bindE (moveDB (?c = -1 \<or> ?c = 0) itr) (moveUpdates (?c = 0 \<or> ?c = 1))"
  show ?case
  proof (cases "ci_dbItem itr = None \<and> ci_updatesItem itr = None")
    case True
    with "1.prems" have "serveEndKeyIfNeeded itr = (Inr (Some x), itr')" by (simp add: combinedIterator_Next.simps)
    then have "itr' = itr\<lparr>ci_endKeyServed := True\<rparr>" "\<not> ci_endKeyServed itr"
      by (auto simp: serveEndKeyIfNeeded_def Let_def split: if_splits option.splits sum.splits)
    with True show ?thesis by (simp add: resultsLeft_def itemsLeft_def)
  next
    case False
    with "1.prems" obtain itr1 where m: "?moves = Inr itr1"
      by (subst (asm) combinedIterator_Next.simps) (auto simp: Let_def split: sum.splits)
    with "1.prems" False obtain item where item: "(if ?c = -1 then ci_dbItem itr else ci_updatesItem itr) = Some item"
      by (subst (asm) combinedIterator_Next.simps) (auto simp: Let_def split: option.splits)
    have "resultsLeft itr1 < resultsLeft itr"
      using moves_itemsLeft [OF m False] moves_endKey [OF m] by (simp add: resultsLeft_def)
    moreover have "itr' = itr1 \<or> combinedIterator_Next itr1 = (Inr (Some x), itr') \<and> isDelete item"
      using "1.prems" False m item
      by (subst (asm) combinedIterator_Next.simps) (simp add: Let_def split: if_splits)
    moreover have "resultsLeft itr' < resultsLeft itr1" if "combinedIterator_Next itr1 = (Inr (Some x), itr')" "isDelete item"
      using "1.IH" [OF False refl refl refl refl m item that(2,1)] .
    ultimately show ?thesis by (auto dest: less_trans)
  qed
qed

text \<open>
  The loop of the hash validator over the results: the helper, the index of the last hash that
  matched, and the iterator.
\<close>

function hash_loop ::
  "(KVRead list \<Rightarrow> bytes res) \<Rightarrow> hash_func \<Rightarrow> QueryReadsMerkleSummary \<Rightarrow> int \<Rightarrow> RangeQueryResultsHelper \<Rightarrow> 's combinedIterator \<Rightarrow> bool res" where
  "hash_loop ser hashFunc inMerkle lastMatchedIndex helper itr =
     (case combinedIterator_Next itr of
        (Inl err, itr') \<Rightarrow> Inl err
      | (Inr None, itr') \<Rightarrow>
          bindE (Done ser hashFunc helper) (\<lambda>(_, merkle). Inr (merkleSummariesEqual inMerkle merkle))
      | (Inr (Some result), itr') \<Rightarrow>
          bindE (AddResult ser hashFunc (NewKVRead (vkv_Key result) (vkv_Version result)) helper) (\<lambda>helper'.
          bindE (GetMerkleSummary helper') (\<lambda>summary.
            case summary of None \<Rightarrow> Inl (Panic ''nil pointer dereference'')
            | Some merkle \<Rightarrow>
                if ms_MaxLevel merkle < ms_MaxLevel inMerkle then
                  hash_loop ser hashFunc inMerkle lastMatchedIndex helper' itr'
                else if lastMatchedIndex = int (length (ms_MaxLevelHashes merkle)) - 1 then
                  hash_loop ser hashFunc inMerkle lastMatchedIndex helper' itr'
                else if length (ms_MaxLevelHashes merkle) > length (ms_MaxLevelHashes inMerkle) then Inr False
                else
                  (let i = lastMatchedIndex + 1 in
                   if nat i \<ge> length (ms_MaxLevelHashes merkle) \<or> nat i \<ge> length (ms_MaxLevelHashes inMerkle)
                   then Inl (Panic ''index out of range'')
                   else if ms_MaxLevelHashes merkle ! nat i \<noteq> ms_MaxLevelHashes inMerkle ! nat i then Inr False
                   else hash_loop ser hashFunc inMerkle i helper' itr'))))"
  by pat_completeness auto
termination
  by (relation "measure (\<lambda>(_, _, _, _, _, itr). resultsLeft itr)") (auto dest: combinedIterator_Next_left [OF sym])

declare hash_loop.simps [simp del]

definition rangeQueryHashValidator_init :: "RangeQueryInfo \<Rightarrow> RangeQueryResultsHelper res" where
  "rangeQueryHashValidator_init rqInfo =
     (case GetReadsMerkleHashes rqInfo of None \<Rightarrow> Inl (Panic ''nil pointer dereference'')
      | Some s \<Rightarrow> NewRangeQueryResultsHelper True (ms_MaxDegree s))"

definition rangeQueryHashValidator_validate ::
  "(KVRead list \<Rightarrow> bytes res) \<Rightarrow> hash_func \<Rightarrow> RangeQueryInfo \<Rightarrow> RangeQueryResultsHelper \<Rightarrow> 's combinedIterator \<Rightarrow> bool res" where
  "rangeQueryHashValidator_validate ser hashFunc rqInfo helper itr =
     (case GetReadsMerkleHashes rqInfo of None \<Rightarrow> Inl (Panic ''nil pointer dereference'')
      | Some inMerkle \<Rightarrow> hash_loop ser hashFunc inMerkle (-1) helper itr)"

section \<open>What the combined iterator gives\<close>

fun merge_kvs :: "VersionedKV list \<Rightarrow> VersionedKV list \<Rightarrow> VersionedKV list" where
  "merge_kvs [] us = us"
| "merge_kvs (d # ds) [] = d # ds"
| "merge_kvs (d # ds) (u # us) =
     (if vkv_Key d = vkv_Key u then u # merge_kvs ds us
      else if vkv_Key d < vkv_Key u then d # merge_kvs ds (u # us)
      else u # merge_kvs (d # ds) us)"

definition db_items :: "'s combinedIterator \<Rightarrow> VersionedKV list" where
  "db_items itr = (case ci_dbItem itr of None \<Rightarrow> [] | Some d \<Rightarrow> d # map projr (ci_dbItr itr))"

definition update_items :: "'s combinedIterator \<Rightarrow> VersionedKV list" where
  "update_items itr = (case ci_updatesItem itr of None \<Rightarrow> [] | Some u \<Rightarrow> u # ns_remaining (ci_updatesItr itr))"

definition end_item :: "'s combinedIterator \<Rightarrow> VersionedKV res list" where
  "end_item itr =
     (if \<not> ci_includeEndKey itr \<or> ci_endKeyServed itr then []
      else case (case UpdateBatch_Get (ci_updates itr) (ci_ns itr) (ci_endKey itr) of
                   Some vv \<Rightarrow> Inr (Some vv)
                 | None \<Rightarrow> vdb_GetState (ci_db itr) (ci_dbState itr) (ci_ns itr) (ci_endKey itr)) of
             Inl err \<Rightarrow> [Inl err]
           | Inr None \<Rightarrow> []
           | Inr (Some vv) \<Rightarrow> if vv_Value vv = None then []
               else [Inr (mk_kv (ci_ns itr) (ci_endKey itr) (vv\<lparr>vv_Metadata := None\<rparr>))])"

definition ci_remaining :: "'s combinedIterator \<Rightarrow> VersionedKV res list" where
  "ci_remaining itr = map Inr (filter (\<lambda>kv. \<not> isDelete kv) (merge_kvs (db_items itr) (update_items itr))) @ end_item itr"

definition ci_invar :: "'s combinedIterator \<Rightarrow> bool" where
  "ci_invar itr = (ns_invar (ci_updatesItr itr) \<and> (\<exists>ds. ci_dbItr itr = map Inr ds))"

lemma end_item_cong:
  assumes "ci_includeEndKey i = ci_includeEndKey j" "ci_endKeyServed i = ci_endKeyServed j" "ci_updates i = ci_updates j"
    "ci_ns i = ci_ns j" "ci_endKey i = ci_endKey j" "ci_db i = ci_db j" "ci_dbState i = ci_dbState j"
  shows "end_item i = end_item j"
  unfolding end_item_def assms ..

lemma end_item_move [simp]:
  "end_item (itr\<lparr>ci_dbItem := x, ci_dbItr := y\<rparr>) = end_item itr"
  "end_item (itr\<lparr>ci_updatesItem := x, ci_updatesItr := z\<rparr>) = end_item itr"
  by (rule end_item_cong; simp)+

lemma serveEndKey_spec:
  "end_item itr = [] \<Longrightarrow> fst (serveEndKeyIfNeeded itr) = Inr None \<and> end_item (snd (serveEndKeyIfNeeded itr)) = []"
  "end_item itr = Inr x # r \<Longrightarrow> fst (serveEndKeyIfNeeded itr) = Inr (Some x) \<and> r = [] \<and> end_item (snd (serveEndKeyIfNeeded itr)) = []"
  "end_item itr = Inl e # r \<Longrightarrow> fst (serveEndKeyIfNeeded itr) = Inl e"
  by (auto simp: end_item_def serveEndKeyIfNeeded_def isDelete_def mk_kv_def Let_def split: if_splits option.splits sum.splits)

lemma ci_invar_served [simp]: "ci_invar (snd (serveEndKeyIfNeeded itr)) = ci_invar itr"
  "ci_dbItem (snd (serveEndKeyIfNeeded itr)) = ci_dbItem itr" "ci_updatesItem (snd (serveEndKeyIfNeeded itr)) = ci_updatesItem itr"
  by (auto simp: ci_invar_def serveEndKeyIfNeeded_def Let_def split: if_splits option.splits sum.splits)

lemma moveDB_items:
  assumes "ci_invar itr"
  shows "\<exists>itr'. moveDB b itr = Inr itr' \<and> ci_invar itr' \<and> update_items itr' = update_items itr \<and> end_item itr' = end_item itr \<and>
    ci_updatesItem itr' = ci_updatesItem itr \<and> (ci_dbItem itr \<noteq> None \<or> \<not> b \<longrightarrow> db_items itr' = (if b then tl (db_items itr) else db_items itr))"
proof -
  obtain ds where ds: "ci_dbItr itr = map Inr ds" using assms by (auto simp: ci_invar_def)
  then show ?thesis
    using assms
    by (cases ds; cases b)
      (auto simp: moveDB_def ci_invar_def db_items_def update_items_def comp_def split: option.splits)
qed

lemma moveUpdates_items:
  assumes "ci_invar itr"
  shows "\<exists>itr'. moveUpdates b itr = Inr itr' \<and> ci_invar itr' \<and> db_items itr' = db_items itr \<and> end_item itr' = end_item itr \<and>
    (ci_updatesItem itr \<noteq> None \<or> \<not> b \<longrightarrow> update_items itr' = (if b then tl (update_items itr) else update_items itr))"
proof -
  have i: "ns_invar (ci_updatesItr itr)" using assms by (simp add: ci_invar_def)
  note laws = ni.nxt_nil [OF i] ni.nxt_result [OF i] ni.nxt_invar [OF i]
  have "(\<exists>u us. ns_remaining (ci_updatesItr itr) = u # us \<and> fst (nsIterator_Next (ci_updatesItr itr)) = Inr (Some u) \<and>
      ns_remaining (snd (nsIterator_Next (ci_updatesItr itr))) = us) \<or>
    ns_remaining (ci_updatesItr itr) = [] \<and> fst (nsIterator_Next (ci_updatesItr itr)) = Inr None"
    using laws(1,2) by (cases "ns_remaining (ci_updatesItr itr)") (auto simp: map_eq_Cons_conv)
  then obtain item where item: "fst (nsIterator_Next (ci_updatesItr itr)) = Inr item"
    "ns_remaining (ci_updatesItr itr) = (case item of None \<Rightarrow> [] | Some u \<Rightarrow> u # ns_remaining (snd (nsIterator_Next (ci_updatesItr itr))))"
    by fastforce
  define itr1 where "itr1 = itr\<lparr>ci_updatesItem := item, ci_updatesItr := snd (nsIterator_Next (ci_updatesItr itr))\<rparr>"
  have "moveUpdates True itr = Inr itr1" by (simp add: moveUpdates_def item itr1_def)
  moreover have "ci_invar itr1" "db_items itr1 = db_items itr" "end_item itr1 = end_item itr"
    using assms laws(3) by (auto simp: itr1_def ci_invar_def db_items_def split: option.splits)
  moreover have "ci_updatesItem itr \<noteq> None \<longrightarrow> update_items itr1 = tl (update_items itr)"
    using item(2) by (auto simp: itr1_def update_items_def split: option.splits)
  ultimately show ?thesis using assms by (cases b) (auto simp: moveUpdates_def)
qed

lemma combined_step:
  assumes "ci_invar itr" and "\<not> (ci_dbItem itr = None \<and> ci_updatesItem itr = None)"
  shows "\<exists>itr' item. bindE (moveDB (compareKeys (ci_dbItem itr) (ci_updatesItem itr) = -1 \<or> compareKeys (ci_dbItem itr) (ci_updatesItem itr) = 0) itr)
      (moveUpdates (compareKeys (ci_dbItem itr) (ci_updatesItem itr) = 0 \<or> compareKeys (ci_dbItem itr) (ci_updatesItem itr) = 1)) = Inr itr' \<and>
    (if compareKeys (ci_dbItem itr) (ci_updatesItem itr) = -1 then ci_dbItem itr else ci_updatesItem itr) = Some item \<and>
    ci_invar itr' \<and> end_item itr' = end_item itr \<and>
    merge_kvs (db_items itr) (update_items itr) = item # merge_kvs (db_items itr') (update_items itr')"
proof -
  let ?c = "compareKeys (ci_dbItem itr) (ci_updatesItem itr)"
  obtain itr1 where m1: "moveDB (?c = -1 \<or> ?c = 0) itr = Inr itr1" "ci_invar itr1" "update_items itr1 = update_items itr"
    "end_item itr1 = end_item itr" "ci_updatesItem itr1 = ci_updatesItem itr"
    "ci_dbItem itr \<noteq> None \<or> \<not> (?c = -1 \<or> ?c = 0) \<longrightarrow> db_items itr1 = (if ?c = -1 \<or> ?c = 0 then tl (db_items itr) else db_items itr)"
    using moveDB_items [OF assms(1)] by blast
  obtain itr2 where m2: "moveUpdates (?c = 0 \<or> ?c = 1) itr1 = Inr itr2" "ci_invar itr2" "db_items itr2 = db_items itr1"
    "end_item itr2 = end_item itr1"
    "ci_updatesItem itr1 \<noteq> None \<or> \<not> (?c = 0 \<or> ?c = 1) \<longrightarrow> update_items itr2 = (if ?c = 0 \<or> ?c = 1 then tl (update_items itr1) else update_items itr1)"
    using moveUpdates_items [OF m1(2)] by blast
  have "\<exists>item. (if ?c = -1 then ci_dbItem itr else ci_updatesItem itr) = Some item \<and>
      merge_kvs (db_items itr) (update_items itr) = item # merge_kvs (db_items itr2) (update_items itr2)"
  proof (cases "ci_dbItem itr"; cases "ci_updatesItem itr")
    fix d u assume "ci_dbItem itr = Some d" "ci_updatesItem itr = Some u"
    then show ?thesis
      using m1 m2 by (simp add: compareKeys_def strings_Compare_def db_items_def update_items_def split: if_splits)
  next
    fix d assume "ci_dbItem itr = Some d" "ci_updatesItem itr = None"
    then show ?thesis
      using m1 m2 by (simp add: compareKeys_def db_items_def update_items_def)
        (metis merge_kvs.simps(1,2) neq_Nil_conv)
  next
    fix u assume "ci_dbItem itr = None" "ci_updatesItem itr = Some u"
    then show ?thesis using m1 m2 by (simp add: compareKeys_def db_items_def update_items_def)
  qed (use assms(2) in simp)
  with m1 m2 show ?thesis by auto
qed

lemma combinedIterator_Next_spec:
  "ci_invar itr \<Longrightarrow> ci_invar (snd (combinedIterator_Next itr)) \<and>
    (case ci_remaining itr of
       [] \<Rightarrow> fst (combinedIterator_Next itr) = Inr None \<and> ci_remaining (snd (combinedIterator_Next itr)) = []
     | Inr x # r \<Rightarrow> fst (combinedIterator_Next itr) = Inr (Some x) \<and> ci_remaining (snd (combinedIterator_Next itr)) = r
     | Inl e # r \<Rightarrow> fst (combinedIterator_Next itr) = Inl e)"
proof (induction itr rule: combinedIterator_Next.induct)
  case (1 itr)
  show ?case
  proof (cases "ci_dbItem itr = None \<and> ci_updatesItem itr = None")
    case True
    then have "combinedIterator_Next itr = serveEndKeyIfNeeded itr" by (simp add: combinedIterator_Next.simps)
    moreover have "ci_remaining i = end_item i" if "ci_dbItem i = None" "ci_updatesItem i = None" for i :: "'a combinedIterator"
      using that by (simp add: ci_remaining_def db_items_def update_items_def)
    ultimately show ?thesis
      using True "1.prems" serveEndKey_spec [of itr] by (auto split: list.splits sum.splits)
  next
    case False
    let ?c = "compareKeys (ci_dbItem itr) (ci_updatesItem itr)"
    obtain itr' item where
      m: "bindE (moveDB (?c = -1 \<or> ?c = 0) itr) (moveUpdates (?c = 0 \<or> ?c = 1)) = Inr itr'"
      and item: "(if ?c = -1 then ci_dbItem itr else ci_updatesItem itr) = Some item"
      and s: "ci_invar itr'" "end_item itr' = end_item itr"
        "merge_kvs (db_items itr) (update_items itr) = item # merge_kvs (db_items itr') (update_items itr')"
      using combined_step [OF "1.prems" False] by blast
    have nx: "combinedIterator_Next itr = (if isDelete item then combinedIterator_Next itr' else (Inr (Some item), itr'))"
      by (subst combinedIterator_Next.simps, subst if_not_P [OF False]) (simp add: Let_def m item)
    show ?thesis
    proof (cases "isDelete item")
      case True
      with s have r: "ci_remaining itr = ci_remaining itr'" by (simp add: ci_remaining_def)
      have e: "combinedIterator_Next itr = combinedIterator_Next itr'" using nx True by simp
      show ?thesis unfolding e r by (rule "1.IH" [OF False refl refl refl refl m item True s(1)])
    next
      case notdel: False
      with s have "ci_remaining itr = Inr item # ci_remaining itr'" by (simp add: ci_remaining_def)
      with nx notdel s(1) show ?thesis by simp
    qed
  qed
qed

interpretation ci: results_iterator combinedIterator_Next ci_remaining ci_invar
proof
  fix i :: "'s combinedIterator" and x r e
  assume i: "ci_invar i"
  note spec = combinedIterator_Next_spec [OF i]
  show "fst (combinedIterator_Next i) = Inr None \<and> ci_remaining (snd (combinedIterator_Next i)) = []" if "ci_remaining i = []"
    using spec that by simp
  show "fst (combinedIterator_Next i) = Inr (Some x) \<and> ci_remaining (snd (combinedIterator_Next i)) = r" if "ci_remaining i = Inr x # r"
    using spec that by simp
  show "fst (combinedIterator_Next i) = Inl e" if "ci_remaining i = Inl e # r"
    using spec that by simp
  show "ci_invar (snd (combinedIterator_Next i))" using spec by simp
qed

lemma merge_kvs_set:
  "set (merge_kvs ds us) \<subseteq> set ds \<union> set us"
  by (induction ds us rule: merge_kvs.induct) auto

lemma merge_kvs_spec:
  assumes "sorted_wrt (<) (map vkv_Key ds)" and "sorted_wrt (<) (map vkv_Key us)"
  shows "sorted_wrt (<) (map vkv_Key (merge_kvs ds us)) \<and>
    set (merge_kvs ds us) = set us \<union> {d \<in> set ds. vkv_Key d \<notin> vkv_Key ` set us}"
  using assms
proof (induction ds us rule: merge_kvs.induct)
  case (3 d ds u us)
  have d: "\<forall>x \<in> set ds. vkv_Key d < vkv_Key x" and u: "\<forall>x \<in> set us. vkv_Key u < vkv_Key x"
    and s: "sorted_wrt (<) (map vkv_Key ds)" "sorted_wrt (<) (map vkv_Key us)"
    using "3.prems" by auto
  consider (eq) "vkv_Key d = vkv_Key u" | (less) "vkv_Key d < vkv_Key u" | (greater) "vkv_Key u < vkv_Key d"
    by (meson linorder_less_linear)
  then show ?case
  proof cases
    case eq
    with "3.IH"(1) s have ih: "sorted_wrt (<) (map vkv_Key (merge_kvs ds us))"
      "set (merge_kvs ds us) = set us \<union> {d \<in> set ds. vkv_Key d \<notin> vkv_Key ` set us}" by auto
    have "\<forall>x \<in> set (merge_kvs ds us). vkv_Key u < vkv_Key x" using merge_kvs_set [of ds us] d u eq by auto
    moreover have "\<forall>x \<in> set ds. vkv_Key x \<noteq> vkv_Key u" using d eq by force
    ultimately show ?thesis using ih eq by auto
  next
    case less
    with "3.IH"(2) "3.prems" s have ih: "sorted_wrt (<) (map vkv_Key (merge_kvs ds (u # us)))"
      "set (merge_kvs ds (u # us)) = set (u # us) \<union> {d \<in> set ds. vkv_Key d \<notin> vkv_Key ` set (u # us)}" by auto
    have "\<forall>x \<in> set (merge_kvs ds (u # us)). vkv_Key d < vkv_Key x"
      using merge_kvs_set [of ds "u # us"] d u less by (auto intro: less_trans)
    moreover have "vkv_Key d \<notin> vkv_Key ` set (u # us)" using u less by force
    ultimately show ?thesis using ih less by auto
  next
    case greater
    with "3.IH"(3) "3.prems" s have ih: "sorted_wrt (<) (map vkv_Key (merge_kvs (d # ds) us))"
      "set (merge_kvs (d # ds) us) = set us \<union> {d' \<in> set (d # ds). vkv_Key d' \<notin> vkv_Key ` set us}" by auto
    have "\<forall>x \<in> set (merge_kvs (d # ds) us). vkv_Key u < vkv_Key x"
      using merge_kvs_set [of "d # ds" us] d u greater by (auto intro: less_trans)
    moreover have "\<forall>x \<in> set (d # ds). vkv_Key x \<noteq> vkv_Key u" using d greater by force
    ultimately show ?thesis using ih greater by auto
  qed
qed auto

lemma range_entries_sorted:
  assumes "wf_batch b"
  shows "sorted_wrt (<) (map vkv_Key (range_entries ns startKey endKey b))"
proof -
  have "wf_map (GetUpdates b ns)" using assms by (simp add: wf_batch_def GetUpdates_def split: option.splits)
  then have "sorted_wrt (<) (GetSortedKeys (GetUpdates b ns))"
    using strict_sorted_iff by force
  then show ?thesis by (simp add: range_entries_def comp_def sorted_wrt_filter)
qed

lemma range_entries_mem:
  "kv \<in> set (range_entries ns startKey endKey b) \<longleftrightarrow>
     (\<exists>key vv. kv = mk_kv ns key vv \<and> in_range startKey endKey key \<and> UpdateBatch_Get b ns key = Some vv)"
proof
  assume "kv \<in> set (range_entries ns startKey endKey b)"
  then obtain key where "kv = mk_kv ns key (the (UpdateBatch_Get b ns key))" "in_range startKey endKey key"
    "UpdateBatch_Get b ns key \<noteq> None"
    by (auto simp: range_entries_def GetUpdates_Get dom_def)
  then show "\<exists>key vv. kv = mk_kv ns key vv \<and> in_range startKey endKey key \<and> UpdateBatch_Get b ns key = Some vv"
    by (metis option.collapse)
next
  assume "\<exists>key vv. kv = mk_kv ns key vv \<and> in_range startKey endKey key \<and> UpdateBatch_Get b ns key = Some vv"
  then obtain key vv where "kv = mk_kv ns key vv" "in_range startKey endKey key" "UpdateBatch_Get b ns key = Some vv" by blast
  then show "kv \<in> set (range_entries ns startKey endKey b)"
    unfolding range_entries_def set_map by (intro image_eqI [of _ _ key]) (auto simp: GetUpdates_Get)
qed

lemma newCombinedIterator_spec:
  assumes "vdb_GetStateRangeScanIterator V s ns startKey endKey = Inr (map Inr kvs)"
  shows "\<exists>itr. newCombinedIterator V s updates ns startKey endKey includeEndKey = Inr itr \<and> ci_invar itr \<and>
    db_items itr = kvs \<and> update_items itr = range_entries ns startKey endKey updates \<and>
    ci_includeEndKey itr = includeEndKey \<and> ci_endKeyServed itr = False \<and> ci_updates itr = updates \<and> ci_ns itr = ns \<and>
    ci_endKey itr = endKey \<and> ci_db itr = V \<and> ci_dbState itr = s"
proof -
  let ?it = "newNsIterator ns startKey endKey updates"
  note i = newNsIterator_invar [of ns startKey endKey updates]
  have "\<exists>item. fst (nsIterator_Next ?it) = Inr item \<and>
      ns_remaining ?it = (case item of None \<Rightarrow> [] | Some u \<Rightarrow> u # ns_remaining (snd (nsIterator_Next ?it)))"
    using ni.nxt_nil [OF i] ni.nxt_result [OF i] by (cases "ns_remaining ?it") (auto simp: map_eq_Cons_conv)
  then obtain item where item: "fst (nsIterator_Next ?it) = Inr item"
    "range_entries ns startKey endKey updates = (case item of None \<Rightarrow> [] | Some u \<Rightarrow> u # ns_remaining (snd (nsIterator_Next ?it)))"
    by (auto simp: ns_remaining_newNsIterator)
  show ?thesis
    using assms item ni.nxt_invar [OF i]
    by (cases kvs) (auto simp: newCombinedIterator_def Let_def ci_invar_def db_items_def update_items_def comp_def
        split: option.splits)
qed

lemma overlay_Some:
  "overlay upd old = Some vv \<longleftrightarrow> (case upd of Some vv' \<Rightarrow> vv = vv' \<and> vv_Value vv \<noteq> None | None \<Rightarrow> old = Some vv)"
  by (auto simp: overlay_def VersionedValue_IsDelete_def split: option.splits)

lemma range_entries_keys:
  "key \<in> vkv_Key ` set (range_entries ns startKey endKey b) \<longleftrightarrow> in_range startKey endKey key \<and> UpdateBatch_Get b ns key \<noteq> None"
proof
  assume "key \<in> vkv_Key ` set (range_entries ns startKey endKey b)"
  then obtain kv where "kv \<in> set (range_entries ns startKey endKey b)" "key = vkv_Key kv" by blast
  then show "in_range startKey endKey key \<and> UpdateBatch_Get b ns key \<noteq> None" unfolding range_entries_mem by auto
next
  assume "in_range startKey endKey key \<and> UpdateBatch_Get b ns key \<noteq> None"
  then obtain vv where "mk_kv ns key vv \<in> set (range_entries ns startKey endKey b)" unfolding range_entries_mem by blast
  then show "key \<in> vkv_Key ` set (range_entries ns startKey endKey b)" by (rule rev_image_eqI) simp
qed

lemma merged_items:
  assumes "versioned_db V contents valid_ns stored_as" and "valid_ns ns" and "wf_batch updates"
    and "vdb_GetStateRangeScanIterator V s ns startKey endKey = Inr (map Inr kvs)"
  shows "sorted_wrt (<) (map vkv_Key (filter (\<lambda>kv. \<not> isDelete kv) (merge_kvs kvs (range_entries ns startKey endKey updates))))"
    and "kv \<in> set (filter (\<lambda>kv. \<not> isDelete kv) (merge_kvs kvs (range_entries ns startKey endKey updates))) \<longleftrightarrow>
      (\<exists>key vv. kv = mk_kv ns key vv \<and> in_range startKey endKey key \<and>
        overlay (UpdateBatch_Get updates ns key) (contents s ns key) = Some vv)"
proof -
  let ?us = "range_entries ns startKey endKey updates"
  note m = merge_kvs_spec [OF versioned_db.scan_sorted [OF assms(1,4,2)] range_entries_sorted [OF assms(3), of ns startKey endKey]]
  then show "sorted_wrt (<) (map vkv_Key (filter (\<lambda>kv. \<not> isDelete kv) (merge_kvs kvs ?us)))"
    by (simp add: sorted_wrt_map sorted_wrt_filter)
  have scan: "kv \<in> set kvs \<longleftrightarrow> (\<exists>key vv. kv = mk_kv ns key vv \<and> in_range startKey endKey key \<and> contents s ns key = Some vv)" for kv
    by (rule versioned_db.scan_contents [OF assms(1,4,2)])
  have one: "in_range startKey endKey key \<and> overlay (UpdateBatch_Get updates ns key) (contents s ns key) = Some vv \<longleftrightarrow>
      (mk_kv ns key vv \<in> set (merge_kvs kvs ?us)) \<and> vv_Value vv \<noteq> None" for key vv
  proof (cases "UpdateBatch_Get updates ns key")
    case None
    then show ?thesis
      using m versioned_db.contents_not_nil [OF assms(1), of s ns key]
      by (auto simp: range_entries_keys range_entries_mem versioned_db.scan_contents [OF assms(1,4,2)] mk_kv_def)
  next
    case (Some vv')
    then show ?thesis
      using m by (auto simp: range_entries_keys range_entries_mem versioned_db.scan_contents [OF assms(1,4,2)] overlay_Some VersionedValue_IsDelete_def mk_kv_def)
  qed
  have shape: "\<exists>key vv. kv = mk_kv ns key vv" if "kv \<in> set (merge_kvs kvs ?us)"
  proof -
    from that m have "kv \<in> set ?us \<or> kv \<in> set kvs" by auto
    then show ?thesis unfolding range_entries_mem scan by blast
  qed
  show "kv \<in> set (filter (\<lambda>kv. \<not> isDelete kv) (merge_kvs kvs ?us)) \<longleftrightarrow>
      (\<exists>key vv. kv = mk_kv ns key vv \<and> in_range startKey endKey key \<and>
        overlay (UpdateBatch_Get updates ns key) (contents s ns key) = Some vv)"
  proof
    assume kv: "kv \<in> set (filter (\<lambda>kv. \<not> isDelete kv) (merge_kvs kvs ?us))"
    then obtain key vv where "kv = mk_kv ns key vv" using shape by auto
    with kv one [of key vv] show "\<exists>key vv. kv = mk_kv ns key vv \<and> in_range startKey endKey key \<and>
        overlay (UpdateBatch_Get updates ns key) (contents s ns key) = Some vv"
      by (auto simp: isDelete_def)
  next
    assume "\<exists>key vv. kv = mk_kv ns key vv \<and> in_range startKey endKey key \<and>
        overlay (UpdateBatch_Get updates ns key) (contents s ns key) = Some vv"
    then obtain key vv where "kv = mk_kv ns key vv" "in_range startKey endKey key \<and>
        overlay (UpdateBatch_Get updates ns key) (contents s ns key) = Some vv" by blast
    then show "kv \<in> set (filter (\<lambda>kv. \<not> isDelete kv) (merge_kvs kvs ?us))"
      unfolding one by (simp add: isDelete_def)
  qed
qed

lemma combined_iterator_range:
  assumes "versioned_db V contents valid_ns stored_as" and "valid_ns ns" and "wf_batch updates"
    and "vdb_GetStateRangeScanIterator V s ns startKey endKey = Inr (map Inr kvs)"
    and "vdb_GetState V s ns endKey = Inr v"
    and "includeEndKey \<Longrightarrow> endKey \<noteq> [] \<and> startKey \<le> endKey"
  shows "\<exists>itr xs. newCombinedIterator V s updates ns startKey endKey includeEndKey = Inr itr \<and>
    ci_invar itr \<and> ci_remaining itr = map Inr xs \<and> sorted_wrt (<) (map vkv_Key xs) \<and>
    (\<forall>key val ver. (\<exists>kv \<in> set xs. vkv_Key kv = key \<and> vkv_Value kv = val \<and> vkv_Version kv = ver) \<longleftrightarrow>
      (in_range startKey endKey key \<or> includeEndKey \<and> key = endKey) \<and>
      (\<exists>vv. overlay (UpdateBatch_Get updates ns key) (contents s ns key) = Some vv \<and>
         vv_Value vv = val \<and> vv_Version vv = ver))"
proof -
  obtain itr where itr: "newCombinedIterator V s updates ns startKey endKey includeEndKey = Inr itr" "ci_invar itr"
    and items: "db_items itr = kvs" "update_items itr = range_entries ns startKey endKey updates"
    and flds: "ci_includeEndKey itr = includeEndKey" "ci_endKeyServed itr = False" "ci_updates itr = updates" "ci_ns itr = ns"
      "ci_endKey itr = endKey" "ci_db itr = V" "ci_dbState itr = s"
    using newCombinedIterator_spec [OF assms(4)] by blast
  define xs where "xs = filter (\<lambda>kv. \<not> isDelete kv) (merge_kvs kvs (range_entries ns startKey endKey updates))"
  note xs = merged_items [OF assms(1-4), folded xs_def]
  define es where "es = (case overlay (UpdateBatch_Get updates ns endKey) (contents s ns endKey) of
      Some vv \<Rightarrow> if includeEndKey then [mk_kv ns endKey (vv\<lparr>vv_Metadata := None\<rparr>)] else [] | None \<Rightarrow> [])"
  have "v = contents s ns endKey" using versioned_db.GetState_contents [OF assms(1,5)] .
  then have "end_item itr = map Inr es"
    using assms(5) versioned_db.contents_not_nil [OF assms(1), of s ns endKey]
    by (auto simp: end_item_def flds es_def VersionedValue_IsDelete_def split: option.splits)
  then have run: "ci_remaining itr = map Inr (xs @ es)" by (simp add: ci_remaining_def items xs_def)
  have "vkv_Key x < endKey" if "x \<in> set xs" "includeEndKey" for x
    using xs(2) [of x] that assms(6) by (auto simp: in_range_def)
  then have sorted: "sorted_wrt (<) (map vkv_Key (xs @ es))"
    using xs(1) by (auto simp: es_def sorted_wrt_append split: option.splits)
  have "(\<exists>kv \<in> set (xs @ es). vkv_Key kv = key \<and> vkv_Value kv = val \<and> vkv_Version kv = ver) \<longleftrightarrow>
      (in_range startKey endKey key \<or> includeEndKey \<and> key = endKey) \<and>
      (\<exists>vv. overlay (UpdateBatch_Get updates ns key) (contents s ns key) = Some vv \<and> vv_Value vv = val \<and> vv_Version vv = ver)"
    for key val ver
  proof -
    have "(\<exists>kv \<in> set xs. vkv_Key kv = key \<and> vkv_Value kv = val \<and> vkv_Version kv = ver) \<longleftrightarrow> in_range startKey endKey key \<and>
        (\<exists>vv. overlay (UpdateBatch_Get updates ns key) (contents s ns key) = Some vv \<and> vv_Value vv = val \<and> vv_Version vv = ver)"
      unfolding Bex_def xs(2) by (auto 0 3 intro: exI [of _ "mk_kv ns key _"])
    moreover have "(\<exists>kv \<in> set es. vkv_Key kv = key \<and> vkv_Value kv = val \<and> vkv_Version kv = ver) \<longleftrightarrow> (includeEndKey \<and> key = endKey) \<and>
        (\<exists>vv. overlay (UpdateBatch_Get updates ns key) (contents s ns key) = Some vv \<and> vv_Value vv = val \<and> vv_Version vv = ver)"
      by (cases "overlay (UpdateBatch_Get updates ns endKey) (contents s ns endKey)") (auto simp: es_def)
    ultimately show ?thesis unfolding set_append bex_Un by blast
  qed
  then show ?thesis using itr run sorted by blast
qed

text \<open>
  C23: The combined iterator over a key range gives, one per call of \<open>Next\<close>, exactly the keys of the
  range in the state with the block's updates on top, deleted keys left out, with their current
  values and versions, in increasing key order, and then nil for ever. With \<open>includeEndKey\<close> the end
  key itself belongs to the range.
\<close>

theorem combined_iterator_merged_range:
  assumes "versioned_db V contents valid_ns stored_as" and "valid_ns ns" and "wf_batch updates"
    and "vdb_GetStateRangeScanIterator V s ns startKey endKey = Inr (map Inr kvs)"
    and "vdb_GetState V s ns endKey = Inr v"
    and "includeEndKey \<Longrightarrow> endKey \<noteq> [] \<and> startKey \<le> endKey"
  shows "\<exists>itr xs. newCombinedIterator V s updates ns startKey endKey includeEndKey = Inr itr \<and>
    Next_n combinedIterator_Next (length xs + k) itr = map (\<lambda>kv. Inr (Some kv)) xs @ replicate k (Inr None) \<and>
    sorted_wrt (<) (map vkv_Key xs) \<and>
    (\<forall>key val ver. (\<exists>kv \<in> set xs. vkv_Key kv = key \<and> vkv_Value kv = val \<and> vkv_Version kv = ver) \<longleftrightarrow>
      (in_range startKey endKey key \<or> includeEndKey \<and> key = endKey) \<and>
      (\<exists>vv. overlay (UpdateBatch_Get updates ns key) (contents s ns key) = Some vv \<and>
         vv_Value vv = val \<and> vv_Version vv = ver))"
proof -
  obtain itr xs where "newCombinedIterator V s updates ns startKey endKey includeEndKey = Inr itr" "ci_invar itr"
    "ci_remaining itr = map Inr xs" "sorted_wrt (<) (map vkv_Key xs)"
    "\<forall>key val ver. (\<exists>kv \<in> set xs. vkv_Key kv = key \<and> vkv_Value kv = val \<and> vkv_Version kv = ver) \<longleftrightarrow>
      (in_range startKey endKey key \<or> includeEndKey \<and> key = endKey) \<and>
      (\<exists>vv. overlay (UpdateBatch_Get updates ns key) (contents s ns key) = Some vv \<and> vv_Value vv = val \<and> vv_Version vv = ver)"
    using combined_iterator_range [OF assms] by blast
  with ci.Next_n_results [OF this(2,3), of k] show ?thesis by blast
qed

section \<open>What the validators accept\<close>

abbreviation (input) read_of :: "VersionedKV \<Rightarrow> KVRead" where
  "read_of kv \<equiv> NewKVRead (vkv_Key kv) (vkv_Version kv)"

lemma ci_results_Next:
  assumes "ci_invar itr" and "ci_remaining itr = map Inr xs"
  obtains result xs' where "fst (combinedIterator_Next itr) = Inr result"
    "ci_remaining (snd (combinedIterator_Next itr)) = map Inr xs'" "xs = (case result of None \<Rightarrow> [] | Some r \<Rightarrow> r # xs')"
proof (cases xs)
  case Nil
  with ci.nxt_nil [OF assms(1)] assms(2) that [of None "[]"] show ?thesis by simp
next
  case (Cons y ys)
  with ci.nxt_result [OF assms(1), of y "map Inr ys"] assms(2) that [of "Some y" ys] show ?thesis by simp
qed

lemma results_loop_spec:
  assumes "ci_invar itr" and "ci_remaining itr = map Inr xs" and "list_all (\<lambda>r. r_Version r \<noteq> None) reads"
  shows "results_loop reads result itr = Inr (map (\<lambda>r. (r_Key r, NewVersion (r_Version r))) reads =
      map (\<lambda>kv. (vkv_Key kv, vkv_Version kv)) (case result of None \<Rightarrow> [] | Some r \<Rightarrow> r # xs))"
  using assms
proof (induction reads arbitrary: itr xs result)
  case Nil
  then show ?case by (cases result) auto
next
  case (Cons kvRead reads)
  show ?case
  proof (cases result)
    case None
    then show ?thesis by simp
  next
    case (Some r)
    obtain v where v: "r_Version kvRead = Some v" "convertToVersionHeight (r_Version kvRead) = Inr (NewHeight (pv_BlockNum v) (pv_TxNum v))"
      "NewVersion (r_Version kvRead) = Some (NewHeight (pv_BlockNum v) (pv_TxNum v))"
      using Cons.prems(3) by (auto simp: convertToVersionHeight_def NewVersion_def)
    have nx: "ci_invar (snd (combinedIterator_Next itr))" using ci.nxt_invar [OF Cons.prems(1)] .
    obtain result' xs' where n: "fst (combinedIterator_Next itr) = Inr result'"
      "ci_remaining (snd (combinedIterator_Next itr)) = map Inr xs'" "xs = (case result' of None \<Rightarrow> [] | Some r \<Rightarrow> r # xs')"
      by (rule ci_results_Next [OF Cons.prems(1,2)])
    have "list_all (\<lambda>r. r_Version r \<noteq> None) reads" using Cons.prems(3) by simp
    note ih = Cons.IH [OF nx n(2) this, of result']
    show ?thesis
    proof (cases "vkv_Key r = r_Key kvRead \<and> vkv_Version r = NewVersion (r_Version kvRead)")
      case True
      then show ?thesis using Some v n(1,3) ih by simp
    next
      case False
      then show ?thesis using Some v by auto
    qed
  qed
qed

lemma if_False_eq: "(if P then False else Q) \<longleftrightarrow> \<not> P \<and> Q"
  by simp

lemma list_all_nth_eq:
  "length xs = length ys \<Longrightarrow> list_all (\<lambda>i. xs ! i = ys ! i) [0..<length xs] \<longleftrightarrow> xs = ys"
  by (auto simp: list_all_iff intro: nth_equalityI)

lemma merkleSummariesEqual_iff: "merkleSummariesEqual s t \<longleftrightarrow> t = Some s"
proof (cases t)
  case (Some u)
  have "u = s \<longleftrightarrow> ms_MaxDegree s = ms_MaxDegree u \<and> ms_MaxLevel s = ms_MaxLevel u \<and> ms_MaxLevelHashes s = ms_MaxLevelHashes u"
    by (cases s; cases u) auto
  moreover have "merkleSummariesEqual s (Some u) \<longleftrightarrow>
      ms_MaxDegree s = ms_MaxDegree u \<and> ms_MaxLevel s = ms_MaxLevel u \<and> ms_MaxLevelHashes s = ms_MaxLevelHashes u"
    using list_all_nth_eq [of "ms_MaxLevelHashes s" "ms_MaxLevelHashes u"]
    unfolding merkleSummariesEqual_def option.case if_False_eq by metis
  ultimately show ?thesis using Some by simp
qed (simp add: merkleSummariesEqual_def)

text \<open>The hash validator: everything is fed to the helper, and \<open>Done\<close> decides.\<close>

lemma hash_loop_sound:
  assumes "ci_invar itr" and "ci_remaining itr = map Inr xs" and "hash_loop ser hf s i h itr = Inr True"
  shows "\<exists>p. bindE (foldE (AddResult ser hf) (map read_of xs) h) (Done ser hf) = Inr (p, Some s)"
  using assms
proof (induction xs arbitrary: itr i h)
  case Nil
  then obtain itr' where "combinedIterator_Next itr = (Inr None, itr')"
    using ci.nxt_nil by (cases "combinedIterator_Next itr") force
  then show ?case
    using Nil.prems(3) by (subst (asm) hash_loop.simps) (auto simp: go_res merkleSummariesEqual_iff)
next
  case (Cons x xs)
  obtain itr' where n: "combinedIterator_Next itr = (Inr (Some x), itr')" "ci_remaining itr' = map Inr xs" "ci_invar itr'"
    using ci.nxt_result [OF Cons.prems(1), of x "map Inr xs"] ci.nxt_invar [OF Cons.prems(1)] Cons.prems(2)
    by (cases "combinedIterator_Next itr") auto
  obtain h1 where h1: "AddResult ser hf (read_of x) h = Inr h1"
    using Cons.prems(3) by (subst (asm) hash_loop.simps) (auto simp: n(1) bindE_Inr_iff)
  obtain merkle where m: "GetMerkleSummary h1 = Inr (Some merkle)"
    using Cons.prems(3) by (subst (asm) hash_loop.simps) (auto simp: n(1) h1 bindE_Inr_iff split: option.splits)
  have "\<exists>i'. hash_loop ser hf s i' h1 itr' = Inr True"
    using Cons.prems(3) by (subst (asm) hash_loop.simps) (auto simp: n(1) h1 m Let_def split: if_splits)
  then obtain i' where l: "hash_loop ser hf s i' h1 itr' = Inr True" by blast
  from Cons.IH [OF n(3,2) l] h1 show ?case by simp
qed

definition matched_ok :: "int \<Rightarrow> merkleTree \<Rightarrow> merkleTree \<Rightarrow> bool" where
  "matched_ok i m m2 \<longleftrightarrow> -1 \<le> i \<and> (maxLevel m < maxLevel m2 \<longrightarrow> i = -1) \<and>
     (maxLevel m = maxLevel m2 \<longrightarrow> i < int (length (level m (maxLevel m))))"

lemma matched_ok_grows:
  assumes "grows m m1" and "grows m1 m2" and "matched_ok i m m2"
  shows "-1 \<le> i" and "maxLevel m1 < maxLevel m2 \<Longrightarrow> i = -1"
    and "maxLevel m1 = maxLevel m2 \<Longrightarrow> i \<le> int (length (level m1 (maxLevel m1))) - 1"
  using assms by (auto simp: grows_def matched_ok_def dest!: prefix_length_le)

lemma hash_loop_complete:
  assumes "ci_invar itr" and "ci_remaining itr = map Inr xs" and "helper_wf h"
    and "foldE (AddResult ser hf) (map read_of xs) h = Inr h'" and "Done ser hf h' = Inr (p, Some (getSummery m2))"
    and "grows (the (mt h')) m2" and "maxLevel m2 < 2 ^ 32" and "matched_ok i (the (mt h)) m2"
  shows "hash_loop ser hf (getSummery m2) i h itr = Inr True"
  using assms(1-4,8)
proof (induction xs arbitrary: itr i h)
  case Nil
  then obtain itr' where "combinedIterator_Next itr = (Inr None, itr')"
    using ci.nxt_nil by (cases "combinedIterator_Next itr") force
  then show ?case
    using Nil.prems(4) assms(5) by (subst hash_loop.simps) (simp add: merkleSummariesEqual_iff)
next
  case (Cons x xs)
  obtain itr' where n: "combinedIterator_Next itr = (Inr (Some x), itr')" "ci_remaining itr' = map Inr xs" "ci_invar itr'"
    using ci.nxt_result [OF Cons.prems(1), of x "map Inr xs"] ci.nxt_invar [OF Cons.prems(1)] Cons.prems(2)
    by (cases "combinedIterator_Next itr") auto
  from Cons.prems(4) obtain h1 where h1: "AddResult ser hf (read_of x) h = Inr h1"
    "foldE (AddResult ser hf) (map read_of xs) h1 = Inr h'" by (auto simp: go_res)
  note w = AddResult_wf [OF Cons.prems(3) h1(1)]
  then obtain m1 where m1: "mt h1 = Some m1" "hashingEnabled h1" "helper_wf h1" "grows (the (mt h)) m1"
    by (auto simp: helper_wf_def)
  have g: "grows m1 m2"
    using foldE_AddResult [OF m1(3) h1(2)] assms(6) m1(1) grows_trans by auto
  note ok = matched_ok_grows [OF m1(4) g Cons.prems(5)]
  have sum: "GetMerkleSummary h1 = Inr (Some (getSummery m1))" using m1 by (simp add: GetMerkleSummary_def)
  have lvl: "(of_nat (maxLevel m1) :: u32) < of_nat (maxLevel m2) \<longleftrightarrow> maxLevel m1 < maxLevel m2"
    using g assms(7) by (auto simp: grows_def word_less_nat_alt unat_of_nat)
  have step: "hash_loop ser hf (getSummery m2) i h itr =
    (if maxLevel m1 < maxLevel m2 \<or> i = int (length (level m1 (maxLevel m1))) - 1 then hash_loop ser hf (getSummery m2) i h1 itr'
     else if length (level m1 (maxLevel m1)) > length (level m2 (maxLevel m2)) then Inr False
     else if nat (i + 1) \<ge> length (level m1 (maxLevel m1)) \<or> nat (i + 1) \<ge> length (level m2 (maxLevel m2))
     then Inl (Panic ''index out of range'')
     else if level m1 (maxLevel m1) ! nat (i + 1) \<noteq> level m2 (maxLevel m2) ! nat (i + 1) then Inr False
     else hash_loop ser hf (getSummery m2) (i + 1) h1 itr')"
    by (subst hash_loop.simps) (simp add: n(1) h1(1) sum lvl getSummery_def Let_def)
  consider (lower) "maxLevel m1 < maxLevel m2" | (same) "maxLevel m1 = maxLevel m2" "prefix (level m1 (maxLevel m1)) (level m2 (maxLevel m2))"
    using g by (auto simp: grows_def)
  then show ?case
  proof cases
    case lower
    then have "matched_ok i (the (mt h1)) m2" using ok m1(1) by (simp add: matched_ok_def)
    from Cons.IH [OF n(3,2) m1(3) h1(2) this] step lower show ?thesis by simp
  next
    case same
    show ?thesis
    proof (cases "i = int (length (level m1 (maxLevel m1))) - 1")
      case True
      then have "matched_ok i (the (mt h1)) m2" using ok m1(1) same by (simp add: matched_ok_def)
      from Cons.IH [OF n(3,2) m1(3) h1(2) this] step True show ?thesis by simp
    next
      case False
      with ok same have i: "nat (i + 1) < length (level m1 (maxLevel m1))" "-1 \<le> i" by auto
      with same(2) have eq: "level m1 (maxLevel m1) ! nat (i + 1) = level m2 (maxLevel m2) ! nat (i + 1)"
        "length (level m1 (maxLevel m1)) \<le> length (level m2 (maxLevel m2))"
        by (auto simp: prefix_def nth_append)
      have "matched_ok (i + 1) (the (mt h1)) m2" using i m1(1) same by (auto simp: matched_ok_def)
      from Cons.IH [OF n(3,2) m1(3) h1(2) this] step False same i eq show ?thesis by simp
    qed
  qed
qed

text \<open>Each result makes the tree at most one level higher, so its 32-bit level does not wrap.\<close>

lemma update_loop_maxLevel:
  "loop_wf c m \<Longrightarrow> update_loop hf n c m = Inr m' \<Longrightarrow> maxLevel m' \<le> Suc (maxLevel m)"
proof (induction n arbitrary: c m)
  case (Suc n)
  show ?case
  proof (cases "exceeds (level m c) (mt_maxDegree m)")
    case True
    let ?m = "\<lambda>h. if Suc c > maxLevel m then (push (Suc c) h (clear c m))\<lparr>maxLevel := Suc c\<rparr> else push (Suc c) h (clear c m)"
    from True Suc.prems(2) obtain h where u: "update_loop hf n (Suc c) (?m h) = Inr m'"
      by (auto simp: Let_def go_res)
    note wf = loop_wf_step [OF Suc.prems(1) refl, of h, simplified]
    show ?thesis
    proof (cases "Suc c > maxLevel m")
      case True
      then have "level m (Suc c) = []" "c = maxLevel m" using Suc.prems(1) by (auto simp: loop_wf_def)
      then have "level (?m h) (Suc c) = [h]" by simp
      moreover have "2 \<le> unat (mt_maxDegree (?m h))" using wf by (simp add: loop_wf_def)
      ultimately have "\<not> exceeds (level (?m h) (Suc c)) (mt_maxDegree (?m h))" by (subst exceeds_iff) auto
      with u have "m' = ?m h" by (cases n) (auto simp: Let_def)
      then show ?thesis using True \<open>c = maxLevel m\<close> by simp
    next
      case False
      then show ?thesis using Suc.IH [OF wf u] by simp
    qed
  next
    case False
    then show ?thesis using Suc.prems(2) by simp
  qed
qed simp

lemma merkleTree_update_maxLevel:
  assumes "merkle_wf m" and "merkleTree_update hf h m = Inr m'"
  shows "maxLevel m' \<le> Suc (maxLevel m)"
  using update_loop_maxLevel [OF push_loop_wf [OF assms(1)] assms(2) [unfolded merkleTree_update_def]] by simp

lemma AddResult_maxLevel:
  assumes "helper_wf h" and "AddResult ser hf r h = Inr h'"
  shows "maxLevel (the (mt h')) \<le> Suc (maxLevel (the (mt h)))"
  using assms merkleTree_update_maxLevel
  by (auto simp: AddResult_def processPendingResults_def helper_wf_def Let_def go_res split: if_splits)

lemma foldE_AddResult_maxLevel:
  "helper_wf h \<Longrightarrow> foldE (AddResult ser hf) reads h = Inr h' \<Longrightarrow> maxLevel (the (mt h')) \<le> maxLevel (the (mt h)) + length reads"
proof (induction reads arbitrary: h)
  case (Cons r reads)
  then obtain h1 where h1: "AddResult ser hf r h = Inr h1" "foldE (AddResult ser hf) reads h1 = Inr h'"
    by (auto simp: go_res)
  from Cons.IH [OF _ h1(2)] AddResult_wf [OF Cons.prems(1) h1(1)] AddResult_maxLevel [OF Cons.prems(1) h1(1)]
  show ?case by simp
qed simp

lemma done_loop_maxLevel: "done_loop hf c m = Inr m' \<Longrightarrow> maxLevel m' = maxLevel m"
proof (induction hf c m rule: done_loop.induct)
  case (1 hf c m)
  consider (stop) "\<not> c < maxLevel m" | (skip) "c < maxLevel m" "level m c = []"
    | (climb) "c < maxLevel m" "level m c \<noteq> []" by blast
  then show ?case
  proof cases
    case climb
    then obtain h where h: "(if length (level m c) = 1 then Inr (level m c ! 0) else computeCombinedHash (level m c) hf) = Inr h"
      and d: "done_loop hf (Suc c) (push (Suc c) h (clear c m)) = Inr m'"
      using "1.prems" unfolding done_loop.simps [of hf c m] by (auto simp: Let_def go_res)
    show ?thesis using "1.IH"(2) [OF climb(1) refl _ h d] climb(2) by simp
  qed (use 1 in \<open>simp_all add: done_loop.simps [of hf c m]\<close>)
qed

lemma merkleTree_done_maxLevel:
  assumes "merkleTree_done hf m = Inr m'"
  shows "maxLevel m' \<le> Suc (maxLevel m)"
  using assms done_loop_maxLevel [of hf leafLevel m]
  by (auto simp: merkleTree_done_def Let_def go_res split: if_splits)

lemma Done_final:
  assumes "helper_wf h" and "Done ser hf h = Inr (p, Some s)"
  shows "\<exists>m2. s = getSummery m2 \<and> grows (the (mt h)) m2 \<and> maxLevel m2 \<le> maxLevel (the (mt h)) + 2"
proof -
  have ne: "\<not> isEmpty (the (mt h))" using Done_empty [OF assms(1)] assms(2) by auto
  obtain m where m: "mt h = Some m" "merkle_wf m" "mt_maxDegree m = h_maxDegree h" "hashingEnabled h"
    using assms(1) by (auto simp: helper_wf_def)
  obtain h1 m1 m2 where h1: "if pendingResults h = [] then h1 = h else processPendingResults ser hf h = Inr h1"
    and m1: "mt h1 = Some m1" "merkleTree_done hf m1 = Inr m2" and s: "s = getSummery m2"
    using Done_steps [OF assms(1) ne assms(2)] by blast
  have "grows m m1 \<and> maxLevel m1 \<le> Suc (maxLevel m)"
  proof (cases "pendingResults h = []")
    case True
    with h1 m m1 show ?thesis by simp
  next
    case False
    with h1 have p: "processPendingResults ser hf h = Inr h1" by simp
    with m m1 obtain x where "merkleTree_update hf x m = Inr m1" by (auto simp: processPendingResults_def go_res)
    from merkleTree_update_maxLevel [OF m(2) this] processPendingResults_wf [OF m(4,1,2,3) p] m1 show ?thesis by auto
  qed
  with grows_done [OF m1(2)] merkleTree_done_maxLevel [OF m1(2)] s m(1) show ?thesis
    by (intro exI [of _ m2]) (auto intro: grows_trans)
qed

lemma hash_validation_exact:
  assumes "ci_invar itr" and "ci_remaining itr = map Inr xs" and "GetReadsMerkleHashes rqi = Some s"
    and "2 \<le> ms_MaxDegree s" and "ms_MaxDegree s < 2 ^ 32 - 1" and "length xs + 3 < 2 ^ 32"
  shows "bindE (rangeQueryHashValidator_init rqi) (\<lambda>h. rangeQueryHashValidator_validate ser hf rqi h itr) = Inr True \<longleftrightarrow>
    (\<exists>p. summarize ser hf (ms_MaxDegree s) (map read_of xs) = Inr (p, Some s))"
proof -
  obtain h where h: "NewRangeQueryResultsHelper True (ms_MaxDegree s) = Inr h" "helper_wf h"
    using NewHelper_wf [OF assms(4,5)] by blast
  then have m0: "maxLevel (the (mt h)) = 1"
    by (auto simp: NewRangeQueryResultsHelper_def newMerkleTree_def split: if_splits)
  have v: "bindE (rangeQueryHashValidator_init rqi) (\<lambda>h. rangeQueryHashValidator_validate ser hf rqi h itr) =
      hash_loop ser hf s (-1) h itr"
    by (simp add: rangeQueryHashValidator_init_def rangeQueryHashValidator_validate_def assms(3) h(1))
  have "hash_loop ser hf s (-1) h itr = Inr True"
    if "summarize ser hf (ms_MaxDegree s) (map read_of xs) = Inr (p, Some s)" for p
  proof -
    from that obtain h' where h': "foldE (AddResult ser hf) (map read_of xs) h = Inr h'" "Done ser hf h' = Inr (p, Some s)"
      by (auto simp: summarize_def h(1) go_res)
    have wf: "helper_wf h'" using foldE_AddResult [OF h(2) h'(1)] by simp
    obtain m2 where m2: "s = getSummery m2" "grows (the (mt h')) m2" "maxLevel m2 \<le> maxLevel (the (mt h')) + 2"
      using Done_final [OF wf h'(2)] by blast
    have "maxLevel m2 < 2 ^ 32" using m2(3) foldE_AddResult_maxLevel [OF h(2) h'(1)] m0 assms(6) by simp
    then show ?thesis
      using hash_loop_complete [OF assms(1,2) h(2) h'(1) h'(2) [unfolded m2(1)] m2(2), of "-1"] m2(1)
      by (simp add: matched_ok_def)
  qed
  then show ?thesis
    using hash_loop_sound [OF assms(1,2), of ser hf s "-1" h] v by (auto simp: summarize_def h(1))
qed

section \<open>A panic\<close>

text \<open>A query over six results is recorded; three more results of the range appear afterwards.\<close>

definition empty_VersionedDB :: "unit VersionedDB" where
  "empty_VersionedDB = \<lparr>vdb_GetState = (\<lambda>_ _ _. Inr None), vdb_GetVersion = (\<lambda>_ _ _. Inr None),
     vdb_GetStateMultipleKeys = (\<lambda>_ _ keys. Inr (map (\<lambda>_. None) keys)), vdb_GetStateRangeScanIterator = (\<lambda>_ _ _ _. Inr []),
     vdb_GetStateRangeScanIteratorWithPagination = (\<lambda>_ _ _ _ _. Inr []), vdb_ApplyUpdates = (\<lambda>_ _ s. Inr s),
     vdb_GetLatestSavePoint = (\<lambda>_. Inr None), vdb_ValidateKeyValue = (\<lambda>_ _. Inr ()), vdb_BytesKeySupported = True,
     vdb_BulkOptimizable = None\<rparr>"

definition keys_batch :: "nat \<Rightarrow> UpdateBatch" where
  "keys_batch n = \<lparr>ContainsPostOrderWrites = False, Updates = [(''ns'', map (\<lambda>i. ([char_of (97 + i)],
     \<lparr>vv_Value = Some ''v'', vv_Metadata = None, vv_Version = Some (NewHeight 1 (of_nat i))\<rparr>)) [0..<n])], SchemaUpdates = []\<rparr>"

definition recorded_query :: "nat \<Rightarrow> RangeQueryInfo" where
  "recorded_query n = \<lparr>rq_StartKey = [], rq_EndKey = [], rq_ItrExhausted = True,
     rq_ReadsInfo = (case summarize sample_ser sample_hash 2 (sample_reads n) of
        Inr (_, Some s) \<Rightarrow> Some (ReadsMerkleHashes s) | Inr (r, None) \<Rightarrow> Some (RawReads r) | Inl _ \<Rightarrow> None)\<rparr>"

definition validate_recorded :: "RangeQueryInfo \<Rightarrow> nat \<Rightarrow> bool res" where
  "validate_recorded rqi n =
     bindE (newCombinedIterator empty_VersionedDB () (keys_batch n) ''ns'' [] [] False) (\<lambda>itr.
     bindE (rangeQueryHashValidator_init rqi) (\<lambda>h.
       rangeQueryHashValidator_validate sample_ser sample_hash rqi h itr))"

lemma recorded_six:
  "recorded_query 6 = \<lparr>rq_StartKey = [], rq_EndKey = [], rq_ItrExhausted = True,
     rq_ReadsInfo = Some (ReadsMerkleHashes \<lparr>ms_MaxDegree = 2, ms_MaxLevel = 1, ms_MaxLevelHashes = [''#cba'', ''#fed'']\<rparr>)\<rparr>"
  by code_simp


section \<open>Witness\<close>

definition sample_overwrite :: UpdateBatch where
  "sample_overwrite = UpdateBatch_Delete ''ns1'' ''a'' (Some (NewHeight 8 0)) NewUpdateBatch"

lemma sample_range:
  "vdb_GetStateRangeScanIterator (leveldb_VersionedDB sample_dbcodec mem_ops ''ch'') sample_committed ''ns1'' [] [] =
     Inr (map Inr [mk_kv ''ns1'' ''a'' \<lparr>vv_Value = Some ''1'', vv_Metadata = None, vv_Version = Some (NewHeight 7 1)\<rparr>])"
proof -
  have "decodeValue sample_dbcodec ''v'' = Inr \<lparr>vv_Value = Some ''1'', vv_Metadata = None, vv_Version = Some (NewHeight 7 1)\<rparr>"
    using NewHeightFromBytes_ToBytes [OF ToBytes_opv, of "NewHeight 7 1"]
    by (simp add: decodeValue_def sample_dbcodec_def sample_dbvalue_def ToBytes_opv)
  then show ?thesis
    by (simp add: leveldb_VersionedDB_def GetStateRangeScanIterator_def sample_scan scan_remaining_def sample_scanner_def
        newKVScanner_def decode_entry_def Iterator_Key_def retrieveAppKey_construct decode_encodeDataKey no_NUL_def)
qed

theorem combined_iterator_merged_range_witness:
  "\<exists>itr xs. newCombinedIterator (leveldb_VersionedDB sample_dbcodec mem_ops ''ch'') sample_committed sample_overwrite
      ''ns1'' [] [] False = Inr itr \<and>
    Next_n combinedIterator_Next (length xs + 1) itr = map (\<lambda>kv. Inr (Some kv)) xs @ [Inr None] \<and>
    (\<forall>kv \<in> set xs. vkv_Key kv \<noteq> ''a'')"
proof -
  have wf: "wf_batch sample_overwrite" by (simp add: sample_overwrite_def)
  have "\<exists>v. vdb_GetState (leveldb_VersionedDB sample_dbcodec mem_ops ''ch'') sample_committed ''ns1'' [] = Inr v"
    using sample_states by (simp add: leveldb_VersionedDB_def)
  then obtain v where v: "vdb_GetState (leveldb_VersionedDB sample_dbcodec mem_ops ''ch'') sample_committed ''ns1'' [] = Inr v" by blast
  from combined_iterator_merged_range [OF sld.versioned_db_axioms sample_batch_ok(3) wf sample_range v, of False 1]
  obtain itr xs where r: "newCombinedIterator (leveldb_VersionedDB sample_dbcodec mem_ops ''ch'') sample_committed sample_overwrite
      ''ns1'' [] [] False = Inr itr"
    "Next_n combinedIterator_Next (length xs + 1) itr = map (\<lambda>kv. Inr (Some kv)) xs @ [Inr None]"
    and m: "\<And>key val ver. (\<exists>kv \<in> set xs. vkv_Key kv = key \<and> vkv_Value kv = val \<and> vkv_Version kv = ver) \<longleftrightarrow>
      in_range [] [] key \<and> (\<exists>vv. overlay (UpdateBatch_Get sample_overwrite ''ns1'' key)
        (level_contents sample_dbcodec ''ch'' (map_of sample_committed) ''ns1'' key) = Some vv \<and> vv_Value vv = val \<and> vv_Version vv = ver)"
    by auto
  have "vkv_Key kv \<noteq> ''a''" if "kv \<in> set xs" for kv
  proof
    assume a: "vkv_Key kv = ''a''"
    have "\<exists>vv. overlay (UpdateBatch_Get sample_overwrite ''ns1'' ''a'')
        (level_contents sample_dbcodec ''ch'' (map_of sample_committed) ''ns1'' ''a'') = Some vv"
      using m [of "''a''" "vkv_Value kv" "vkv_Version kv"] that a by auto
    then show False by (simp add: sample_overwrite_def VersionedValue_IsDelete_def)
  qed
  with r show ?thesis by blast
qed

end
