(* ===== verification/Validator.thy ===== *)
theory Validator
  imports TxOps RangeQuery TxFlags
begin

text \<open>
  Validation of a block against the committed state
  (core/ledger/kvledger/txmgmt/validation/validator.go and the block types of types.go): the checks
  of public reads, range queries and hashed reads, and the loop that validates the transactions of a
  block one after another and collects the updates of the valid ones. Shown: exactly which
  transactions are marked valid, and that the updates of a block are those of a serial execution of
  its valid transactions, in which every transaction saw the current version of everything it read.
\<close>

section \<open>Blocks and transactions\<close>

record TxnInfoProto =
  IndexInFatBlock :: u64
  TxnMVCCStatus :: int

record SparseTxnFilterProto =
  FatBlockNumber :: u64
  TxnInfoList :: "TxnInfoProto list"

record transaction =
  tx_indexInBlock :: nat
  tx_id :: gostring
  tx_rwset :: TxRwSet
  tx_validationCode :: TxValidationCode
  tx_containsPostOrderWrites :: bool

record block =
  blk_num :: u64
  blk_txs :: "transaction list"
  sparseblockchainFilter :: SparseTxnFilterProto
  sparseFilterExists :: bool

definition containsPvtWrites :: "transaction \<Rightarrow> bool" where
  "containsPvtWrites t =
     list_ex (\<lambda>ns. list_ex (\<lambda>coll. PvtRwSetHash coll \<noteq> None) (CollHashedRwSets ns)) (NsRwSets (tx_rwset t))"

text \<open>The loops return the hash of the first collection found, in the first namespace that has one.\<close>

definition retrieveHash :: "transaction \<Rightarrow> gostring \<Rightarrow> gostring \<Rightarrow> gobytes" where
  "retrieveHash t ns coll =
     (case List.find (\<lambda>collData. ch_CollectionName collData = coll)
         (concat (map CollHashedRwSets (filter (\<lambda>nsData. NameSpace nsData = ns) (NsRwSets (tx_rwset t))))) of
        None \<Rightarrow> None | Some collData \<Rightarrow> PvtRwSetHash collData)"

section \<open>The validator\<close>

text \<open>The library functions the package calls: protobuf serialization and the hash of the ledger.\<close>

record libs =
  lib_Marshal_KVMetadataWrite :: "KVMetadataWrite \<Rightarrow> bytes res"
  lib_Marshal_QueryReads :: "KVRead list \<Rightarrow> bytes res"
  lib_ComputeHash :: "bytes \<Rightarrow> bytes"

record ('s, 'b) validator =
  v_db :: "('s, 'b) DB"
  v_hashFunc :: hash_func

definition collectPubKeys :: "block \<Rightarrow> CompositeKey list" where
  "collectPubKeys blk =
     fold (\<lambda>tx. fold (\<lambda>nsRWSet. fold (\<lambda>kvRead pubKeys.
         let compositeKey = \<lparr>ck_Namespace = NameSpace nsRWSet, ck_Key = r_Key kvRead\<rparr> in
         if compositeKey \<in> set pubKeys then pubKeys else pubKeys @ [compositeKey])
       (Reads (KvRwSet nsRWSet))) (NsRwSets (tx_rwset tx))) (blk_txs blk) []"

definition collectHashedKeys :: "block \<Rightarrow> HashedCompositeKey list" where
  "collectHashedKeys blk =
     fold (\<lambda>tx. fold (\<lambda>nsRWSet. fold (\<lambda>colHashedRwSet. fold (\<lambda>kvHashedRead hashedKeys.
         let hashedCompositeKey = \<lparr>hk_Namespace = NameSpace nsRWSet, hk_CollectionName = ch_CollectionName colHashedRwSet,
               hk_KeyHash = rh_KeyHash kvHashedRead\<rparr> in
         if hashedCompositeKey \<in> set hashedKeys then hashedKeys else hashedKeys @ [hashedCompositeKey])
       (HashedReads (HashedRwSet colHashedRwSet))) (CollHashedRwSets nsRWSet)) (NsRwSets (tx_rwset tx))) (blk_txs blk) []"

definition preLoadCommittedVersionOfRSet :: "block \<Rightarrow> ('s, 'b) validator \<Rightarrow> ('s, 'b) validator res" where
  "preLoadCommittedVersionOfRSet blk v =
     (let pubKeys = collectPubKeys blk; hashedKeys = collectHashedKeys blk in
      if length pubKeys > 0 \<or> length hashedKeys > 0
      then bindE (LoadCommittedVersionsOfPubAndHashedKeys pubKeys hashedKeys (v_db v)) (\<lambda>db. Inr (v\<lparr>v_db := db\<rparr>))
      else Inr v)"

definition validateKVRead :: "('s, 'b) validator \<Rightarrow> UpdateBatch \<Rightarrow> gostring \<Rightarrow> KVRead \<Rightarrow> bool res" where
  "validateKVRead v updates ns kvRead =
     (let readVersion = NewVersion (r_Version kvRead) in
      if UpdateBatch_Exists updates ns (r_Key kvRead) then Inr False
      else bindE (db_GetVersion (v_db v) ns (r_Key kvRead)) (\<lambda>committedVersion.
        if \<not> AreSame committedVersion readVersion then Inr False else Inr True))"

definition validateReadSet :: "('s, 'b) validator \<Rightarrow> UpdateBatch \<Rightarrow> gostring \<Rightarrow> KVRead list \<Rightarrow> bool res" where
  "validateReadSet v updates ns kvReads = checkAll (validateKVRead v updates ns) kvReads"

definition validateRangeQuery ::
  "libs \<Rightarrow> ('s, 'b) validator \<Rightarrow> UpdateBatch \<Rightarrow> gostring \<Rightarrow> RangeQueryInfo \<Rightarrow> bool res" where
  "validateRangeQuery l v updates ns rangeQueryInfo =
     (let includeEndKey = \<not> rq_ItrExhausted rangeQueryInfo in
      bindE (newCombinedIterator (db_VersionedDB (v_db v)) (db_state (v_db v)) updates ns (rq_StartKey rangeQueryInfo)
          (rq_EndKey rangeQueryInfo) includeEndKey) (\<lambda>combinedItr.
        if GetReadsMerkleHashes rangeQueryInfo \<noteq> None then
          bindE (rangeQueryHashValidator_init rangeQueryInfo) (\<lambda>helper.
            rangeQueryHashValidator_validate (lib_Marshal_QueryReads l) (v_hashFunc v) rangeQueryInfo helper combinedItr)
        else rangeQueryResultsValidator_validate rangeQueryInfo combinedItr))"

definition validateRangeQueries ::
  "libs \<Rightarrow> ('s, 'b) validator \<Rightarrow> UpdateBatch \<Rightarrow> gostring \<Rightarrow> RangeQueryInfo list \<Rightarrow> bool res" where
  "validateRangeQueries l v updates ns rangeQueriesInfo = checkAll (validateRangeQuery l v updates ns) rangeQueriesInfo"

definition validateKVReadHash ::
  "('s, 'b) validator \<Rightarrow> UpdateMap \<Rightarrow> gostring \<Rightarrow> gostring \<Rightarrow> KVReadHash \<Rightarrow> bool res" where
  "validateKVReadHash v updates ns coll kvReadHash =
     (let readHashVersion = NewVersion (rh_Version kvReadHash) in
      if Hashed_Contains updates ns coll (Some (rh_KeyHash kvReadHash)) then Inr False
      else bindE (GetKeyHashVersion (v_db v) ns coll (rh_KeyHash kvReadHash)) (\<lambda>committedVersion.
        if \<not> AreSame committedVersion readHashVersion then Inr False else Inr True))"

definition validateCollHashedReadSet ::
  "('s, 'b) validator \<Rightarrow> UpdateMap \<Rightarrow> gostring \<Rightarrow> gostring \<Rightarrow> KVReadHash list \<Rightarrow> bool res" where
  "validateCollHashedReadSet v updates ns coll kvReadHashes = checkAll (validateKVReadHash v updates ns coll) kvReadHashes"

definition validateNsHashedReadSets ::
  "('s, 'b) validator \<Rightarrow> UpdateMap \<Rightarrow> gostring \<Rightarrow> CollHashedRwSet list \<Rightarrow> bool res" where
  "validateNsHashedReadSets v updates ns collHashedRWSets =
     checkAll (\<lambda>collHashedRWSet. validateCollHashedReadSet v updates ns (ch_CollectionName collHashedRWSet)
       (HashedReads (HashedRwSet collHashedRWSet))) collHashedRWSets"

text \<open>The loop over the namespaces returns at the first conflict.\<close>

fun validateTx_loop :: "libs \<Rightarrow> ('s, 'b) validator \<Rightarrow> publicAndHashUpdates \<Rightarrow> NsRwSet list \<Rightarrow> TxValidationCode res" where
  "validateTx_loop l v updates [] = Inr TxValidationCode_VALID"
| "validateTx_loop l v updates (nsRWSet # nsRWSets) =
     (let ns = NameSpace nsRWSet in
      bindE (validateReadSet v (publicUpdates updates) ns (Reads (KvRwSet nsRWSet))) (\<lambda>valid.
      if \<not> valid then Inr TxValidationCode_MVCC_READ_CONFLICT
      else bindE (validateRangeQueries l v (publicUpdates updates) ns (RangeQueriesInfo (KvRwSet nsRWSet))) (\<lambda>valid.
      if \<not> valid then Inr TxValidationCode_PHANTOM_READ_CONFLICT
      else bindE (validateNsHashedReadSets v (hashUpdates updates) ns (CollHashedRwSets nsRWSet)) (\<lambda>valid.
      if \<not> valid then Inr TxValidationCode_MVCC_READ_CONFLICT
      else validateTx_loop l v updates nsRWSets))))"

definition validateTx :: "libs \<Rightarrow> ('s, 'b) validator \<Rightarrow> TxRwSet \<Rightarrow> publicAndHashUpdates \<Rightarrow> TxValidationCode res" where
  "validateTx l v txRWSet updates = validateTx_loop l v updates (NsRwSets txRWSet)"

definition validateEndorserTX ::
  "libs \<Rightarrow> ('s, 'b) validator \<Rightarrow> TxRwSet \<Rightarrow> bool \<Rightarrow> publicAndHashUpdates \<Rightarrow> TxValidationCode res" where
  "validateEndorserTX l v txRWSet doMVCCValidation updates =
     (if doMVCCValidation then validateTx l v txRWSet updates else Inr TxValidationCode_VALID)"

section \<open>Purges\<close>

record AppInitiatedPurgeUpdate =
  pu_CompositeKey :: HashedCompositeKey
  pu_Version :: Height

type_synonym pvtdataPurgeTracker = "(HashedCompositeKey, AppInitiatedPurgeUpdate) gomap"

definition purgeTracker_update :: "TxRwSet \<Rightarrow> Height \<Rightarrow> pvtdataPurgeTracker \<Rightarrow> pvtdataPurgeTracker" where
  "purgeTracker_update rwset version =
     fold (\<lambda>nsRwSets. fold (\<lambda>collHashedRwSet. fold (\<lambda>hashedWrite p.
         let ck = \<lparr>hk_Namespace = NameSpace nsRwSets, hk_CollectionName = ch_CollectionName collHashedRwSet,
               hk_KeyHash = wh_KeyHash hashedWrite\<rparr> in
         if wh_IsPurge hashedWrite then AList.update ck \<lparr>pu_CompositeKey = ck, pu_Version = version\<rparr> p else p)
       (HashedWrites (HashedRwSet collHashedRwSet))) (CollHashedRwSets nsRwSets)) (NsRwSets rwset)"

definition purgeTracker_getUpdates :: "pvtdataPurgeTracker \<Rightarrow> AppInitiatedPurgeUpdate list" where
  "purgeTracker_getUpdates p = map snd p"

section \<open>The loop over a block\<close>

text \<open>
  The height of a transaction: in a block cut out of a fat block, the number of the fat block and
  the index of the transaction in it.
\<close>

definition useSparseFilter :: "bool \<Rightarrow> u64 \<Rightarrow> bool" where
  "useSparseFilter exists num = (exists \<and> num \<noteq> 0)"

definition committingBlockNumber :: "SparseTxnFilterProto \<Rightarrow> bool \<Rightarrow> u64 \<Rightarrow> u64" where
  "committingBlockNumber flt exists num =
     (if useSparseFilter exists num then FatBlockNumber flt else num)"

definition indexInFatBlock :: "SparseTxnFilterProto \<Rightarrow> bool \<Rightarrow> u64 \<Rightarrow> nat \<Rightarrow> u64 res" where
  "indexInFatBlock flt exists num i =
     (if useSparseFilter exists num then
        (if i < length (TxnInfoList flt) then Inr (IndexInFatBlock (TxnInfoList flt ! i))
         else Inl (Panic ''index out of range''))
      else Inr (of_nat i))"

definition committingTxHeight :: "SparseTxnFilterProto \<Rightarrow> bool \<Rightarrow> u64 \<Rightarrow> nat \<Rightarrow> Height res" where
  "committingTxHeight flt exists num i =
     bindE (indexInFatBlock flt exists num i) (\<lambda>idx. Inr (NewHeight (committingBlockNumber flt exists num) idx))"

type_synonym batch_state = "publicAndHashUpdates \<times> pvtdataPurgeTracker \<times> transaction list"

definition validateAndApplyTx ::
  "libs \<Rightarrow> ('s, 'b) validator \<Rightarrow> block \<Rightarrow> bool \<Rightarrow> transaction \<Rightarrow> batch_state \<Rightarrow> batch_state res" where
  "validateAndApplyTx l v blk doMVCCValidation tx = (\<lambda>(updates, purgeTracker, processed).
     bindE (if tx_validationCode tx = TxValidationCode_VALID
            then validateEndorserTX l v (tx_rwset tx) doMVCCValidation updates
            else Inr (tx_validationCode tx)) (\<lambda>validationCode.
     let tx = tx\<lparr>tx_validationCode := validationCode\<rparr> in
     if validationCode = TxValidationCode_VALID then
       bindE (committingTxHeight (sparseblockchainFilter blk) (sparseFilterExists blk) (blk_num blk) (tx_indexInBlock tx)) (\<lambda>height.
       bindE (applyWriteSet (lib_Marshal_KVMetadataWrite l) (lib_ComputeHash l) (tx_rwset tx) (Some height) (v_db v)
           (tx_containsPostOrderWrites tx) updates) (\<lambda>updates'.
         Inr (updates', purgeTracker_update (tx_rwset tx) height purgeTracker, processed @ [tx])))
     else Inr (updates, purgeTracker, processed @ [tx])))"

text \<open>The code sets the validation code in the transactions of the block, which is returned.\<close>

definition validateAndPrepareBatch ::
  "libs \<Rightarrow> block \<Rightarrow> bool \<Rightarrow> ('s, 'b) validator \<Rightarrow>
   (publicAndHashUpdates \<times> AppInitiatedPurgeUpdate list \<times> block \<times> ('s, 'b) validator) res" where
  "validateAndPrepareBatch l blk doMVCCValidation v =
     bindE (if IsBulkOptimizable (v_db v) then preLoadCommittedVersionOfRSet blk v else Inr v) (\<lambda>v.
     bindE (foldE (validateAndApplyTx l v blk doMVCCValidation) (blk_txs blk) (newPubAndHashUpdates, [], []))
       (\<lambda>(updates, purgeTracker, txs).
          Inr (updates, purgeTracker_getUpdates purgeTracker, blk\<lparr>blk_txs := txs\<rparr>, v)))"

section \<open>What a transaction must have read\<close>

text \<open>
  The specification is about a state \<open>W\<close>, a map from composite keys to values. \<open>range_now\<close> is the
  result a range query has in it: the keys of the range in order, with their versions.
\<close>

definition version_at :: "(compositeKey \<Rightarrow> VersionedValue option) \<Rightarrow> compositeKey \<Rightarrow> Height option" where
  "version_at W ck = Option.bind (W ck) vv_Version"

definition range_now ::
  "(compositeKey \<Rightarrow> VersionedValue option) \<Rightarrow> gostring \<Rightarrow> RangeQueryInfo \<Rightarrow> (gostring \<times> Height option) list \<Rightarrow> bool" where
  "range_now W ns rqi rs \<longleftrightarrow> sorted_wrt (<) (map fst rs) \<and>
     (\<forall>key h. (key, h) \<in> set rs \<longleftrightarrow>
        (in_range (rq_StartKey rqi) (rq_EndKey rqi) key \<or> \<not> rq_ItrExhausted rqi \<and> key = rq_EndKey rqi) \<and>
        (\<exists>vv. W (mk_compositeKey ns [] key) = Some vv \<and> vv_Version vv = h))"

text \<open>
  A recorded query is current if it holds the result of the query in the state, as raw reads or as
  the summary of them. Summaries count levels and results in 32 bits; nothing is said of a summary
  of about \<open>2\<^sup>32\<close> results or more.
\<close>

definition range_current ::
  "(KVRead list \<Rightarrow> bytes res) \<Rightarrow> hash_func \<Rightarrow> (compositeKey \<Rightarrow> VersionedValue option) \<Rightarrow> gostring \<Rightarrow> RangeQueryInfo \<Rightarrow> bool" where
  "range_current ser hashFunc W ns rqi \<longleftrightarrow>
     (\<exists>rs. range_now W ns rqi rs \<and>
        (case GetReadsMerkleHashes rqi of
           None \<Rightarrow> map (\<lambda>r. (r_Key r, NewVersion (r_Version r))) (GetRawReads rqi) = rs
         | Some s \<Rightarrow> length rs + 3 < 2 ^ 32 \<longrightarrow>
             (\<exists>p. summarize ser hashFunc (ms_MaxDegree s) (map (\<lambda>(key, h). NewKVRead key h) rs) = Inr (p, Some s))))"

text \<open>
  Queries as simulations record them: the end key of a query that was not exhausted is the last key
  seen, every raw read has a version, and the degree of a summary is one the code accepts.
\<close>

definition wf_query :: "RangeQueryInfo \<Rightarrow> bool" where
  "wf_query rqi \<longleftrightarrow> (\<not> rq_ItrExhausted rqi \<longrightarrow> rq_EndKey rqi \<noteq> [] \<and> rq_StartKey rqi \<le> rq_EndKey rqi) \<and>
     (case GetReadsMerkleHashes rqi of
        None \<Rightarrow> list_all (\<lambda>r. r_Version r \<noteq> None) (GetRawReads rqi)
      | Some s \<Rightarrow> 2 \<le> ms_MaxDegree s \<and> ms_MaxDegree s < 2 ^ 32 - 1)"

text \<open>The database answers reads and scans without an error.\<close>

definition db_answers :: "(gostring \<Rightarrow> bool) \<Rightarrow> ('s, 'b) DB \<Rightarrow> bool" where
  "db_answers valid_ns db \<longleftrightarrow> (\<forall>ns key. \<exists>v. db_GetState db ns key = Inr v) \<and> (\<forall>ns key. \<exists>h. db_GetVersion db ns key = Inr h) \<and>
     (\<forall>ns a b. valid_ns ns \<longrightarrow> (\<exists>kvs. vdb_GetStateRangeScanIterator (db_VersionedDB db) (db_state db) ns a b = Inr (map Inr kvs)))"

lemma range_now_unique:
  assumes "range_now W ns rqi rs" and "range_now W ns rqi rs'"
  shows "rs = rs'"
proof (rule map_sorted_distinct_set_unique [where f = fst])
  from assms show s: "set rs = set rs'" by (auto simp: range_now_def)
  from assms show "sorted (map fst rs)" "sorted (map fst rs')" "distinct (map fst rs)" "distinct (map fst rs')"
    unfolding range_now_def strict_sorted_iff by auto
  then show "inj_on fst (set rs \<union> set rs')" using s by (simp add: distinct_map)
qed

lemma world_public [simp]:
  "world contents db u (mk_compositeKey ns [] key) = overlay (UpdateBatch_Get (publicUpdates u) ns key) (contents (db_state db) ns key)"
  by (simp add: world_def phu_get_def db_value_def mk_compositeKey_def)

lemma rangeQueryResultsValidator_exact:
  assumes "ci_invar itr" and "ci_remaining itr = map Inr xs" and "list_all (\<lambda>r. r_Version r \<noteq> None) (GetRawReads rqi)"
  shows "rangeQueryResultsValidator_validate rqi itr =
    Inr (map (\<lambda>r. (r_Key r, NewVersion (r_Version r))) (GetRawReads rqi) = map (\<lambda>kv. (vkv_Key kv, vkv_Version kv)) xs)"
proof -
  obtain result xs' where n: "fst (combinedIterator_Next itr) = Inr result"
    "ci_remaining (snd (combinedIterator_Next itr)) = map Inr xs'" "xs = (case result of None \<Rightarrow> [] | Some r \<Rightarrow> r # xs')"
    using ci_results_Next [OF assms(1,2)] by blast
  have "ci_invar (snd (combinedIterator_Next itr))"
    using ci.nxt_invar [OF assms(1)] by simp
  from results_loop_spec [OF this n(2) assms(3), of result] n show ?thesis
    by (cases result) (auto simp: rangeQueryResultsValidator_validate_def Let_def)
qed

lemma validateRangeQuery_result:
  assumes "versioned_db (db_VersionedDB (v_db v)) contents valid_ns stored_as" and "valid_ns ns"
    and "wf_batch (publicUpdates u)" and "db_answers valid_ns (v_db v)" and "wf_query rqi"
  shows "\<exists>rs. range_now (world contents (v_db v) u) ns rqi rs \<and>
    (case GetReadsMerkleHashes rqi of
       None \<Rightarrow> validateRangeQuery l v (publicUpdates u) ns rqi =
         Inr (map (\<lambda>r. (r_Key r, NewVersion (r_Version r))) (GetRawReads rqi) = rs)
     | Some s \<Rightarrow> length rs + 3 < 2 ^ 32 \<longrightarrow> (validateRangeQuery l v (publicUpdates u) ns rqi = Inr True \<longleftrightarrow>
         (\<exists>p. summarize (lib_Marshal_QueryReads l) (v_hashFunc v) (ms_MaxDegree s) (map (\<lambda>(key, h). NewKVRead key h) rs) = Inr (p, Some s))))"
proof -
  obtain kvs where kvs: "vdb_GetStateRangeScanIterator (db_VersionedDB (v_db v)) (db_state (v_db v)) ns (rq_StartKey rqi) (rq_EndKey rqi) = Inr (map Inr kvs)"
    using assms(2,4) unfolding db_answers_def by blast
  obtain val where val: "db_GetState (v_db v) ns (rq_EndKey rqi) = Inr val" using assms(4) unfolding db_answers_def by blast
  have ek: "\<not> rq_ItrExhausted rqi \<Longrightarrow> rq_EndKey rqi \<noteq> [] \<and> rq_StartKey rqi \<le> rq_EndKey rqi" using assms(5) by (simp add: wf_query_def)
  obtain itr xs where itr: "newCombinedIterator (db_VersionedDB (v_db v)) (db_state (v_db v)) (publicUpdates u) ns (rq_StartKey rqi)
      (rq_EndKey rqi) (\<not> rq_ItrExhausted rqi) = Inr itr" "ci_invar itr" "ci_remaining itr = map Inr xs" "sorted_wrt (<) (map vkv_Key xs)"
    and mem: "\<forall>key val ver. (\<exists>kv \<in> set xs. vkv_Key kv = key \<and> vkv_Value kv = val \<and> vkv_Version kv = ver) \<longleftrightarrow>
      (in_range (rq_StartKey rqi) (rq_EndKey rqi) key \<or> \<not> rq_ItrExhausted rqi \<and> key = rq_EndKey rqi) \<and>
      (\<exists>vv. overlay (UpdateBatch_Get (publicUpdates u) ns key) (contents (db_state (v_db v)) ns key) = Some vv \<and>
         vv_Value vv = val \<and> vv_Version vv = ver)"
    using combined_iterator_range [OF assms(1-3) kvs val ek] by blast
  define rs where "rs = map (\<lambda>kv. (vkv_Key kv, vkv_Version kv)) xs"
  have "(key, h) \<in> set rs \<longleftrightarrow> (\<exists>val. \<exists>kv \<in> set xs. vkv_Key kv = key \<and> vkv_Value kv = val \<and> vkv_Version kv = h)" for key h
    by (auto simp: rs_def)
  then have rs: "range_now (world contents (v_db v) u) ns rqi rs"
    using itr(4) unfolding mem [rule_format] by (auto simp: range_now_def rs_def comp_def)
  have reads: "map (\<lambda>(key, h). NewKVRead key h) rs = map read_of xs" "length rs = length xs" by (simp_all add: rs_def)
  show ?thesis
  proof (cases "GetReadsMerkleHashes rqi")
    case None
    then have "list_all (\<lambda>r. r_Version r \<noteq> None) (GetRawReads rqi)" using assms(5) by (simp add: wf_query_def)
    from rangeQueryResultsValidator_exact [OF itr(2,3) this] rs None show ?thesis
      by (intro exI [of _ rs]) (simp add: validateRangeQuery_def itr(1) rs_def)
  next
    case (Some s)
    then have d: "2 \<le> ms_MaxDegree s" "ms_MaxDegree s < 2 ^ 32 - 1" using assms(5) by (simp_all add: wf_query_def)
    have "validateRangeQuery l v (publicUpdates u) ns rqi = bindE (rangeQueryHashValidator_init rqi)
        (\<lambda>h. rangeQueryHashValidator_validate (lib_Marshal_QueryReads l) (v_hashFunc v) rqi h itr)"
      by (simp add: validateRangeQuery_def itr(1) Some)
    with hash_validation_exact [OF itr(2,3) Some d] Some reads rs show ?thesis by (intro exI [of _ rs]) simp
  qed
qed

lemma validateRangeQuery_sound:
  assumes "versioned_db (db_VersionedDB (v_db v)) contents valid_ns stored_as" and "valid_ns ns"
    and "wf_batch (publicUpdates u)" and "db_answers valid_ns (v_db v)" and "wf_query rqi"
    and "validateRangeQuery l v (publicUpdates u) ns rqi = Inr True"
  shows "range_current (lib_Marshal_QueryReads l) (v_hashFunc v) (world contents (v_db v) u) ns rqi"
  using validateRangeQuery_result [OF assms(1-5), of l] assms(6)
  unfolding range_current_def by (cases "GetReadsMerkleHashes rqi") auto

lemma validateRangeQuery_complete:
  assumes "versioned_db (db_VersionedDB (v_db v)) contents valid_ns stored_as" and "valid_ns ns"
    and "wf_batch (publicUpdates u)" and "db_answers valid_ns (v_db v)" and "wf_query rqi"
    and "range_current (lib_Marshal_QueryReads l) (v_hashFunc v) (world contents (v_db v) u) ns rqi"
    and "\<And>rs. range_now (world contents (v_db v) u) ns rqi rs \<Longrightarrow> length rs + 3 < 2 ^ 32"
  shows "validateRangeQuery l v (publicUpdates u) ns rqi = Inr True"
proof -
  obtain rs where rs: "range_now (world contents (v_db v) u) ns rqi rs"
    and v: "case GetReadsMerkleHashes rqi of
       None \<Rightarrow> validateRangeQuery l v (publicUpdates u) ns rqi =
         Inr (map (\<lambda>r. (r_Key r, NewVersion (r_Version r))) (GetRawReads rqi) = rs)
     | Some s \<Rightarrow> length rs + 3 < 2 ^ 32 \<longrightarrow> (validateRangeQuery l v (publicUpdates u) ns rqi = Inr True \<longleftrightarrow>
         (\<exists>p. summarize (lib_Marshal_QueryReads l) (v_hashFunc v) (ms_MaxDegree s) (map (\<lambda>(key, h). NewKVRead key h) rs) = Inr (p, Some s)))"
    using validateRangeQuery_result [OF assms(1-5), of l] by blast
  from assms(6) obtain rs' where "range_now (world contents (v_db v) u) ns rqi rs'"
    and c: "case GetReadsMerkleHashes rqi of
           None \<Rightarrow> map (\<lambda>r. (r_Key r, NewVersion (r_Version r))) (GetRawReads rqi) = rs'
         | Some s \<Rightarrow> length rs' + 3 < 2 ^ 32 \<longrightarrow>
             (\<exists>p. summarize (lib_Marshal_QueryReads l) (v_hashFunc v) (ms_MaxDegree s) (map (\<lambda>(key, h). NewKVRead key h) rs') = Inr (p, Some s))"
    unfolding range_current_def by blast
  then have "rs' = rs" using range_now_unique rs by blast
  with v c assms(7) [OF rs] show ?thesis by (cases "GetReadsMerkleHashes rqi") auto
qed

section \<open>Which transactions are valid\<close>

text \<open>Read-write sets with chaincode names, named collections and well-formed queries.\<close>

definition valid_rwset :: "(gostring \<Rightarrow> bool) \<Rightarrow> TxRwSet \<Rightarrow> bool" where
  "valid_rwset valid_ns rwset \<longleftrightarrow> (\<forall>n \<in> set (NsRwSets rwset). no_dollar (NameSpace n) \<and> valid_ns (NameSpace n) \<and>
     (\<forall>rqi \<in> set (RangeQueriesInfo (KvRwSet n)). wf_query rqi) \<and>
     (\<forall>c \<in> set (CollHashedRwSets n). ch_CollectionName c \<noteq> [] \<and> valid_ns (deriveHashedDataNs (NameSpace n) (ch_CollectionName c))))"

text \<open>
  A read is fresh if no earlier transaction of the block updated the key and the committed version
  is the one read.
\<close>

definition read_fresh ::
  "('s \<Rightarrow> gostring \<Rightarrow> gostring \<Rightarrow> VersionedValue option) \<Rightarrow> ('s, 'b) DB \<Rightarrow> publicAndHashUpdates \<Rightarrow> compositeKey \<Rightarrow>
   ProtoVersion option \<Rightarrow> bool" where
  "read_fresh contents db u ck ver \<longleftrightarrow> phu_get u ck = None \<and> version_at (db_value contents db) ck = NewVersion ver"

lemma validateKVRead_exact:
  assumes "versioned_db (db_VersionedDB (v_db v)) contents valid_ns stored_as" and "db_answers valid_ns (v_db v)"
  shows "validateKVRead v (publicUpdates u) ns r =
    Inr (read_fresh contents (v_db v) u (mk_compositeKey ns [] (r_Key r)) (r_Version r))"
proof -
  obtain h where "db_GetVersion (v_db v) ns (r_Key r) = Inr h" using assms(2) unfolding db_answers_def by blast
  moreover from versioned_db.GetVersion_contents [OF assms(1) this]
  have "h = Option.bind (contents (db_state (v_db v)) ns (r_Key r)) vv_Version" .
  ultimately show ?thesis
    by (auto simp: validateKVRead_def read_fresh_def version_at_def phu_get_def db_value_def mk_compositeKey_def Let_def)
qed

lemma validateKVReadHash_exact:
  assumes "versioned_db (db_VersionedDB (v_db v)) contents valid_ns stored_as" and "db_answers valid_ns (v_db v)" and "coll \<noteq> []"
  shows "validateKVReadHash v (hashUpdates u) ns coll r =
    Inr (read_fresh contents (v_db v) u (mk_compositeKey ns coll (rh_KeyHash r)) (rh_Version r))"
proof -
  obtain h where h: "db_GetVersion (v_db v) (deriveHashedDataNs ns coll) (keyHashStr (v_db v) (rh_KeyHash r)) = Inr h"
    using assms(2) unfolding db_answers_def by blast
  from versioned_db.GetVersion_contents [OF assms(1) this] h assms(3) show ?thesis
    by (auto simp: validateKVReadHash_def Hashed_Contains_def UpdateMap_Contains_iff GetKeyHashVersion_def read_fresh_def version_at_def
        phu_get_def db_value_def mk_compositeKey_def Let_def)
qed

definition tx_fresh ::
  "libs \<Rightarrow> hash_func \<Rightarrow> ('s \<Rightarrow> gostring \<Rightarrow> gostring \<Rightarrow> VersionedValue option) \<Rightarrow> ('s, 'b) DB \<Rightarrow> publicAndHashUpdates \<Rightarrow> TxRwSet \<Rightarrow> bool" where
  "tx_fresh l hashFunc contents db u rwset \<longleftrightarrow> (\<forall>n \<in> set (NsRwSets rwset).
     (\<forall>r \<in> set (Reads (KvRwSet n)). read_fresh contents db u (mk_compositeKey (NameSpace n) [] (r_Key r)) (r_Version r)) \<and>
     (\<forall>rqi \<in> set (RangeQueriesInfo (KvRwSet n)).
        range_current (lib_Marshal_QueryReads l) hashFunc (world contents db u) (NameSpace n) rqi) \<and>
     (\<forall>c \<in> set (CollHashedRwSets n). \<forall>r \<in> set (HashedReads (HashedRwSet c)).
        read_fresh contents db u (mk_compositeKey (NameSpace n) (ch_CollectionName c) (rh_KeyHash r)) (rh_Version r)))"

lemma validateTx_loop_VALID_iff:
  "validateTx_loop l v u ns = Inr TxValidationCode_VALID \<longleftrightarrow> (\<forall>n \<in> set ns.
     (\<forall>r \<in> set (Reads (KvRwSet n)). validateKVRead v (publicUpdates u) (NameSpace n) r = Inr True) \<and>
     (\<forall>rqi \<in> set (RangeQueriesInfo (KvRwSet n)). validateRangeQuery l v (publicUpdates u) (NameSpace n) rqi = Inr True) \<and>
     (\<forall>c \<in> set (CollHashedRwSets n). \<forall>r \<in> set (HashedReads (HashedRwSet c)).
        validateKVReadHash v (hashUpdates u) (NameSpace n) (ch_CollectionName c) r = Inr True))"
proof (induction ns)
  case (Cons n ns)
  have "validateTx_loop l v u (n # ns) = Inr TxValidationCode_VALID \<longleftrightarrow>
      validateReadSet v (publicUpdates u) (NameSpace n) (Reads (KvRwSet n)) = Inr True \<and>
      validateRangeQueries l v (publicUpdates u) (NameSpace n) (RangeQueriesInfo (KvRwSet n)) = Inr True \<and>
      validateNsHashedReadSets v (hashUpdates u) (NameSpace n) (CollHashedRwSets n) = Inr True \<and>
      validateTx_loop l v u ns = Inr TxValidationCode_VALID"
    by (auto simp: go_res code_defs Let_def split: if_splits)
  then show ?case
    by (simp add: Cons.IH validateReadSet_def validateRangeQueries_def validateNsHashedReadSets_def validateCollHashedReadSet_def
        checkAll_True_iff)
qed simp

lemma validateTx_codes:
  "validateTx l v rwset u = Inr c \<Longrightarrow>
     c \<in> {TxValidationCode_VALID, TxValidationCode_MVCC_READ_CONFLICT, TxValidationCode_PHANTOM_READ_CONFLICT}"
proof -
  have "validateTx_loop l v u ns = Inr c \<Longrightarrow>
      c \<in> {TxValidationCode_VALID, TxValidationCode_MVCC_READ_CONFLICT, TxValidationCode_PHANTOM_READ_CONFLICT}" for ns
    by (induction ns) (auto simp: go_res Let_def split: if_splits)
  then show "validateTx l v rwset u = Inr c \<Longrightarrow>
     c \<in> {TxValidationCode_VALID, TxValidationCode_MVCC_READ_CONFLICT, TxValidationCode_PHANTOM_READ_CONFLICT}"
    by (simp add: validateTx_def)
qed

lemma validateTx_sound:
  assumes "versioned_db (db_VersionedDB (v_db v)) contents valid_ns stored_as" and "db_answers valid_ns (v_db v)"
    and "wf_phu u" and "valid_rwset valid_ns rwset" and "validateTx l v rwset u = Inr TxValidationCode_VALID"
  shows "tx_fresh l (v_hashFunc v) contents (v_db v) u rwset"
  unfolding tx_fresh_def
proof
  fix n
  assume n: "n \<in> set (NsRwSets rwset)"
  have wf: "wf_batch (publicUpdates u)" using assms(3) by (simp add: wf_phu_def)
  from n assms(5) have v: "\<forall>r \<in> set (Reads (KvRwSet n)). validateKVRead v (publicUpdates u) (NameSpace n) r = Inr True"
    "\<forall>rqi \<in> set (RangeQueriesInfo (KvRwSet n)). validateRangeQuery l v (publicUpdates u) (NameSpace n) rqi = Inr True"
    "\<forall>c \<in> set (CollHashedRwSets n). \<forall>r \<in> set (HashedReads (HashedRwSet c)).
        validateKVReadHash v (hashUpdates u) (NameSpace n) (ch_CollectionName c) r = Inr True"
    by (auto simp: validateTx_def validateTx_loop_VALID_iff)
  from n assms(4) have ok: "valid_ns (NameSpace n)" "\<forall>rqi \<in> set (RangeQueriesInfo (KvRwSet n)). wf_query rqi"
    "\<forall>c \<in> set (CollHashedRwSets n). ch_CollectionName c \<noteq> []" by (auto simp: valid_rwset_def)
  show "(\<forall>r \<in> set (Reads (KvRwSet n)). read_fresh contents (v_db v) u (mk_compositeKey (NameSpace n) [] (r_Key r)) (r_Version r)) \<and>
     (\<forall>rqi \<in> set (RangeQueriesInfo (KvRwSet n)).
        range_current (lib_Marshal_QueryReads l) (v_hashFunc v) (world contents (v_db v) u) (NameSpace n) rqi) \<and>
     (\<forall>c \<in> set (CollHashedRwSets n). \<forall>r \<in> set (HashedReads (HashedRwSet c)).
        read_fresh contents (v_db v) u (mk_compositeKey (NameSpace n) (ch_CollectionName c) (rh_KeyHash r)) (rh_Version r))"
    using v ok validateKVRead_exact [OF assms(1,2)] validateKVReadHash_exact [OF assms(1,2)]
      validateRangeQuery_sound [OF assms(1) ok(1) wf assms(2)]
    by auto
qed

lemma validateTx_complete:
  assumes "versioned_db (db_VersionedDB (v_db v)) contents valid_ns stored_as" and "db_answers valid_ns (v_db v)"
    and "wf_phu u" and "valid_rwset valid_ns rwset" and "tx_fresh l (v_hashFunc v) contents (v_db v) u rwset"
    and "\<And>n rqi rs. n \<in> set (NsRwSets rwset) \<Longrightarrow> rqi \<in> set (RangeQueriesInfo (KvRwSet n)) \<Longrightarrow>
      range_now (world contents (v_db v) u) (NameSpace n) rqi rs \<Longrightarrow> length rs + 3 < 2 ^ 32"
  shows "validateTx l v rwset u = Inr TxValidationCode_VALID"
  unfolding validateTx_def validateTx_loop_VALID_iff
proof
  fix n
  assume n: "n \<in> set (NsRwSets rwset)"
  have wf: "wf_batch (publicUpdates u)" using assms(3) by (simp add: wf_phu_def)
  from n assms(4) have ok: "valid_ns (NameSpace n)" "\<forall>rqi \<in> set (RangeQueriesInfo (KvRwSet n)). wf_query rqi"
    "\<forall>c \<in> set (CollHashedRwSets n). ch_CollectionName c \<noteq> []" by (auto simp: valid_rwset_def)
  show "(\<forall>r \<in> set (Reads (KvRwSet n)). validateKVRead v (publicUpdates u) (NameSpace n) r = Inr True) \<and>
     (\<forall>rqi \<in> set (RangeQueriesInfo (KvRwSet n)). validateRangeQuery l v (publicUpdates u) (NameSpace n) rqi = Inr True) \<and>
     (\<forall>c \<in> set (CollHashedRwSets n). \<forall>r \<in> set (HashedReads (HashedRwSet c)).
        validateKVReadHash v (hashUpdates u) (NameSpace n) (ch_CollectionName c) r = Inr True)"
    using n assms(5,6) ok validateKVRead_exact [OF assms(1,2)] validateKVReadHash_exact [OF assms(1,2)]
      validateRangeQuery_complete [OF assms(1) ok(1) wf assms(2)]
    unfolding tx_fresh_def by auto
qed

text \<open>
  C2: A transaction passes validation exactly when everything it read is up to date: each public or
  hashed key it read was not updated by an earlier transaction of the block and has the version that
  was read, and each range query has, in the database with the block's updates on top, exactly the
  recorded result, as raw reads or as a merkle summary. Every other transaction that is validated
  without an error gets the code of a read conflict or of a phantom read.
\<close>

theorem transaction_valid_iff_fresh:
  assumes "versioned_db (db_VersionedDB (v_db v)) contents valid_ns stored_as" and "db_answers valid_ns (v_db v)"
    and "wf_phu u" and "valid_rwset valid_ns rwset"
    and "\<And>n rqi rs. n \<in> set (NsRwSets rwset) \<Longrightarrow> rqi \<in> set (RangeQueriesInfo (KvRwSet n)) \<Longrightarrow>
      range_now (world contents (v_db v) u) (NameSpace n) rqi rs \<Longrightarrow> length rs + 3 < 2 ^ 32"
  shows "(validateTx l v rwset u = Inr TxValidationCode_VALID \<longleftrightarrow> tx_fresh l (v_hashFunc v) contents (v_db v) u rwset) \<and>
    (\<forall>c. validateTx l v rwset u = Inr c \<longrightarrow> c \<noteq> TxValidationCode_VALID \<longrightarrow>
       c = TxValidationCode_MVCC_READ_CONFLICT \<or> c = TxValidationCode_PHANTOM_READ_CONFLICT)"
proof -
  have "validateTx l v rwset u = Inr TxValidationCode_VALID" if "tx_fresh l (v_hashFunc v) contents (v_db v) u rwset"
    by (rule validateTx_complete [OF assms(1-4) that]) (rule assms(5))
  with validateTx_sound [OF assms(1-4)] validateTx_codes [of l v rwset u] show ?thesis by blast
qed

section \<open>A block as a serial execution\<close>

text \<open>The effect of a transaction, and of the valid transactions of a list one after another.\<close>

definition tx_effect ::
  "libs \<Rightarrow> (transaction \<Rightarrow> Height) \<Rightarrow> transaction \<Rightarrow> (compositeKey \<Rightarrow> VersionedValue option) \<Rightarrow> compositeKey \<Rightarrow> VersionedValue option" where
  "tx_effect l ht tx W ck =
     write_effect (write_of (tx_steps (lib_ComputeHash l) (tx_rwset tx)) ck)
       (map_option (metadata_bytes (lib_Marshal_KVMetadataWrite l)) (metadata_of (tx_steps (lib_ComputeHash l) (tx_rwset tx)) ck))
       (Some (ht tx)) (W ck)"

definition serial ::
  "libs \<Rightarrow> (transaction \<Rightarrow> Height) \<Rightarrow> transaction list \<Rightarrow> (compositeKey \<Rightarrow> VersionedValue option) \<Rightarrow> compositeKey \<Rightarrow> VersionedValue option" where
  "serial l ht txs W = fold (\<lambda>tx W. if tx_validationCode tx = TxValidationCode_VALID then tx_effect l ht tx W else W) txs W"

lemma serial_snoc:
  "serial l ht (txs @ [tx]) W =
     (if tx_validationCode tx = TxValidationCode_VALID then tx_effect l ht tx (serial l ht txs W) else serial l ht txs W)"
  by (simp add: serial_def)

text \<open>Everything a transaction read is as it is in the state \<open>W\<close>.\<close>

definition reads_current ::
  "libs \<Rightarrow> hash_func \<Rightarrow> (compositeKey \<Rightarrow> VersionedValue option) \<Rightarrow> TxRwSet \<Rightarrow> bool" where
  "reads_current l hashFunc W rwset \<longleftrightarrow> (\<forall>n \<in> set (NsRwSets rwset).
     (\<forall>r \<in> set (Reads (KvRwSet n)). version_at W (mk_compositeKey (NameSpace n) [] (r_Key r)) = NewVersion (r_Version r)) \<and>
     (\<forall>rqi \<in> set (RangeQueriesInfo (KvRwSet n)). range_current (lib_Marshal_QueryReads l) hashFunc W (NameSpace n) rqi) \<and>
     (\<forall>c \<in> set (CollHashedRwSets n). \<forall>r \<in> set (HashedReads (HashedRwSet c)).
        version_at W (mk_compositeKey (NameSpace n) (ch_CollectionName c) (rh_KeyHash r)) = NewVersion (rh_Version r)))"

lemma read_fresh_current: "read_fresh contents db u ck ver \<Longrightarrow> version_at (world contents db u) ck = NewVersion ver"
  by (simp add: read_fresh_def version_at_def world_def)

lemma tx_fresh_current: "tx_fresh l hf contents db u rwset \<Longrightarrow> reads_current l hf (world contents db u) rwset"
  by (auto simp: tx_fresh_def reads_current_def intro: read_fresh_current)

lemma range_current_cong:
  assumes "\<And>key. W (mk_compositeKey ns [] key) = W' (mk_compositeKey ns [] key)"
  shows "range_current ser hf W ns rqi = range_current ser hf W' ns rqi"
  by (simp add: range_current_def range_now_def assms)

lemma reads_current_cong:
  assumes "valid_rwset valid_ns rwset" and "\<And>ck. valid_ck valid_ns ck \<Longrightarrow> W ck = W' ck"
  shows "reads_current l hf W rwset = reads_current l hf W' rwset"
proof -
  have pub: "W (mk_compositeKey (NameSpace n) [] key) = W' (mk_compositeKey (NameSpace n) [] key)" if "n \<in> set (NsRwSets rwset)" for n key
    using that assms by (intro assms(2)) (auto simp: valid_rwset_def valid_ck_def mk_compositeKey_def)
  have coll: "W (mk_compositeKey (NameSpace n) (ch_CollectionName c) key) = W' (mk_compositeKey (NameSpace n) (ch_CollectionName c) key)"
    if "n \<in> set (NsRwSets rwset)" "c \<in> set (CollHashedRwSets n)" for n c key
    using that assms(1) by (intro assms(2)) (auto simp: valid_rwset_def valid_ck_def mk_compositeKey_def)
  have rng: "range_current (lib_Marshal_QueryReads l) hf W (NameSpace n) rqi = range_current (lib_Marshal_QueryReads l) hf W' (NameSpace n) rqi"
    if "n \<in> set (NsRwSets rwset)" for n rqi
    by (rule range_current_cong) (rule pub [OF that])
  show ?thesis
    unfolding reads_current_def version_at_def by (rule ball_cong [OF refl]) (simp add: pub coll rng)
qed

definition tx_height :: "block \<Rightarrow> transaction \<Rightarrow> Height" where
  "tx_height blk tx =
     projr (committingTxHeight (sparseblockchainFilter blk) (sparseFilterExists blk) (blk_num blk) (tx_indexInBlock tx))"

lemma tx_height_code [simp]: "tx_height blk (tx\<lparr>tx_validationCode := c\<rparr>) = tx_height blk tx"
  by (simp add: tx_height_def)

lemma tx_effect_code [simp]: "tx_effect l (tx_height blk) (tx\<lparr>tx_validationCode := c\<rparr>) = tx_effect l (tx_height blk) tx"
  by (simp add: tx_effect_def fun_eq_iff)

text \<open>The invariant of the loop over the transactions.\<close>

definition batch_inv ::
  "libs \<Rightarrow> ('s, 'b) validator \<Rightarrow> block \<Rightarrow> bool \<Rightarrow> ('s \<Rightarrow> gostring \<Rightarrow> gostring \<Rightarrow> VersionedValue option) \<Rightarrow> (gostring \<Rightarrow> bool) \<Rightarrow>
   batch_state \<Rightarrow> bool" where
  "batch_inv l v blk mvcc contents valid_ns = (\<lambda>(u, p, txs). wf_phu u \<and>
     (\<forall>ck. valid_ck valid_ns ck \<longrightarrow> world contents (v_db v) u ck = serial l (tx_height blk) txs (db_value contents (v_db v)) ck) \<and>
     (\<forall>i < length txs. mvcc \<longrightarrow> tx_validationCode (txs ! i) = TxValidationCode_VALID \<longrightarrow>
        reads_current l (v_hashFunc v) (serial l (tx_height blk) (take i txs) (db_value contents (v_db v))) (tx_rwset (txs ! i))))"

lemma batch_inv_start: "batch_inv l v blk mvcc contents valid_ns (newPubAndHashUpdates, [], [])"
proof -
  have "phu_get newPubAndHashUpdates ck = None" for ck
    by (simp add: newPubAndHashUpdates_def phu_get_def UpdateMap_Get_def)
  then show ?thesis by (simp add: batch_inv_def serial_def world_def)
qed

lemma validateAndApplyTx_cases:
  assumes "validateAndApplyTx l v blk mvcc tx (u, p, txs) = Inr st'"
  obtains (invalid) c where "(if tx_validationCode tx = TxValidationCode_VALID
      then validateEndorserTX l v (tx_rwset tx) mvcc u else Inr (tx_validationCode tx)) = Inr c"
    "c \<noteq> TxValidationCode_VALID" "st' = (u, p, txs @ [tx\<lparr>tx_validationCode := c\<rparr>])"
  | (valid) height u' where "tx_validationCode tx = TxValidationCode_VALID"
    "validateEndorserTX l v (tx_rwset tx) mvcc u = Inr TxValidationCode_VALID"
    "committingTxHeight (sparseblockchainFilter blk) (sparseFilterExists blk) (blk_num blk) (tx_indexInBlock tx) = Inr height"
    "applyWriteSet (lib_Marshal_KVMetadataWrite l) (lib_ComputeHash l) (tx_rwset tx) (Some height) (v_db v)
       (tx_containsPostOrderWrites tx) u = Inr u'"
    "st' = (u', purgeTracker_update (tx_rwset tx) height p, txs @ [tx\<lparr>tx_validationCode := TxValidationCode_VALID\<rparr>])"
proof -
  obtain c where c: "(if tx_validationCode tx = TxValidationCode_VALID
      then validateEndorserTX l v (tx_rwset tx) mvcc u else Inr (tx_validationCode tx)) = Inr c"
    using assms unfolding validateAndApplyTx_def bindE_Inr_iff prod.case by blast
  show thesis
  proof (cases "c = TxValidationCode_VALID")
    case False
    with assms c invalid show thesis by (simp add: validateAndApplyTx_def Let_def)
  next
    case True
    with c have v: "tx_validationCode tx = TxValidationCode_VALID"
      "validateEndorserTX l v (tx_rwset tx) mvcc u = Inr TxValidationCode_VALID" by (simp_all split: if_splits)
    with assms have "bindE (committingTxHeight (sparseblockchainFilter blk) (sparseFilterExists blk) (blk_num blk) (tx_indexInBlock tx)) (\<lambda>height.
       bindE (applyWriteSet (lib_Marshal_KVMetadataWrite l) (lib_ComputeHash l) (tx_rwset tx) (Some height) (v_db v)
           (tx_containsPostOrderWrites tx) u) (\<lambda>updates'.
         Inr (updates', purgeTracker_update (tx_rwset tx) height p, txs @ [tx\<lparr>tx_validationCode := TxValidationCode_VALID\<rparr>]))) = Inr st'"
      by (simp add: validateAndApplyTx_def Let_def)
    then show thesis using valid [OF v] unfolding bindE_Inr_iff by blast
  qed
qed

lemma batch_inv_snoc:
  assumes "\<And>i. i < length txs \<Longrightarrow> mvcc \<Longrightarrow> tx_validationCode (txs ! i) = TxValidationCode_VALID \<Longrightarrow>
      reads_current l (v_hashFunc v) (serial l ht (take i txs) W) (tx_rwset (txs ! i))"
    and "mvcc \<Longrightarrow> tx_validationCode tx = TxValidationCode_VALID \<Longrightarrow>
      reads_current l (v_hashFunc v) (serial l ht txs W) (tx_rwset tx)"
  shows "\<forall>i < length (txs @ [tx]). mvcc \<longrightarrow> tx_validationCode ((txs @ [tx]) ! i) = TxValidationCode_VALID \<longrightarrow>
      reads_current l (v_hashFunc v) (serial l ht (take i (txs @ [tx])) W) (tx_rwset ((txs @ [tx]) ! i))"
proof (intro allI impI)
  fix i
  assume i: "i < length (txs @ [tx])" "mvcc" "tx_validationCode ((txs @ [tx]) ! i) = TxValidationCode_VALID"
  show "reads_current l (v_hashFunc v) (serial l ht (take i (txs @ [tx])) W) (tx_rwset ((txs @ [tx]) ! i))"
  proof (cases "i < length txs")
    case True
    with assms(1) [of i] i show ?thesis by (simp add: nth_append)
  next
    case False
    with i have "i = length txs" by simp
    with assms(2) i show ?thesis by simp
  qed
qed

lemma batch_inv_step:
  assumes "versioned_db (db_VersionedDB (v_db v)) contents valid_ns stored_as" and "hint_ok contents valid_ns bcontents (v_db v)"
    and "db_answers valid_ns (v_db v)" and "wf_steps (tx_steps (lib_ComputeHash l) (tx_rwset tx))" and "valid_rwset valid_ns (tx_rwset tx)"
    and "batch_inv l v blk mvcc contents valid_ns st" and "validateAndApplyTx l v blk mvcc tx st = Inr st'"
  shows "batch_inv l v blk mvcc contents valid_ns st'"
proof -
  obtain u p txs where st: "st = (u, p, txs)" by (cases st)
  let ?ht = "tx_height blk" and ?W = "db_value contents (v_db v)"
  from assms(6) st have inv: "wf_phu u" "\<And>ck. valid_ck valid_ns ck \<Longrightarrow> world contents (v_db v) u ck = serial l ?ht txs ?W ck"
    "\<And>i. i < length txs \<Longrightarrow> mvcc \<Longrightarrow> tx_validationCode (txs ! i) = TxValidationCode_VALID \<Longrightarrow>
        reads_current l (v_hashFunc v) (serial l ?ht (take i txs) ?W) (tx_rwset (txs ! i))"
    by (auto simp: batch_inv_def)
  from assms(7) [unfolded st] show ?thesis
  proof (cases rule: validateAndApplyTx_cases)
    case (invalid c)
    let ?tx = "tx\<lparr>tx_validationCode := c\<rparr>"
    have "\<forall>i < length (txs @ [?tx]). mvcc \<longrightarrow> tx_validationCode ((txs @ [?tx]) ! i) = TxValidationCode_VALID \<longrightarrow>
        reads_current l (v_hashFunc v) (serial l ?ht (take i (txs @ [?tx])) ?W) (tx_rwset ((txs @ [?tx]) ! i))"
      using invalid(2) by (intro batch_inv_snoc inv(3)) simp_all
    moreover have "serial l ?ht (txs @ [?tx]) ?W = serial l ?ht txs ?W" using invalid(2) by (simp add: serial_snoc)
    ultimately show ?thesis using inv(1,2) unfolding invalid(3) batch_inv_def prod.case by simp
  next
    case (valid height u')
    let ?tx = "tx\<lparr>tx_validationCode := TxValidationCode_VALID\<rparr>"
    have ht: "height = ?ht tx" using valid(3) by (simp add: tx_height_def)
    note w = applyWriteSet_world [OF assms(1,2,4) inv(1) valid(4)]
    have "serial l ?ht (txs @ [?tx]) ?W = tx_effect l ?ht tx (serial l ?ht txs ?W)" by (simp add: serial_snoc)
    then have eff: "world contents (v_db v) u' ck = serial l ?ht (txs @ [?tx]) ?W ck" if "valid_ck valid_ns ck" for ck
      using w(2) [OF that] inv(2) [OF that] ht by (simp add: tx_effect_def)
    have "reads_current l (v_hashFunc v) (serial l ?ht txs ?W) (tx_rwset ?tx)" if mvcc
    proof -
      from that valid(2) have "validateTx l v (tx_rwset tx) u = Inr TxValidationCode_VALID"
        by (simp add: validateEndorserTX_def)
      from tx_fresh_current [OF validateTx_sound [OF assms(1,3) inv(1) assms(5) this]]
      show ?thesis
        using reads_current_cong [OF assms(5), of "world contents (v_db v) u" "serial l ?ht txs ?W"] inv(2) by simp
    qed
    then have "\<forall>i < length (txs @ [?tx]). mvcc \<longrightarrow> tx_validationCode ((txs @ [?tx]) ! i) = TxValidationCode_VALID \<longrightarrow>
        reads_current l (v_hashFunc v) (serial l ?ht (take i (txs @ [?tx])) ?W) (tx_rwset ((txs @ [?tx]) ! i))"
      by (intro batch_inv_snoc inv(3)) simp_all
    then show ?thesis using w(1) eff unfolding valid(5) batch_inv_def prod.case by simp
  qed
qed

lemma batch_shape:
  assumes "foldE (validateAndApplyTx l v blk mvcc) txs (u, p, d) = Inr (u', p', d')"
  shows "\<exists>d''. d' = d @ d'' \<and> list_all2 (\<lambda>tx tx'. \<exists>c. tx' = tx\<lparr>tx_validationCode := c\<rparr> \<and>
    (tx_validationCode tx \<noteq> TxValidationCode_VALID \<longrightarrow> c = tx_validationCode tx)) txs d''"
  using assms
proof (induction txs arbitrary: u p d)
  case (Cons tx txs)
  then obtain st where st: "validateAndApplyTx l v blk mvcc tx (u, p, d) = Inr st"
    and r: "foldE (validateAndApplyTx l v blk mvcc) txs st = Inr (u', p', d')" by (auto simp: go_res)
  from st obtain u1 p1 c where s1: "st = (u1, p1, d @ [tx\<lparr>tx_validationCode := c\<rparr>])"
    and c: "tx_validationCode tx \<noteq> TxValidationCode_VALID \<longrightarrow> c = tx_validationCode tx"
    by (cases rule: validateAndApplyTx_cases) (auto split: if_splits)
  from Cons.IH [OF r [unfolded s1]] c show ?case by force
qed simp

lemma preload_same:
  assumes "(if IsBulkOptimizable (v_db v) then preLoadCommittedVersionOfRSet blk v else Inr v) = Inr v'"
    and "versioned_db (db_VersionedDB (v_db v)) contents valid_ns stored_as"
  shows "db_VersionedDB (v_db v') = db_VersionedDB (v_db v)" "db_metadataHint (v_db v') = db_metadataHint (v_db v)"
    "contents (db_state (v_db v')) = contents (db_state (v_db v))" "v_hashFunc v' = v_hashFunc v"
  using assms(1) versioned_db.LoadCommittedVersions_contents [OF assms(2)]
  by (auto simp: preLoadCommittedVersionOfRSet_def LoadCommittedVersionsOfPubAndHashedKeys_def Let_def go_res
      split: if_splits option.splits)

lemma same_db_value:
  assumes "db_VersionedDB db' = db_VersionedDB db" "contents (db_state db') = contents (db_state db)"
  shows "db_value contents db' = db_value contents db" "world contents db' = world contents db"
  using assms by (simp_all add: db_value_def world_def keyHashStr_def fun_eq_iff)

lemma block_serial:
  assumes "versioned_db (db_VersionedDB (v_db v)) contents valid_ns stored_as" and "hint_ok contents valid_ns bcontents (v_db v)"
    and "\<And>tx. tx \<in> set (blk_txs blk) \<Longrightarrow> wf_steps (tx_steps (lib_ComputeHash l) (tx_rwset tx)) \<and> valid_rwset valid_ns (tx_rwset tx)"
    and "validateAndPrepareBatch l blk mvcc v = Inr (u, purges, blk', v')" and "db_answers valid_ns (v_db v')"
  shows "wf_phu u \<and> list_all2 (\<lambda>tx tx'. \<exists>c. tx' = tx\<lparr>tx_validationCode := c\<rparr> \<and>
      (tx_validationCode tx \<noteq> TxValidationCode_VALID \<longrightarrow> c = tx_validationCode tx)) (blk_txs blk) (blk_txs blk') \<and>
    (\<forall>ck. valid_ck valid_ns ck \<longrightarrow>
       world contents (v_db v) u ck = serial l (tx_height blk) (blk_txs blk') (db_value contents (v_db v)) ck) \<and>
    (\<forall>i < length (blk_txs blk'). mvcc \<longrightarrow> tx_validationCode (blk_txs blk' ! i) = TxValidationCode_VALID \<longrightarrow>
       reads_current l (v_hashFunc v) (serial l (tx_height blk) (take i (blk_txs blk')) (db_value contents (v_db v)))
         (tx_rwset (blk_txs blk' ! i)))"
proof -
  obtain v1 p txs where pre: "(if IsBulkOptimizable (v_db v) then preLoadCommittedVersionOfRSet blk v else Inr v) = Inr v1"
    and f: "foldE (validateAndApplyTx l v1 blk mvcc) (blk_txs blk) (newPubAndHashUpdates, [], []) = Inr (u, p, txs)"
    and r: "blk' = blk\<lparr>blk_txs := txs\<rparr>" "v' = v1"
    using assms(4) by (auto simp: validateAndPrepareBatch_def go_res)
  note same = preload_same [OF pre assms(1)]
  have vdb: "versioned_db (db_VersionedDB (v_db v1)) contents valid_ns stored_as" using assms(1) same(1) by simp
  have hint: "hint_ok contents valid_ns bcontents (v_db v1)" using assms(2) unfolding hint_ok_def same .
  have "batch_inv l v1 blk mvcc contents valid_ns (u, p, txs)"
    using f batch_inv_start
  proof (rule foldE_invariant)
    fix tx st st'
    assume "tx \<in> set (blk_txs blk)" "batch_inv l v1 blk mvcc contents valid_ns st" "validateAndApplyTx l v1 blk mvcc tx st = Inr st'"
    with batch_inv_step [OF vdb hint assms(5) [unfolded r] _ _ this(2,3)] assms(3)
    show "batch_inv l v1 blk mvcc contents valid_ns st'" by blast
  qed
  moreover from batch_shape [OF f] have "list_all2 (\<lambda>tx tx'. \<exists>c. tx' = tx\<lparr>tx_validationCode := c\<rparr> \<and>
      (tx_validationCode tx \<noteq> TxValidationCode_VALID \<longrightarrow> c = tx_validationCode tx)) (blk_txs blk) txs" by simp
  ultimately show ?thesis
    unfolding batch_inv_def prod.case r(1) same(4) same_db_value [where contents = contents, OF same(1,3)] by simp
qed

section \<open>The namespaces of the updates\<close>

definition phu_names :: "(gostring \<Rightarrow> bool) \<Rightarrow> publicAndHashUpdates \<Rightarrow> bool" where
  "phu_names valid_ns u \<longleftrightarrow> batch_namespaces (\<lambda>ns. no_dollar ns \<and> valid_ns ns) (publicUpdates u) \<and>
     (\<forall>ns coll key vv. UpdateMap_Get (hashUpdates u) ns coll key = Some vv \<longrightarrow> no_dollar ns \<and> valid_ns (deriveHashedDataNs ns coll))"

lemma phu_names_new [simp]: "phu_names valid_ns newPubAndHashUpdates"
  by (simp add: phu_names_def newPubAndHashUpdates_def UpdateMap_Get_def)

lemma phu_names_upd: "phu_names valid_ns u \<Longrightarrow> valid_ck valid_ns ck \<Longrightarrow> phu_names valid_ns (phu_upd ck vv u)"
  by (auto simp: phu_names_def phu_upd_def valid_ck_def split: if_splits)

lemma tx_steps_valid:
  assumes "valid_rwset valid_ns rwset" and "s \<in> set (tx_steps H rwset)"
  shows "valid_ck valid_ns (step_key s)"
  using assms
  by (auto simp: valid_rwset_def tx_steps_def ns_steps_def coll_steps_def valid_ck_def mk_compositeKey_def)

lemma applyWriteSet_names:
  assumes "wf_steps (tx_steps H rwset)" and "valid_rwset valid_ns rwset" and "phu_names valid_ns u"
    and "applyWriteSet marshal H rwset h db post u = Inr u'"
  shows "phu_names valid_ns u'"
proof -
  let ?u = "u\<lparr>publicUpdates := (publicUpdates u)\<lparr>ContainsPostOrderWrites := ContainsPostOrderWrites (publicUpdates u) \<or> post\<rparr>\<rparr>"
  obtain txops where p: "prepareTxOps marshal H rwset ?u db = Inr txops" and "foldE (applyKeyOps h) txops ?u = Inr u'"
    using assms(4) by (auto simp: applyWriteSet_def Let_def go_res)
  then have u': "u' = fold (\<lambda>(ck, e). phu_upd ck (entry_value h e)) txops ?u"
    by (auto simp: applyKeyOps_all split: if_splits)
  have "valid_ck valid_ns ck" if "(ck, e) \<in> set txops" for ck e
  proof -
    have "map_of txops ck \<noteq> None" using weak_map_of_SomeI [OF that] by auto
    with prepareTxOps_entry [OF p assms(1) refl refl, of ck]
    have "\<not> (write_of (tx_steps H rwset) ck = None \<and> metadata_of (tx_steps H rwset) ck = None)" by fastforce
    then obtain s where "s \<in> set (tx_steps H rwset)" "step_key s = ck" unfolding write_of_None metadata_of_None by blast
    with tx_steps_valid [OF assms(2)] show ?thesis by blast
  qed
  moreover have "phu_names valid_ns ?u" using assms(3) by (simp add: phu_names_def batch_namespaces_def)
  ultimately show ?thesis
    unfolding u' using fold_batch_upd_invariant [where P = "phu_names valid_ns" and upd = "\<lambda>ck e. phu_upd ck (entry_value h e)"
        and kvs = txops and b = ?u] phu_names_upd by blast
qed

lemma batch_names:
  assumes "\<And>tx. tx \<in> set (blk_txs blk) \<Longrightarrow> wf_steps (tx_steps (lib_ComputeHash l) (tx_rwset tx)) \<and> valid_rwset valid_ns (tx_rwset tx)"
    and "validateAndPrepareBatch l blk mvcc v = Inr (u, purges, blk', v')"
  shows "phu_names valid_ns u"
proof -
  obtain p txs where f: "foldE (validateAndApplyTx l v' blk mvcc) (blk_txs blk) (newPubAndHashUpdates, [], []) = Inr (u, p, txs)"
    using assms(2) by (auto simp: validateAndPrepareBatch_def go_res)
  have start: "phu_names valid_ns (fst (newPubAndHashUpdates, [] :: pvtdataPurgeTracker, [] :: transaction list))" by simp
  have "phu_names valid_ns (fst (u, p, txs))"
    using f start
  proof (rule foldE_invariant [where P = "\<lambda>st. phu_names valid_ns (fst st)"])
    fix tx st st'
    assume tx: "tx \<in> set (blk_txs blk)" and st: "phu_names valid_ns (fst st)" and step: "validateAndApplyTx l v' blk mvcc tx st = Inr st'"
    obtain u1 p1 txs1 where st1: "st = (u1, p1, txs1)" by (cases st)
    from step [unfolded st1] show "phu_names valid_ns (fst st')"
    proof (cases rule: validateAndApplyTx_cases)
      case (invalid c)
      then show ?thesis using st st1 by simp
    next
      case (valid height u')
      from assms(1) [OF tx] applyWriteSet_names [OF _ _ _ valid(4)] st st1 valid(5) show ?thesis by simp
    qed
  qed
  then show ?thesis by simp
qed

text \<open>
  C1: Validating a block is a serial execution of its valid transactions. The updates, read on top
  of the database, are what the transactions marked valid do to the database's state when they are
  executed one after another in block order, each at its height; and with MVCC validation every
  transaction that ends up valid had read, at its turn, exactly the versions and range results of
  the state the transactions before it left. Validation changes nothing in a transaction but its
  code, and never the code of one that came in invalid.
\<close>

theorem block_is_serial_execution:
  assumes "versioned_db (db_VersionedDB (v_db v)) contents valid_ns stored_as" and "hint_ok contents valid_ns bcontents (v_db v)"
    and "\<And>tx. tx \<in> set (blk_txs blk) \<Longrightarrow> wf_steps (tx_steps (lib_ComputeHash l) (tx_rwset tx)) \<and> valid_rwset valid_ns (tx_rwset tx)"
    and "validateAndPrepareBatch l blk doMVCCValidation v = Inr (updates, purges, blk', v')" and "db_answers valid_ns (v_db v')"
  shows "list_all2 (\<lambda>tx tx'. \<exists>c. tx' = tx\<lparr>tx_validationCode := c\<rparr> \<and>
      (tx_validationCode tx \<noteq> TxValidationCode_VALID \<longrightarrow> c = tx_validationCode tx)) (blk_txs blk) (blk_txs blk') \<and>
    (\<forall>ck. valid_ck valid_ns ck \<longrightarrow>
       world contents (v_db v) updates ck = serial l (tx_height blk) (blk_txs blk') (db_value contents (v_db v)) ck) \<and>
    (\<forall>i < length (blk_txs blk'). doMVCCValidation \<longrightarrow> tx_validationCode (blk_txs blk' ! i) = TxValidationCode_VALID \<longrightarrow>
       reads_current l (v_hashFunc v) (serial l (tx_height blk) (take i (blk_txs blk')) (db_value contents (v_db v)))
         (tx_rwset (blk_txs blk' ! i)))"
  using block_serial [OF assms] by blast

section \<open>Witnesses\<close>

definition sample_libs :: libs where
  "sample_libs = \<lparr>lib_Marshal_KVMetadataWrite = sample_marshal, lib_Marshal_QueryReads = sample_ser, lib_ComputeHash = (\<lambda>b. b)\<rparr>"

definition sample_validator :: "((bytes, bytes) gomap, (bytes, bytes) gomap) validator" where
  "sample_validator = \<lparr>v_db = sample_db', v_hashFunc = sample_hash\<rparr>"

text \<open>Two transactions of one block read and write the same key.\<close>

definition update_tx :: TxRwSet where
  "update_tx = \<lparr>NsRwSets = [\<lparr>NameSpace = ''ns1'', KvRwSet = \<lparr>
     Reads = [\<lparr>r_Key = ''a'', r_Version = Some \<lparr>pv_BlockNum = 7, pv_TxNum = 1\<rparr>\<rparr>], RangeQueriesInfo = [],
     Writes = [\<lparr>w_Key = ''a'', w_IsDelete = False, w_Value = Some ''2''\<rparr>], MetadataWrites = []\<rparr>, CollHashedRwSets = []\<rparr>]\<rparr>"

definition sample_tx :: "nat \<Rightarrow> TxValidationCode \<Rightarrow> transaction" where
  "sample_tx i c = \<lparr>tx_indexInBlock = i, tx_id = ''t'', tx_rwset = update_tx, tx_validationCode = c, tx_containsPostOrderWrites = False\<rparr>"

definition sample_block :: "TxValidationCode list \<Rightarrow> block" where
  "sample_block cs = \<lparr>blk_num = 8, blk_txs = [sample_tx 0 (cs ! 0), sample_tx 1 (cs ! 1)],
     sparseblockchainFilter = \<lparr>FatBlockNumber = 0, TxnInfoList = []\<rparr>, sparseFilterExists = False\<rparr>"

definition sample_result :: publicAndHashUpdates where
  "sample_result = phu_upd ck_a \<lparr>vv_Value = Some ''2'', vv_Metadata = Some ''m'', vv_Version = Some (NewHeight 8 0)\<rparr> newPubAndHashUpdates"

lemma update_tx_steps: "tx_steps H update_tx = tx_steps H value_tx"
  by (simp add: tx_steps_def ns_steps_def update_tx_def value_tx_def)

lemma sample_version: "db_GetVersion sample_db' ''ns1'' ''a'' = Inr (Some (NewHeight 7 1))"
  using sample_reads_after(1)
  by (simp add: sample_db'_def leveldb_VersionedDB_def GetVersion_def) (simp add: sample_md_def)

lemma sample_update_applied:
  "applyWriteSet sample_marshal (\<lambda>b. b) update_tx (Some (NewHeight 8 0)) sample_db' False newPubAndHashUpdates = Inr sample_result"
  using sample_applied unfolding applyWriteSet_def prepareTxOps_def applyTxRwset_steps update_tx_steps sample_result_def .

lemma sample_height:
  "committingTxHeight \<lparr>FatBlockNumber = 0, TxnInfoList = []\<rparr> False 8 i = Inr (NewHeight 8 (of_nat i))"
  by (simp add: committingTxHeight_def indexInFatBlock_def committingBlockNumber_def useSparseFilter_def)

lemma sample_first:
  "validateAndApplyTx sample_libs sample_validator (sample_block [0, 0]) True (sample_tx 0 0) (newPubAndHashUpdates, [], []) =
     Inr (sample_result, [], [sample_tx 0 0])"
proof -
  have "validateTx sample_libs sample_validator update_tx newPubAndHashUpdates = Inr 0"
    by (simp add: validateTx_def update_tx_def validateReadSet_def validateKVRead_def newPubAndHashUpdates_def sample_validator_def
        sample_version NewVersion_def validateRangeQueries_def validateNsHashedReadSets_def code_defs Let_def)
  moreover have "purgeTracker_update update_tx h [] = []" for h by (simp add: purgeTracker_update_def update_tx_def)
  ultimately show ?thesis
    using sample_update_applied
    by (simp add: validateAndApplyTx_def sample_tx_def code_defs validateEndorserTX_def sample_block_def sample_height
        sample_libs_def sample_validator_def)
qed

lemma sample_second:
  "validateAndApplyTx sample_libs sample_validator (sample_block [0, 0]) True (sample_tx (Suc 0) 0) (sample_result, [], [sample_tx 0 0]) =
     Inr (sample_result, [], [sample_tx 0 0, sample_tx (Suc 0) 11])"
proof -
  have "UpdateBatch_Get (publicUpdates sample_result) ''ns1'' ''a'' \<noteq> None"
    by (simp add: sample_result_def phu_upd_def mk_compositeKey_def)
  then have "validateTx sample_libs sample_validator update_tx sample_result = Inr 11"
    by (simp add: validateTx_def update_tx_def validateReadSet_def validateKVRead_def code_defs Let_def)
  then show ?thesis
    by (simp add: validateAndApplyTx_def sample_tx_def code_defs validateEndorserTX_def)
qed

lemma sample_validated:
  "validateAndPrepareBatch sample_libs (sample_block [0, 0]) True sample_validator =
     Inr (sample_result, [], sample_block [0, 11], sample_validator)"
proof -
  have "\<not> IsBulkOptimizable (v_db sample_validator)"
    by (simp add: IsBulkOptimizable_def sample_validator_def sample_db'_def leveldb_VersionedDB_def)
  moreover have "blk_txs (sample_block [0, 0]) = [sample_tx 0 0, sample_tx (Suc 0) 0]"
    "(sample_block [0, 0])\<lparr>blk_txs := [sample_tx 0 0, sample_tx (Suc 0) 11]\<rparr> = sample_block [0, 11]" by (simp_all add: sample_block_def)
  ultimately show ?thesis
    by (simp add: validateAndPrepareBatch_def sample_first sample_second purgeTracker_getUpdates_def)
qed

lemma sample_answers: "db_answers no_NUL sample_db'"
  unfolding db_answers_def
proof (intro conjI allI impI)
  fix ns key a b
  show s: "\<exists>v. db_GetState sample_db' ns key = Inr v" by (rule sample_all_reads)
  then show "\<exists>h. db_GetVersion sample_db' ns key = Inr h"
    by (auto simp: sample_db'_def leveldb_VersionedDB_def GetVersion_def split: option.splits)
next
  fix ns a b :: gostring
  assume ns: "no_NUL ns"
  show "\<exists>kvs. vdb_GetStateRangeScanIterator (db_VersionedDB sample_db') (db_state sample_db') ns a b = Inr (map Inr kvs)"
  proof -
    have "\<exists>sc. GetStateRangeScanIterator mem_ops ''ch'' ns a b (db_state sample_db') = Inr sc"
      by (simp add: GetStateRangeScanIterator_def GetStateRangeScanIteratorWithPagination_def DBHandle_GetIterator_def mem_ops_def Let_def)
    then obtain sc where sc: "GetStateRangeScanIterator mem_ops ''ch'' ns a b (db_state sample_db') = Inr sc" by blast
    have "\<exists>v. GetState sample_md_codec mem_ops ''ch'' ns key (db_state sample_db') = Inr v" for key
      using sample_all_reads [of ns key] by (simp add: sample_db'_def leveldb_VersionedDB_def)
    from mdb.scan_answers [OF sc ns this] sc show ?thesis by (simp add: sample_db'_def leveldb_VersionedDB_def)
  qed
qed

lemma update_tx_wf: "wf_steps (tx_steps H update_tx)" "valid_rwset no_NUL update_tx"
  by (simp_all add: update_tx_steps sample_tx_steps wf_steps_def)
    (simp add: valid_rwset_def update_tx_def no_dollar_def no_NUL_def)

theorem transaction_valid_iff_fresh_witness:
  "validateTx sample_libs sample_validator update_tx newPubAndHashUpdates = Inr TxValidationCode_VALID \<and>
   tx_fresh sample_libs sample_hash (\<lambda>s. level_contents sample_md_codec ''ch'' (map_of s)) sample_db' newPubAndHashUpdates update_tx"
proof -
  have "validateTx sample_libs sample_validator update_tx newPubAndHashUpdates = Inr TxValidationCode_VALID"
    by (simp add: validateTx_def update_tx_def validateReadSet_def validateKVRead_def newPubAndHashUpdates_def sample_validator_def
        sample_version NewVersion_def validateRangeQueries_def validateNsHashedReadSets_def Let_def)
  with transaction_valid_iff_fresh [of sample_validator "\<lambda>s. level_contents sample_md_codec ''ch'' (map_of s)" no_NUL level_stored
      newPubAndHashUpdates update_tx sample_libs]
  show ?thesis
    using sample_vdb' sample_answers update_tx_wf(2) by (simp add: sample_validator_def) (simp add: update_tx_def)
qed

theorem block_is_serial_execution_witness:
  "world (\<lambda>s. level_contents sample_md_codec ''ch'' (map_of s)) sample_db' sample_result ck_a =
     serial sample_libs (tx_height (sample_block [0, 0])) (blk_txs (sample_block [0, 11]))
       (db_value (\<lambda>s. level_contents sample_md_codec ''ch'' (map_of s)) sample_db') ck_a \<and>
   reads_current sample_libs sample_hash
     (serial sample_libs (tx_height (sample_block [0, 0])) []
       (db_value (\<lambda>s. level_contents sample_md_codec ''ch'' (map_of s)) sample_db')) update_tx"
proof -
  have txs: "wf_steps (tx_steps (lib_ComputeHash sample_libs) (tx_rwset tx)) \<and> valid_rwset no_NUL (tx_rwset tx)"
    if "tx \<in> set (blk_txs (sample_block [0, 0]))" for tx
    using that update_tx_wf by (auto simp: sample_block_def sample_tx_def)
  have db: "versioned_db (db_VersionedDB (v_db sample_validator)) (\<lambda>s. level_contents sample_md_codec ''ch'' (map_of s)) no_NUL level_stored"
    "hint_ok (\<lambda>s. level_contents sample_md_codec ''ch'' (map_of s)) no_NUL map_of (v_db sample_validator)"
    "db_answers no_NUL (v_db sample_validator)"
    using sample_vdb' sample_hint_ok' sample_answers by (simp_all add: sample_validator_def)
  have "valid_ck no_NUL ck_a" by (simp add: valid_ck_def mk_compositeKey_def no_dollar_def no_NUL_def)
  moreover have "blk_txs (sample_block [0, 11]) ! 0 = sample_tx 0 0" "0 < length (blk_txs (sample_block [0, 11]))"
    "tx_rwset (sample_tx 0 0) = update_tx" "tx_validationCode (sample_tx 0 0) = TxValidationCode_VALID"
    by (simp_all add: sample_block_def sample_tx_def code_defs)
  moreover note block_is_serial_execution [OF db(1,2) txs sample_validated db(3)]
  ultimately show ?thesis by (auto simp: sample_validator_def)
qed

end
