(* ===== verification/LiteValidator.thy ===== *)
theory LiteValidator
  imports Validator
begin

text \<open>
  Validation of lite blocks
  (core/ledger/kvledger/txmgmt/validation/validator_adapter.go, tx_ops_adapter.go and the lite parts
  of types.go and batch_preparer_adapter.go): the same validation over the read-write sets that lite
  envelopes carry unserialized. Shown: on the same read-write sets both paths give the same result,
  validation codes and updates alike, except that the lite path reports no purges; and a block with
  a transaction that carries no results makes the lite path panic.
\<close>

section \<open>Lite blocks\<close>

record ltxTransaction =
  ltx_indexInBlock :: nat
  ltx_id :: gostring
  ltx_rwset :: LtxReadWriteSet
  ltx_validationCode :: TxValidationCode
  ltx_containsPostOrderWrites :: bool
  ltx_channelId :: gostring

text \<open>A transaction of a lite block is nil where the envelope had no results.\<close>

record ltxBlock =
  lblk_num :: u64
  lblk_txs :: "ltxTransaction option list"
  lblk_filter :: SparseTxnFilterProto
  lblk_filterExists :: bool

text \<open>
  The protobuf library on lite messages. \<open>Unmarshal\<close> fills in its argument, also when it fails, and
  says whether it succeeded.
\<close>

record ltx_libs = libs +
  lib_Marshal_LtxKVMetadataWrite :: "KVMetadataWrite \<Rightarrow> bytes res"
  lib_Marshal_LtxRangeQueryInfo :: "RangeQueryInfo \<Rightarrow> bytes res"
  lib_Unmarshal_RangeQueryInfo :: "bytes \<Rightarrow> RangeQueryInfo \<times> bool"

definition ltx_containsPvtWrites :: "ltxTransaction \<Rightarrow> bool" where
  "ltx_containsPvtWrites t =
     list_ex (\<lambda>ns. list_ex (\<lambda>coll. lc_PvtRwsetHash coll \<noteq> None) (ln_CollectionHashedRwset ns)) (lt_NsRwset (ltx_rwset t))"

definition ltx_retrieveHash :: "ltxTransaction \<Rightarrow> gostring \<Rightarrow> gostring \<Rightarrow> gobytes" where
  "ltx_retrieveHash t ns coll =
     (case List.find (\<lambda>collData. lc_CollectionName collData = coll)
         (concat (map ln_CollectionHashedRwset (filter (\<lambda>nsData. ln_Namespace nsData = ns) (lt_NsRwset (ltx_rwset t))))) of
        None \<Rightarrow> None | Some collData \<Rightarrow> lc_PvtRwsetHash collData)"

section \<open>Operations of a lite transaction\<close>

definition NewLtxVersion :: "ProtoVersion option \<Rightarrow> Height option" where
  "NewLtxVersion protoVersion =
     (case protoVersion of None \<Rightarrow> None | Some v \<Rightarrow> Some (NewHeight (pv_BlockNum v) (pv_TxNum v)))"

definition IsLtxKVWriteDelete :: "KVWrite \<Rightarrow> bool" where
  "IsLtxKVWriteDelete kvWrite = (w_IsDelete kvWrite \<or> len_bytes (w_Value kvWrite) = 0)"

definition IsLtxKVWriteHashDelete :: "(bytes \<Rightarrow> bytes) \<Rightarrow> LtxKVWriteHash \<Rightarrow> bool" where
  "IsLtxKVWriteHashDelete ComputeHash kvWriteHash =
     (lwh_IsDelete kvWriteHash \<or> len_bytes (lwh_ValueHash kvWriteHash) = 0 \<or>
      bytesEqual (Some (hashOfZeroLengthByteArray ComputeHash)) (lwh_ValueHash kvWriteHash))"

definition LtxSerialize :: "(KVMetadataWrite \<Rightarrow> bytes res) \<Rightarrow> KVMetadataEntry list \<Rightarrow> gobytes res" where
  "LtxSerialize marshal metadataEntries =
     bindE (marshal \<lparr>mw_Key = [], mw_Entries = metadataEntries\<rparr>) (\<lambda>b. Inr (Some b))"

definition applyLtxKVWrite :: "gostring \<Rightarrow> gostring \<Rightarrow> KVWrite \<Rightarrow> txOps \<Rightarrow> txOps" where
  "applyLtxKVWrite ns coll kvWrite txops =
     (if IsLtxKVWriteDelete kvWrite then txOps_delete (mk_compositeKey ns coll (w_Key kvWrite)) txops
      else txOps_upsert (mk_compositeKey ns coll (w_Key kvWrite)) (w_Value kvWrite) txops)"

definition applyLtxMetadata ::
  "(KVMetadataWrite \<Rightarrow> bytes res) \<Rightarrow> gostring \<Rightarrow> gostring \<Rightarrow> KVMetadataWrite \<Rightarrow> txOps \<Rightarrow> txOps res" where
  "applyLtxMetadata marshal ns coll metadataWrite txops =
     (if mw_Entries metadataWrite = [] then Inr (txOps_metadataDelete (mk_compositeKey ns coll (mw_Key metadataWrite)) txops)
      else bindE (LtxSerialize marshal (mw_Entries metadataWrite)) (\<lambda>metadataBytes.
        Inr (txOps_metadataUpdate (mk_compositeKey ns coll (mw_Key metadataWrite)) metadataBytes txops)))"

definition applyLtxRwset ::
  "(KVMetadataWrite \<Rightarrow> bytes res) \<Rightarrow> (bytes \<Rightarrow> bytes) \<Rightarrow> LtxReadWriteSet \<Rightarrow> txOps \<Rightarrow> txOps res" where
  "applyLtxRwset marshal ComputeHash rwset =
     foldE (\<lambda>nsRWSet txops.
       let ns = ln_Namespace nsRWSet in
       bindE (deref (ln_Rwset nsRWSet)) (\<lambda>kv.
       bindE (foldE (applyLtxMetadata marshal ns []) (MetadataWrites kv) (fold (applyLtxKVWrite ns []) (Writes kv) txops))
         (foldE (\<lambda>collHashRWset txops.
            let coll = lc_CollectionName collHashRWset in
            bindE (deref (lc_HashedRwset collHashRWset)) (\<lambda>h.
              foldE (\<lambda>metadataWrite. applyLtxMetadata marshal ns coll
                  \<lparr>mw_Key = mh_KeyHash metadataWrite, mw_Entries = mh_Entries metadataWrite\<rparr>)
                (lh_MetadataWrites h)
                (fold (\<lambda>hashedWrite. applyLtxKVWrite ns coll
                  \<lparr>w_Key = lwh_KeyHash hashedWrite, w_IsDelete = IsLtxKVWriteHashDelete ComputeHash hashedWrite,
                   w_Value = lwh_ValueHash hashedWrite\<rparr>) (lh_HashedWrites h) txops)))
          (ln_CollectionHashedRwset nsRWSet))))
     (lt_NsRwset rwset)"

text \<open>The loop that completes the entries is the one of \<open>prepareTxOps\<close>.\<close>

definition prepareLtxOps ::
  "(KVMetadataWrite \<Rightarrow> bytes res) \<Rightarrow> (bytes \<Rightarrow> bytes) \<Rightarrow> LtxReadWriteSet \<Rightarrow> publicAndHashUpdates \<Rightarrow> ('s, 'b) DB \<Rightarrow> txOps res" where
  "prepareLtxOps marshal ComputeHash rwset precedingUpdates db =
     bindE (applyLtxRwset marshal ComputeHash rwset []) (\<lambda>txops.
       foldE (completeKeyOps precedingUpdates db) txops txops)"

definition applyLtxWriteSet ::
  "(KVMetadataWrite \<Rightarrow> bytes res) \<Rightarrow> (bytes \<Rightarrow> bytes) \<Rightarrow> LtxReadWriteSet \<Rightarrow> Height option \<Rightarrow> ('s, 'b) DB \<Rightarrow> bool \<Rightarrow>
   publicAndHashUpdates \<Rightarrow> publicAndHashUpdates res" where
  "applyLtxWriteSet marshal ComputeHash txRWSet txHeight db containsPostOrderWrites u =
     (let u = u\<lparr>publicUpdates := (publicUpdates u)
            \<lparr>ContainsPostOrderWrites := ContainsPostOrderWrites (publicUpdates u) \<or> containsPostOrderWrites\<rparr>\<rparr> in
      bindE (prepareLtxOps marshal ComputeHash txRWSet u db) (\<lambda>txops. foldE (applyKeyOps txHeight) txops u))"

section \<open>Validation of a lite transaction\<close>

definition collectLtxPubKeys :: "ltxBlock \<Rightarrow> CompositeKey list res" where
  "collectLtxPubKeys blk =
     foldE (\<lambda>tx pubKeys. bindE (deref tx) (\<lambda>tx. foldE (\<lambda>nsRWSet pubKeys. bindE (deref (ln_Rwset nsRWSet)) (\<lambda>kv.
         Inr (fold (\<lambda>kvRead pubKeys.
           let compositeKey = \<lparr>ck_Namespace = ln_Namespace nsRWSet, ck_Key = r_Key kvRead\<rparr> in
           if compositeKey \<in> set pubKeys then pubKeys else pubKeys @ [compositeKey]) (Reads kv) pubKeys)))
       (lt_NsRwset (ltx_rwset tx)) pubKeys)) (lblk_txs blk) []"

definition collectLtxHashedKeys :: "ltxBlock \<Rightarrow> HashedCompositeKey list res" where
  "collectLtxHashedKeys blk =
     foldE (\<lambda>tx hashedKeys. bindE (deref tx) (\<lambda>tx. foldE (\<lambda>nsRWSet. foldE (\<lambda>colHashedRwSet hashedKeys.
         bindE (deref (lc_HashedRwset colHashedRwSet)) (\<lambda>h.
         Inr (fold (\<lambda>kvHashedRead hashedKeys.
           let hashedCompositeKey = \<lparr>hk_Namespace = ln_Namespace nsRWSet, hk_CollectionName = lc_CollectionName colHashedRwSet,
                 hk_KeyHash = rh_KeyHash kvHashedRead\<rparr> in
           if hashedCompositeKey \<in> set hashedKeys then hashedKeys else hashedKeys @ [hashedCompositeKey])
           (lh_HashedReads h) hashedKeys)))
       (ln_CollectionHashedRwset nsRWSet)) (lt_NsRwset (ltx_rwset tx)) hashedKeys)) (lblk_txs blk) []"

definition preLoadCommittedVersionOfLtxRSet :: "ltxBlock \<Rightarrow> ('s, 'b) validator \<Rightarrow> ('s, 'b) validator res" where
  "preLoadCommittedVersionOfLtxRSet blk v =
     bindE (collectLtxPubKeys blk) (\<lambda>pubKeys. bindE (collectLtxHashedKeys blk) (\<lambda>hashedKeys.
      if length pubKeys > 0 \<or> length hashedKeys > 0
      then bindE (LoadCommittedVersionsOfPubAndHashedKeys pubKeys hashedKeys (v_db v)) (\<lambda>db. Inr (v\<lparr>v_db := db\<rparr>))
      else Inr v))"

definition validateLtxKVRead :: "('s, 'b) validator \<Rightarrow> UpdateBatch \<Rightarrow> gostring \<Rightarrow> KVRead \<Rightarrow> bool res" where
  "validateLtxKVRead v updates ns kvRead =
     (let readVersion = NewLtxVersion (r_Version kvRead) in
      if UpdateBatch_Exists updates ns (r_Key kvRead) then Inr False
      else bindE (db_GetVersion (v_db v) ns (r_Key kvRead)) (\<lambda>committedVersion.
        if \<not> AreSame committedVersion readVersion then Inr False else Inr True))"

definition validateLtxReadSet :: "('s, 'b) validator \<Rightarrow> UpdateBatch \<Rightarrow> gostring \<Rightarrow> KVRead list \<Rightarrow> bool res" where
  "validateLtxReadSet v updates ns kvReads = checkAll (validateLtxKVRead v updates ns) kvReads"

text \<open>
  The recorded query is converted by serializing it as a lite message and parsing it as a kvrwset
  one. An error is only logged: the validation goes on with what was parsed, by comparing raw reads.
\<close>

definition validateLtxRangeQuery ::
  "ltx_libs \<Rightarrow> ('s, 'b) validator \<Rightarrow> UpdateBatch \<Rightarrow> gostring \<Rightarrow> RangeQueryInfo \<Rightarrow> bool res" where
  "validateLtxRangeQuery l v updates ns rangeQueryInfo =
     (let includeEndKey = \<not> rq_ItrExhausted rangeQueryInfo in
      bindE (newCombinedIterator (db_VersionedDB (v_db v)) (db_state (v_db v)) updates ns (rq_StartKey rangeQueryInfo)
          (rq_EndKey rangeQueryInfo) includeEndKey) (\<lambda>combinedItr.
        let byHash = (GetReadsMerkleHashes rangeQueryInfo \<noteq> None);
            (rqiBytes, byHash) = (case lib_Marshal_LtxRangeQueryInfo l rangeQueryInfo of Inl e \<Rightarrow> ([], False) | Inr b \<Rightarrow> (b, byHash));
            (kvrqi, parsed) = lib_Unmarshal_RangeQueryInfo l rqiBytes;
            byHash = (if parsed then byHash else False) in
        if byHash then
          bindE (rangeQueryHashValidator_init kvrqi) (\<lambda>helper.
            rangeQueryHashValidator_validate (lib_Marshal_QueryReads l) (v_hashFunc v) kvrqi helper combinedItr)
        else rangeQueryResultsValidator_validate kvrqi combinedItr))"

definition validateLtxRangeQueries ::
  "ltx_libs \<Rightarrow> ('s, 'b) validator \<Rightarrow> UpdateBatch \<Rightarrow> gostring \<Rightarrow> RangeQueryInfo list \<Rightarrow> bool res" where
  "validateLtxRangeQueries l v updates ns rangeQueriesInfo = checkAll (validateLtxRangeQuery l v updates ns) rangeQueriesInfo"

definition validateLtxKVReadHash ::
  "('s, 'b) validator \<Rightarrow> UpdateMap \<Rightarrow> gostring \<Rightarrow> gostring \<Rightarrow> KVReadHash \<Rightarrow> bool res" where
  "validateLtxKVReadHash v updates ns coll kvReadHash =
     (let readHashVersion = NewLtxVersion (rh_Version kvReadHash) in
      if Hashed_Contains updates ns coll (Some (rh_KeyHash kvReadHash)) then Inr False
      else bindE (GetKeyHashVersion (v_db v) ns coll (rh_KeyHash kvReadHash)) (\<lambda>committedVersion.
        if \<not> AreSame committedVersion readHashVersion then Inr False else Inr True))"

definition validateLtxCollHashedReadSet ::
  "('s, 'b) validator \<Rightarrow> UpdateMap \<Rightarrow> gostring \<Rightarrow> gostring \<Rightarrow> KVReadHash list \<Rightarrow> bool res" where
  "validateLtxCollHashedReadSet v updates ns coll kvReadHashes = checkAll (validateLtxKVReadHash v updates ns coll) kvReadHashes"

definition validateNsLtxHashedReadSets ::
  "('s, 'b) validator \<Rightarrow> UpdateMap \<Rightarrow> gostring \<Rightarrow> LtxCollectionHashedRwset list \<Rightarrow> bool res" where
  "validateNsLtxHashedReadSets v updates ns collHashedRWSets =
     checkAll (\<lambda>collHashedRWSet. bindE (deref (lc_HashedRwset collHashedRWSet)) (\<lambda>h.
       validateLtxCollHashedReadSet v updates ns (lc_CollectionName collHashedRWSet) (lh_HashedReads h))) collHashedRWSets"

fun validateLtx_loop :: "ltx_libs \<Rightarrow> ('s, 'b) validator \<Rightarrow> publicAndHashUpdates \<Rightarrow> LtxNsReadWriteSet list \<Rightarrow> TxValidationCode res" where
  "validateLtx_loop l v updates [] = Inr TxValidationCode_VALID"
| "validateLtx_loop l v updates (nsRWSet # nsRWSets) =
     (let ns = ln_Namespace nsRWSet in
      bindE (deref (ln_Rwset nsRWSet)) (\<lambda>kv.
      bindE (validateLtxReadSet v (publicUpdates updates) ns (Reads kv)) (\<lambda>valid.
      if \<not> valid then Inr TxValidationCode_MVCC_READ_CONFLICT
      else bindE (validateLtxRangeQueries l v (publicUpdates updates) ns (RangeQueriesInfo kv)) (\<lambda>valid.
      if \<not> valid then Inr TxValidationCode_PHANTOM_READ_CONFLICT
      else bindE (validateNsLtxHashedReadSets v (hashUpdates updates) ns (ln_CollectionHashedRwset nsRWSet)) (\<lambda>valid.
      if \<not> valid then Inr TxValidationCode_MVCC_READ_CONFLICT
      else validateLtx_loop l v updates nsRWSets)))))"

definition validateLtx :: "ltx_libs \<Rightarrow> ('s, 'b) validator \<Rightarrow> LtxReadWriteSet \<Rightarrow> publicAndHashUpdates \<Rightarrow> TxValidationCode res" where
  "validateLtx l v txRWSet updates = validateLtx_loop l v updates (lt_NsRwset txRWSet)"

definition validateEndorserLtX ::
  "ltx_libs \<Rightarrow> ('s, 'b) validator \<Rightarrow> LtxReadWriteSet \<Rightarrow> bool \<Rightarrow> publicAndHashUpdates \<Rightarrow> TxValidationCode res" where
  "validateEndorserLtX l v txRWSet doMVCCValidation updates =
     (if doMVCCValidation then validateLtx l v txRWSet updates else Inr TxValidationCode_VALID)"

section \<open>The loop over a lite block\<close>

type_synonym ltx_batch_state = "publicAndHashUpdates \<times> pvtdataPurgeTracker \<times> ltxTransaction option list"

definition validateAndApplyLtx ::
  "ltx_libs \<Rightarrow> ('s, 'b) validator \<Rightarrow> ltxBlock \<Rightarrow> bool \<Rightarrow> ltxTransaction option \<Rightarrow> ltx_batch_state \<Rightarrow> ltx_batch_state res" where
  "validateAndApplyLtx l v blk doMVCCValidation tx = (\<lambda>(updates, purgeTracker, processed).
     bindE (deref tx) (\<lambda>tx.
     bindE (if ltx_validationCode tx = TxValidationCode_VALID
            then validateEndorserLtX l v (ltx_rwset tx) doMVCCValidation updates
            else Inr (ltx_validationCode tx)) (\<lambda>validationCode.
     let tx = tx\<lparr>ltx_validationCode := validationCode\<rparr> in
     if validationCode = TxValidationCode_VALID then
       bindE (committingTxHeight (lblk_filter blk) (lblk_filterExists blk) (lblk_num blk) (ltx_indexInBlock tx)) (\<lambda>height.
       bindE (applyLtxWriteSet (lib_Marshal_LtxKVMetadataWrite l) (lib_ComputeHash l) (ltx_rwset tx) (Some height) (v_db v)
           (ltx_containsPostOrderWrites tx) updates) (\<lambda>updates'.
         Inr (updates', purgeTracker, processed @ [Some tx])))
     else Inr (updates, purgeTracker, processed @ [Some tx]))))"

definition validateAndPrepareLtxBatch ::
  "ltx_libs \<Rightarrow> ltxBlock \<Rightarrow> bool \<Rightarrow> ('s, 'b) validator \<Rightarrow>
   (publicAndHashUpdates \<times> AppInitiatedPurgeUpdate list \<times> ltxBlock \<times> ('s, 'b) validator) res" where
  "validateAndPrepareLtxBatch l blk doMVCCValidation v =
     bindE (if IsBulkOptimizable (v_db v) then preLoadCommittedVersionOfLtxRSet blk v else Inr v) (\<lambda>v.
     bindE (foldE (validateAndApplyLtx l v blk doMVCCValidation) (lblk_txs blk) (newPubAndHashUpdates, [], []))
       (\<lambda>(updates, purgeTracker, txs).
          Inr (updates, purgeTracker_getUpdates purgeTracker, blk\<lparr>lblk_txs := txs\<rparr>, v)))"

section \<open>Both paths agree\<close>

text \<open>The lite form of a read-write set, a transaction and a block.\<close>

definition lite_hashed :: "HashedRWSet \<Rightarrow> LtxHashedRWSet" where
  "lite_hashed h = \<lparr>lh_HashedReads = HashedReads h,
     lh_HashedWrites = map (\<lambda>w. \<lparr>lwh_KeyHash = wh_KeyHash w, lwh_IsDelete = wh_IsDelete w, lwh_ValueHash = wh_ValueHash w\<rparr>) (HashedWrites h),
     lh_MetadataWrites = HashedMetadataWrites h\<rparr>"

definition lite_coll :: "CollHashedRwSet \<Rightarrow> LtxCollectionHashedRwset" where
  "lite_coll c = \<lparr>lc_CollectionName = ch_CollectionName c, lc_HashedRwset = Some (lite_hashed (HashedRwSet c)), lc_PvtRwsetHash = PvtRwSetHash c\<rparr>"

definition lite_ns :: "NsRwSet \<Rightarrow> LtxNsReadWriteSet" where
  "lite_ns n = \<lparr>ln_Namespace = NameSpace n, ln_Rwset = Some (KvRwSet n), ln_CollectionHashedRwset = map lite_coll (CollHashedRwSets n)\<rparr>"

definition lite_rwset :: "TxRwSet \<Rightarrow> LtxReadWriteSet" where
  "lite_rwset rwset = \<lparr>lt_NsRwset = map lite_ns (NsRwSets rwset)\<rparr>"

definition lite_tx :: "gostring \<Rightarrow> transaction \<Rightarrow> ltxTransaction" where
  "lite_tx ch tx = \<lparr>ltx_indexInBlock = tx_indexInBlock tx, ltx_id = tx_id tx, ltx_rwset = lite_rwset (tx_rwset tx),
     ltx_validationCode = tx_validationCode tx, ltx_containsPostOrderWrites = tx_containsPostOrderWrites tx, ltx_channelId = ch\<rparr>"

definition lite_block :: "gostring \<Rightarrow> block \<Rightarrow> ltxBlock" where
  "lite_block ch blk = \<lparr>lblk_num = blk_num blk, lblk_txs = map (\<lambda>tx. Some (lite_tx ch tx)) (blk_txs blk),
     lblk_filter = sparseblockchainFilter blk, lblk_filterExists = sparseFilterExists blk\<rparr>"

text \<open>
  The lite messages have the wire format of their kvrwset counterparts: metadata serializes to the
  same bytes, and a query written as a lite message is read back as the same query.
\<close>

definition block_queries :: "block \<Rightarrow> RangeQueryInfo set" where
  "block_queries blk = (\<Union>tx \<in> set (blk_txs blk). \<Union>n \<in> set (NsRwSets (tx_rwset tx)). set (RangeQueriesInfo (KvRwSet n)))"

definition same_wire_format :: "ltx_libs \<Rightarrow> RangeQueryInfo set \<Rightarrow> bool" where
  "same_wire_format l Q \<longleftrightarrow> (\<forall>m. lib_Marshal_LtxKVMetadataWrite l m = lib_Marshal_KVMetadataWrite l m) \<and>
     (\<forall>rqi \<in> Q. \<exists>b. lib_Marshal_LtxRangeQueryInfo l rqi = Inr b \<and> lib_Unmarshal_RangeQueryInfo l b = (rqi, True))"

lemma truncate_libs [simp]:
  "lib_Marshal_KVMetadataWrite (libs.truncate l) = lib_Marshal_KVMetadataWrite l"
  "lib_Marshal_QueryReads (libs.truncate l) = lib_Marshal_QueryReads l"
  "lib_ComputeHash (libs.truncate l) = lib_ComputeHash l"
  by (simp_all add: libs.defs)

lemma applyLtxKVWrite_eq [simp]: "applyLtxKVWrite = applyKVWrite"
  by (simp add: fun_eq_iff applyLtxKVWrite_def applyKVWrite_def IsLtxKVWriteDelete_def IsKVWriteDelete_def)

lemma applyLtxMetadata_eq [simp]: "applyLtxMetadata = applyMetadata"
  by (simp add: fun_eq_iff applyLtxMetadata_def applyMetadata_def LtxSerialize_def statemetadata_Serialize_def)

lemma NewLtxVersion_eq [simp]: "NewLtxVersion = NewVersion"
  by (simp add: fun_eq_iff NewLtxVersion_def NewVersion_def)

lemma IsLtxKVWriteHashDelete_eq [simp]:
  "IsLtxKVWriteHashDelete H \<lparr>lwh_KeyHash = wh_KeyHash w, lwh_IsDelete = wh_IsDelete w, lwh_ValueHash = wh_ValueHash w\<rparr> =
     IsKVWriteHashDelete H w"
  by (simp add: IsLtxKVWriteHashDelete_def IsKVWriteHashDelete_def)

lemma fold_map_fun: "fold f (map g xs) = fold (\<lambda>x. f (g x)) xs"
  by (simp add: fold_map comp_def)

lemma applyLtxRwset_lite: "applyLtxRwset marshal H (lite_rwset rwset) = applyTxRwset marshal H rwset"
  unfolding applyLtxRwset_def applyTxRwset_def
  by (simp add: lite_rwset_def foldE_map lite_ns_def lite_coll_def lite_hashed_def Let_def fold_map_fun)

lemma applyLtxWriteSet_lite: "applyLtxWriteSet marshal H (lite_rwset rwset) = applyWriteSet marshal H rwset"
  by (simp add: fun_eq_iff applyLtxWriteSet_def applyWriteSet_def prepareLtxOps_def prepareTxOps_def applyLtxRwset_lite)

lemma validateLtxRangeQuery_eq:
  assumes "same_wire_format l Q" and "rqi \<in> Q"
  shows "validateLtxRangeQuery l v updates ns rqi = validateRangeQuery (libs.truncate l) v updates ns rqi"
proof -
  from assms obtain b where "lib_Marshal_LtxRangeQueryInfo l rqi = Inr b" "lib_Unmarshal_RangeQueryInfo l b = (rqi, True)"
    unfolding same_wire_format_def by blast
  then show ?thesis
    by (simp add: validateLtxRangeQuery_def validateRangeQuery_def Let_def cong: if_cong)
qed

lemma checkAll_map: "checkAll f (map g xs) = checkAll (\<lambda>x. f (g x)) xs"
  by (induction xs) (auto split: sum.splits)

lemma lite_ns_sel:
  "ln_Namespace (lite_ns n) = NameSpace n" "ln_Rwset (lite_ns n) = Some (KvRwSet n)"
  "ln_CollectionHashedRwset (lite_ns n) = map lite_coll (CollHashedRwSets n)"
  by (simp_all add: lite_ns_def)

lemma validateLtx_lite:
  assumes "same_wire_format l Q" and "\<And>n. n \<in> set (NsRwSets rwset) \<Longrightarrow> set (RangeQueriesInfo (KvRwSet n)) \<subseteq> Q"
  shows "validateLtx l v (lite_rwset rwset) u = validateTx (libs.truncate l) v rwset u"
proof -
  have reads: "validateLtxReadSet v = validateReadSet v"
    by (simp add: fun_eq_iff validateLtxReadSet_def validateReadSet_def validateLtxKVRead_def [abs_def] validateKVRead_def [abs_def])
  have queries: "validateLtxRangeQueries l v upd ns qs = validateRangeQueries (libs.truncate l) v upd ns qs" if "set qs \<subseteq> Q" for upd ns qs
    unfolding validateLtxRangeQueries_def validateRangeQueries_def
    using that by (intro checkAll_cong validateLtxRangeQuery_eq [OF assms(1)]) auto
  have hashes: "validateNsLtxHashedReadSets v hu ns (map lite_coll cs) = validateNsHashedReadSets v hu ns cs" for hu ns cs
    by (simp add: validateNsLtxHashedReadSets_def validateNsHashedReadSets_def checkAll_map lite_coll_def lite_hashed_def
        validateLtxCollHashedReadSet_def validateCollHashedReadSet_def validateLtxKVReadHash_def [abs_def] validateKVReadHash_def [abs_def]
        cong: if_cong)
  have "validateLtx_loop l v u (map lite_ns ns) = validateTx_loop (libs.truncate l) v u ns"
    if "\<And>n. n \<in> set ns \<Longrightarrow> set (RangeQueriesInfo (KvRwSet n)) \<subseteq> Q" for ns
    using that by (induction ns) (simp_all add: lite_ns_sel reads queries hashes Let_def cong: if_cong)
  from this [OF assms(2)] show ?thesis by (simp add: validateLtx_def validateTx_def lite_rwset_def)
qed

lemma foldE_InrE: "foldE (\<lambda>x s. Inr (f x s)) xs = (\<lambda>s. Inr (fold f xs s))"
  by (simp add: fun_eq_iff foldE_fold)

lemma collectLtx_lite:
  "collectLtxPubKeys (lite_block ch blk) = Inr (collectPubKeys blk)"
  "collectLtxHashedKeys (lite_block ch blk) = Inr (collectHashedKeys blk)"
  by (simp_all add: collectLtxPubKeys_def collectLtxHashedKeys_def collectPubKeys_def collectHashedKeys_def lite_block_def lite_tx_def
      lite_rwset_def lite_ns_def lite_coll_def lite_hashed_def foldE_map foldE_InrE)

lemma preLoad_lite: "preLoadCommittedVersionOfLtxRSet (lite_block ch blk) v = preLoadCommittedVersionOfRSet blk v"
  by (simp add: preLoadCommittedVersionOfLtxRSet_def preLoadCommittedVersionOfRSet_def collectLtx_lite Let_def)

definition lite_state :: "gostring \<Rightarrow> pvtdataPurgeTracker \<Rightarrow> batch_state \<Rightarrow> ltx_batch_state" where
  "lite_state ch p0 = (\<lambda>(u, p, txs). (u, p0, map (\<lambda>tx. Some (lite_tx ch tx)) txs))"

lemma lite_tx_sel [simp]:
  "ltx_indexInBlock (lite_tx ch tx) = tx_indexInBlock tx" "ltx_rwset (lite_tx ch tx) = lite_rwset (tx_rwset tx)"
  "ltx_validationCode (lite_tx ch tx) = tx_validationCode tx"
  "ltx_containsPostOrderWrites (lite_tx ch tx) = tx_containsPostOrderWrites tx"
  "(lite_tx ch tx)\<lparr>ltx_validationCode := c\<rparr> = lite_tx ch (tx\<lparr>tx_validationCode := c\<rparr>)"
  by (simp_all add: lite_tx_def)

lemma lite_block_sel [simp]:
  "lblk_num (lite_block ch blk) = blk_num blk" "lblk_filter (lite_block ch blk) = sparseblockchainFilter blk"
  "lblk_filterExists (lite_block ch blk) = sparseFilterExists blk"
  "lblk_txs (lite_block ch blk) = map (\<lambda>tx. Some (lite_tx ch tx)) (blk_txs blk)"
  by (simp_all add: lite_block_def)

lemma tx_code_sel:
  "tx_indexInBlock (tx\<lparr>tx_validationCode := c\<rparr>) = tx_indexInBlock tx" "tx_rwset (tx\<lparr>tx_validationCode := c\<rparr>) = tx_rwset tx"
  "tx_containsPostOrderWrites (tx\<lparr>tx_validationCode := c\<rparr>) = tx_containsPostOrderWrites tx"
  by simp_all

lemma validateAndApplyLtx_lite:
  assumes "same_wire_format l Q" and "\<And>n. n \<in> set (NsRwSets (tx_rwset tx)) \<Longrightarrow> set (RangeQueriesInfo (KvRwSet n)) \<subseteq> Q"
  shows "validateAndApplyLtx l v (lite_block ch blk) mvcc (Some (lite_tx ch tx)) (lite_state ch p0 st) =
     bindE (validateAndApplyTx (libs.truncate l) v blk mvcc tx st) (\<lambda>st'. Inr (lite_state ch p0 st'))"
proof -
  obtain u p txs where st: "st = (u, p, txs)" by (cases st)
  have m: "lib_Marshal_LtxKVMetadataWrite l = lib_Marshal_KVMetadataWrite l"
    using assms(1) by (simp add: same_wire_format_def fun_eq_iff)
  have v: "validateEndorserLtX l v (lite_rwset (tx_rwset tx)) mvcc u = validateEndorserTX (libs.truncate l) v (tx_rwset tx) mvcc u"
    by (simp add: validateEndorserLtX_def validateEndorserTX_def validateLtx_lite [OF assms])
  let ?c = "if tx_validationCode tx = TxValidationCode_VALID then validateEndorserTX (libs.truncate l) v (tx_rwset tx) mvcc u
    else Inr (tx_validationCode tx)"
  show ?thesis
  proof (cases ?c)
    case (Inl e)
    then show ?thesis
      by (simp only: st lite_state_def validateAndApplyLtx_def validateAndApplyTx_def prod.case deref.simps bindE.simps lite_tx_sel v)
  next
    case (Inr c)
    let ?h = "committingTxHeight (sparseblockchainFilter blk) (sparseFilterExists blk) (blk_num blk) (tx_indexInBlock tx)"
    let ?a = "applyWriteSet (lib_Marshal_KVMetadataWrite l) (lib_ComputeHash l) (tx_rwset tx) (Some (projr ?h)) (v_db v)
      (tx_containsPostOrderWrites tx) u"
    have "validateAndApplyLtx l v (lite_block ch blk) mvcc (Some (lite_tx ch tx)) (lite_state ch p0 st) =
        (if c = TxValidationCode_VALID then bindE ?h (\<lambda>height.
          bindE (applyWriteSet (lib_Marshal_KVMetadataWrite l) (lib_ComputeHash l) (tx_rwset tx) (Some height) (v_db v)
            (tx_containsPostOrderWrites tx) u) (\<lambda>u'. Inr (u', p0, map (\<lambda>tx. Some (lite_tx ch tx)) txs @ [Some (lite_tx ch (tx\<lparr>tx_validationCode := c\<rparr>))])))
        else Inr (u, p0, map (\<lambda>tx. Some (lite_tx ch tx)) txs @ [Some (lite_tx ch (tx\<lparr>tx_validationCode := c\<rparr>))]))"
      using Inr by (simp only: st lite_state_def validateAndApplyLtx_def prod.case deref.simps bindE.simps lite_tx_sel v Let_def
          applyLtxWriteSet_lite m lite_block_sel tx_code_sel)
    moreover have "validateAndApplyTx (libs.truncate l) v blk mvcc tx st =
        (if c = TxValidationCode_VALID then bindE ?h (\<lambda>height.
          bindE (applyWriteSet (lib_Marshal_KVMetadataWrite l) (lib_ComputeHash l) (tx_rwset tx) (Some height) (v_db v)
            (tx_containsPostOrderWrites tx) u) (\<lambda>u'. Inr (u', purgeTracker_update (tx_rwset tx) height p, txs @ [tx\<lparr>tx_validationCode := c\<rparr>])))
        else Inr (u, p, txs @ [tx\<lparr>tx_validationCode := c\<rparr>]))"
      using Inr by (simp only: st validateAndApplyTx_def prod.case bindE.simps Let_def truncate_libs
          tx_code_sel)
    ultimately show ?thesis
      by (cases ?h; cases ?a) (simp_all add: lite_state_def)
  qed
qed

lemma foldE_lite:
  assumes "same_wire_format l Q"
    and "\<And>tx n. tx \<in> set txs \<Longrightarrow> n \<in> set (NsRwSets (tx_rwset tx)) \<Longrightarrow> set (RangeQueriesInfo (KvRwSet n)) \<subseteq> Q"
  shows "foldE (validateAndApplyLtx l v (lite_block ch blk) mvcc) (map (\<lambda>tx. Some (lite_tx ch tx)) txs) (lite_state ch p0 st) =
     bindE (foldE (validateAndApplyTx (libs.truncate l) v blk mvcc) txs st) (\<lambda>st'. Inr (lite_state ch p0 st'))"
  using assms(2)
proof (induction txs arbitrary: st)
  case (Cons tx txs)
  have "validateAndApplyLtx l v (lite_block ch blk) mvcc (Some (lite_tx ch tx)) (lite_state ch p0 st) =
     bindE (validateAndApplyTx (libs.truncate l) v blk mvcc tx st) (\<lambda>st'. Inr (lite_state ch p0 st'))"
    by (rule validateAndApplyLtx_lite [OF assms(1) Cons.prems]) simp_all
  moreover have "foldE (validateAndApplyLtx l v (lite_block ch blk) mvcc) (map (\<lambda>tx. Some (lite_tx ch tx)) txs) (lite_state ch p0 st) =
     bindE (foldE (validateAndApplyTx (libs.truncate l) v blk mvcc) txs st) (\<lambda>st'. Inr (lite_state ch p0 st'))" for st
    by (rule Cons.IH) (rule Cons.prems, simp_all)
  ultimately show ?case
    by (cases "validateAndApplyTx (libs.truncate l) v blk mvcc tx st") simp_all
qed simp

lemma validateAndPrepareLtxBatch_lite:
  assumes "same_wire_format l (block_queries blk)"
  shows "validateAndPrepareLtxBatch l (lite_block ch blk) mvcc v =
     bindE (validateAndPrepareBatch (libs.truncate l) blk mvcc v) (\<lambda>(updates, purges, blk', v').
       Inr (updates, [], lite_block ch blk', v'))"
proof (cases "if IsBulkOptimizable (v_db v) then preLoadCommittedVersionOfRSet blk v else Inr v")
  case (Inl e)
  then show ?thesis by (simp only: validateAndPrepareLtxBatch_def validateAndPrepareBatch_def preLoad_lite bindE.simps)
next
  case (Inr v1)
  have "set (RangeQueriesInfo (KvRwSet n)) \<subseteq> block_queries blk" if "tx \<in> set (blk_txs blk)" "n \<in> set (NsRwSets (tx_rwset tx))" for tx n
    using that by (auto simp: block_queries_def)
  from foldE_lite [OF assms this, where v = v1 and ch = ch and blk = blk and mvcc = mvcc and ?p0.0 = "[]"
      and st = "(newPubAndHashUpdates, [], [])"]
  have f: "foldE (validateAndApplyLtx l v1 (lite_block ch blk) mvcc) (map (\<lambda>tx. Some (lite_tx ch tx)) (blk_txs blk))
      (newPubAndHashUpdates, [], []) =
     bindE (foldE (validateAndApplyTx (libs.truncate l) v1 blk mvcc) (blk_txs blk) (newPubAndHashUpdates, [], []))
       (\<lambda>st'. Inr (lite_state ch [] st'))"
    by (simp add: lite_state_def)
  have b: "(lite_block ch blk)\<lparr>lblk_txs := map (\<lambda>tx. Some (lite_tx ch tx)) txs\<rparr> = lite_block ch (blk\<lparr>blk_txs := txs\<rparr>)" for txs
    by (simp add: lite_block_def)
  show ?thesis
    unfolding validateAndPrepareLtxBatch_def validateAndPrepareBatch_def preLoad_lite Inr bindE.simps lite_block_sel f
    by (cases "foldE (validateAndApplyTx (libs.truncate l) v1 blk mvcc) (blk_txs blk) (newPubAndHashUpdates, [], [])")
      (auto simp: lite_state_def purgeTracker_getUpdates_def b)
qed

text \<open>
  C25: On the same read-write sets, lite and full validation agree: they return the same error, or
  the same public and hashed updates, the same validation code for every transaction and the same
  state of the database. The one difference is that lite validation never reports a private key to
  be purged.
\<close>

theorem lite_validation_agrees:
  assumes "same_wire_format l (block_queries blk)"
  shows "validateAndPrepareLtxBatch l (lite_block channel blk) doMVCCValidation v =
     (case validateAndPrepareBatch (libs.truncate l) blk doMVCCValidation v of
        Inl e \<Rightarrow> Inl e
      | Inr (updates, purges, blk', v') \<Rightarrow> Inr (updates, [], lite_block channel blk', v'))"
  unfolding validateAndPrepareLtxBatch_lite [OF assms]
  by (cases "validateAndPrepareBatch (libs.truncate l) blk doMVCCValidation v") auto

text \<open>
  C26: A lite block with a transaction whose envelope carried no results cannot be validated:
  whatever the transactions before it, validation ends in an error or a panic, and it is a nil
  pointer dereference when they are processed without one.
\<close>

theorem lite_block_without_results_panics:
  assumes "lblk_txs blk = txs @ None # txs'"
  shows "(\<exists>e. validateAndPrepareLtxBatch l blk doMVCCValidation v = Inl e) \<and>
    (\<not> IsBulkOptimizable (v_db v) \<longrightarrow>
       (\<exists>st. foldE (validateAndApplyLtx l v blk doMVCCValidation) txs (newPubAndHashUpdates, [], []) = Inr st) \<longrightarrow>
       validateAndPrepareLtxBatch l blk doMVCCValidation v = Inl (Panic ''nil pointer dereference''))"
proof -
  have stop: "foldE (validateAndApplyLtx l v1 blk doMVCCValidation) (lblk_txs blk) st0 =
      bindE (foldE (validateAndApplyLtx l v1 blk doMVCCValidation) txs st0) (\<lambda>_. Inl (Panic ''nil pointer dereference''))" for v1 :: "('a, 'b) validator" and st0
    unfolding assms foldE_append
    by (cases "foldE (validateAndApplyLtx l v1 blk doMVCCValidation) txs st0") (auto simp: validateAndApplyLtx_def)
  have "\<exists>e. validateAndPrepareLtxBatch l blk doMVCCValidation v = Inl e"
  proof (cases "if IsBulkOptimizable (v_db v) then preLoadCommittedVersionOfLtxRSet blk v else Inr v")
    case (Inl e)
    then show ?thesis by (simp only: validateAndPrepareLtxBatch_def bindE.simps) blast
  next
    case (Inr v1)
    show ?thesis
      unfolding validateAndPrepareLtxBatch_def Inr bindE.simps stop
      by (cases "foldE (validateAndApplyLtx l v1 blk doMVCCValidation) txs (newPubAndHashUpdates, [], [])") auto
  qed
  moreover have "validateAndPrepareLtxBatch l blk doMVCCValidation v = Inl (Panic ''nil pointer dereference'')"
    if "\<not> IsBulkOptimizable (v_db v)" "foldE (validateAndApplyLtx l v blk doMVCCValidation) txs (newPubAndHashUpdates, [], []) = Inr st" for st
    using that by (simp add: validateAndPrepareLtxBatch_def stop)
  ultimately show ?thesis by blast
qed

section \<open>Witnesses\<close>

text \<open>The two transactions of the sample block, each with one range query; the codec knows that query.\<close>

definition sample_query :: RangeQueryInfo where
  "sample_query = \<lparr>rq_StartKey = ''b'', rq_EndKey = ''c'', rq_ItrExhausted = True, rq_ReadsInfo = Some (RawReads [])\<rparr>"

definition sample_ltx_libs :: ltx_libs where
  "sample_ltx_libs =
     \<lparr>lib_Marshal_KVMetadataWrite = sample_marshal, lib_Marshal_QueryReads = sample_ser, lib_ComputeHash = (\<lambda>b. b),
      lib_Marshal_LtxKVMetadataWrite = sample_marshal,
      lib_Marshal_LtxRangeQueryInfo = (\<lambda>q. if q = sample_query then Inr ''q'' else Inl (Error ''marshal'')),
      lib_Unmarshal_RangeQueryInfo = (\<lambda>b. (sample_query, b = ''q''))\<rparr>"

definition query_block :: block where
  "query_block = (sample_block [0, 0])\<lparr>blk_txs := map (\<lambda>tx. tx\<lparr>tx_rwset := \<lparr>NsRwSets = map (\<lambda>n.
     n\<lparr>KvRwSet := (KvRwSet n)\<lparr>RangeQueriesInfo := [sample_query]\<rparr>\<rparr>) (NsRwSets (tx_rwset tx))\<rparr>\<rparr>) (blk_txs (sample_block [0, 0]))\<rparr>"

lemma query_block_queries: "block_queries query_block = {sample_query}"
  by (auto simp: block_queries_def query_block_def sample_block_def sample_tx_def update_tx_def)

theorem lite_validation_agrees_witness:
  "validateAndPrepareLtxBatch sample_ltx_libs (lite_block ''ch'' query_block) True sample_validator =
     (case validateAndPrepareBatch (libs.truncate sample_ltx_libs) query_block True sample_validator of
        Inl e \<Rightarrow> Inl e
      | Inr (updates, purges, blk', v') \<Rightarrow> Inr (updates, [], lite_block ''ch'' blk', v'))"
  by (rule lite_validation_agrees) (simp add: same_wire_format_def query_block_queries sample_ltx_libs_def)

theorem lite_block_without_results_panics_witness:
  "validateAndPrepareLtxBatch sample_ltx_libs ((lite_block ''ch'' (sample_block [0, 0]))\<lparr>lblk_txs := [None]\<rparr>) True sample_validator =
     Inl (Panic ''nil pointer dereference'')"
proof -
  have "\<not> IsBulkOptimizable (v_db sample_validator)"
    by (simp add: IsBulkOptimizable_def sample_validator_def sample_db'_def leveldb_VersionedDB_def)
  then show ?thesis
    using lite_block_without_results_panics [where blk = "(lite_block ''ch'' (sample_block [0, 0]))\<lparr>lblk_txs := [None]\<rparr>" and txs = "[]"
        and txs' = "[]" and l = sample_ltx_libs and doMVCCValidation = True and v = sample_validator]
    by simp
qed

end
