(* ===== verification/ProtoUtil.thy ===== *)
theory ProtoUtil
  imports RWSet TxFlags
begin

text \<open>
  Blocks and envelopes (protoutil/txutils.go, proputils.go, commonutils.go, blockutils.go and
  liteutils.go): extracting the action of an endorser transaction, block metadata, and the conversion of
  transactions to lean envelopes. Shown: initialising the metadata of a block gives every slot the
  code reads and keeps the ones it had, and what the conversion to the lite format keeps.
\<close>

section \<open>Messages\<close>

text \<open>
  The messages of packages common and peer, with the fields the code uses. A bytes field is the
  contents of the slice; it is an option where the code tells nil from empty, and a message field is
  an option because it is a pointer.
\<close>

type_synonym HeaderType = int

definition HeaderType_CONFIG :: HeaderType where "HeaderType_CONFIG = 1"
definition HeaderType_ENDORSER_TRANSACTION :: HeaderType where "HeaderType_ENDORSER_TRANSACTION = 3"
definition HeaderType_ORDERER_TRANSACTION :: HeaderType where "HeaderType_ORDERER_TRANSACTION = 4"

definition BlockMetadataIndex_SIGNATURES :: nat where "BlockMetadataIndex_SIGNATURES = 0"
definition BlockMetadataIndex_LAST_CONFIG :: nat where "BlockMetadataIndex_LAST_CONFIG = 1"
definition BlockMetadataIndex_TRANSACTIONS_FILTER :: nat where "BlockMetadataIndex_TRANSACTIONS_FILTER = 2"
definition BlockMetadataIndex_ORDERER :: nat where "BlockMetadataIndex_ORDERER = 3"
definition BlockMetadataIndex_SPARSE_TXN_FILTER :: nat where "BlockMetadataIndex_SPARSE_TXN_FILTER = 8"

lemmas index_defs = BlockMetadataIndex_SIGNATURES_def BlockMetadataIndex_LAST_CONFIG_def
  BlockMetadataIndex_TRANSACTIONS_FILTER_def BlockMetadataIndex_ORDERER_def BlockMetadataIndex_SPARSE_TXN_FILTER_def

record BlockHeader =
  bh_Number :: u64
  bh_PreviousHash :: bytes
  bh_DataHash :: bytes

record Block =
  b_Header :: "BlockHeader option"
  b_Data :: "bytes list option"
  b_Metadata :: "bytes list option"

record ProtoMetadata =
  pm_Value :: bytes

record LastConfig =
  lcfg_Index :: u64

record OrdererBlockMetadata =
  obm_LastConfig :: "LastConfig option"
  obm_ConsenterMetadata :: bytes

record ChaincodeID =
  cc_Path :: gostring
  cc_Name :: gostring
  cc_Version :: gostring

record ChaincodeEvent =
  ev_ChaincodeId :: gostring
  ev_TxId :: gostring
  ev_EventName :: gostring
  ev_Payload :: bytes

record SerializedIdentity =
  si_Mspid :: gostring
  si_IdBytes :: bytes

record SignatureHeader =
  shdr_Creator :: bytes
  shdr_Nonce :: bytes

record ChannelHeader =
  chdr_Type :: HeaderType
  chdr_ChannelId :: gostring
  chdr_TxId :: gostring
  chdr_TlsCertHash :: bytes
  chdr_ShardId :: int
  chdr_OrgsInvolved :: "gostring list"

record MessageHeader =
  hdr_ChannelHeader :: bytes
  hdr_SignatureHeader :: bytes

record Payload =
  pl_Header :: "MessageHeader option"
  pl_Data :: bytes

record LtxEndorsement =
  le_Endorser :: SerializedIdentity
  le_Signature :: bytes

record LtxChaincodeAction =
  la_Results :: LtxReadWriteSet
  la_Events :: ChaincodeEvent
  la_ChaincodeId :: ChaincodeID

record LtxProposalResponsePayload =
  lp_ProposalHash :: bytes
  lp_Extension :: LtxChaincodeAction

record LtxChaincodeEndorsedAction =
  lea_ProposalResponsePayload :: LtxProposalResponsePayload
  lea_Endorsements :: "LtxEndorsement list"

record LightHeader =
  lhdr_ChannelHeader :: ChannelHeader
  lhdr_SignatureHeader :: SignatureHeader

record LEnvelope =
  lenv_Header :: "LightHeader option"
  lenv_Data :: LtxChaincodeEndorsedAction

record EnvMeta =
  meta_SignatureHeader :: SignatureHeader
  meta_ChaincodeID :: ChaincodeID
  meta_Endorsements :: "LtxEndorsement list"
  meta_ProposalHash :: bytes
  meta_Events :: ChaincodeEvent

record LeanEnvelope =
  lean_ChannelId :: gostring
  lean_TxId :: gostring
  lean_ShardId :: int
  lean_OrgsInvolved :: "gostring list"
  lean_Nonce :: bytes
  lean_TlsCertHash :: bytes
  lean_Results :: "LtxReadWriteSet option"
  lean_Meta :: "EnvMeta option"

record Envelope =
  env_Payload :: bytes
  env_Signature :: bytes
  env_Type :: HeaderType
  env_LeanEnv :: "LeanEnvelope option"

text \<open>The messages of package peer.\<close>

record Endorsement =
  e_Endorser :: bytes
  e_Signature :: bytes

record ChaincodeEndorsedAction =
  ea_ProposalResponsePayload :: gobytes
  ea_Endorsements :: "Endorsement list"

record ChaincodeActionPayload =
  cap_Action :: "ChaincodeEndorsedAction option"

record ProposalResponsePayload =
  prp_ProposalHash :: bytes
  prp_Extension :: gobytes

record ChaincodeAction =
  ca_Results :: bytes
  ca_Events :: bytes
  ca_ChaincodeId :: "ChaincodeID option"

text \<open>A transaction is the list of the payloads of its actions.\<close>

record Transaction =
  t_Actions :: "bytes list"

text \<open>
  \<open>proto.Unmarshal\<close>, one function per message type. It fills in the message also when it fails, and
  says whether it succeeded.
\<close>

record proto_lib =
  um_Envelope :: "bytes \<Rightarrow> Envelope \<times> bool"
  um_Payload :: "bytes \<Rightarrow> Payload \<times> bool"
  um_ChannelHeader :: "bytes \<Rightarrow> ChannelHeader \<times> bool"
  um_SignatureHeader :: "bytes \<Rightarrow> SignatureHeader \<times> bool"
  um_Transaction :: "bytes \<Rightarrow> Transaction \<times> bool"
  um_ChaincodeActionPayload :: "bytes \<Rightarrow> ChaincodeActionPayload \<times> bool"
  um_ProposalResponsePayload :: "bytes \<Rightarrow> ProposalResponsePayload \<times> bool"
  um_ChaincodeAction :: "bytes \<Rightarrow> ChaincodeAction \<times> bool"
  um_ChaincodeEvent :: "bytes \<Rightarrow> ChaincodeEvent \<times> bool"
  um_SerializedIdentity :: "bytes \<Rightarrow> SerializedIdentity \<times> bool"
  um_Metadata :: "bytes \<Rightarrow> ProtoMetadata \<times> bool"
  um_LastConfig :: "bytes \<Rightarrow> LastConfig \<times> bool"
  um_OrdererBlockMetadata :: "bytes \<Rightarrow> OrdererBlockMetadata \<times> bool"
  um_Block :: "bytes \<Rightarrow> Block \<times> bool"

fun unmarshal :: "string \<Rightarrow> 'm \<times> bool \<Rightarrow> 'm res" where
  "unmarshal what (m, ok) = (if ok then Inr m else Inl (Error (''error unmarshalling '' @ what)))"

section \<open>Envelopes and actions\<close>

definition GetEnvelopeFromBlock :: "proto_lib \<Rightarrow> bytes \<Rightarrow> Envelope res" where
  "GetEnvelopeFromBlock p data = unmarshal ''Envelope'' (um_Envelope p data)"

text \<open>The code returns the payload of the action too, which the callers modelled here ignore.\<close>

definition GetPayloads :: "proto_lib \<Rightarrow> bytes \<Rightarrow> ChaincodeAction res" where
  "GetPayloads p actionPayload =
     bindE (unmarshal ''ChaincodeActionPayload'' (um_ChaincodeActionPayload p actionPayload)) (\<lambda>ccPayload.
     case Option.bind (cap_Action ccPayload) ea_ProposalResponsePayload of
       None \<Rightarrow> Inl (Error ''no payload in ChaincodeActionPayload'')
     | Some prpBytes \<Rightarrow>
         bindE (unmarshal ''ProposalResponsePayload'' (um_ProposalResponsePayload p prpBytes)) (\<lambda>pRespPayload.
         case prp_Extension pRespPayload of
           None \<Rightarrow> Inl (Error ''response payload is missing extension'')
         | Some ext \<Rightarrow> unmarshal ''ChaincodeAction'' (um_ChaincodeAction p ext)))"

definition GetActionFromEnvelopeMsg :: "proto_lib \<Rightarrow> Envelope \<Rightarrow> ChaincodeAction res" where
  "GetActionFromEnvelopeMsg p env =
     bindE (unmarshal ''Payload'' (um_Payload p (env_Payload env))) (\<lambda>payl.
     bindE (unmarshal ''Transaction'' (um_Transaction p (pl_Data payl))) (\<lambda>tx.
     case t_Actions tx of
       [] \<Rightarrow> Inl (Error ''at least one TransactionAction required'')
     | action # _ \<Rightarrow> GetPayloads p action))"

definition GetActionFromEnvelope :: "proto_lib \<Rightarrow> bytes \<Rightarrow> ChaincodeAction res" where
  "GetActionFromEnvelope p envBytes = bindE (GetEnvelopeFromBlock p envBytes) (GetActionFromEnvelopeMsg p)"

section \<open>Blocks\<close>

definition NewBlock :: "u64 \<Rightarrow> bytes \<Rightarrow> Block" where
  "NewBlock seqNum previousHash =
     \<lparr>b_Header = Some \<lparr>bh_Number = seqNum, bh_PreviousHash = previousHash, bh_DataHash = []\<rparr>,
      b_Data = Some [], b_Metadata = Some (replicate 9 [])\<rparr>"

text \<open>The ASN.1 encoding of a header and the hash are library functions.\<close>

definition BlockHeaderHash :: "(u64 \<Rightarrow> bytes \<Rightarrow> bytes \<Rightarrow> bytes) \<Rightarrow> (bytes \<Rightarrow> bytes) \<Rightarrow> BlockHeader \<Rightarrow> bytes" where
  "BlockHeaderHash asn1 sha256 b = sha256 (asn1 (bh_Number b) (bh_PreviousHash b) (bh_DataHash b))"

definition BlockDataHash :: "(bytes \<Rightarrow> bytes) \<Rightarrow> bytes list \<Rightarrow> bytes" where
  "BlockDataHash sha256 data = sha256 (concat data)"

text \<open>The type of the single transaction of a block, if the block has exactly one that parses.\<close>

definition IsConfigBlock :: "proto_lib \<Rightarrow> Block \<Rightarrow> bool" where
  "IsConfigBlock p block =
     (case b_Data block of
        Some [marshaledEnvelope] \<Rightarrow>
          (case bindE (GetEnvelopeFromBlock p marshaledEnvelope) (\<lambda>envelope.
             unmarshal ''Payload'' (um_Payload p (env_Payload envelope))) of
             Inl _ \<Rightarrow> False
           | Inr payload \<Rightarrow>
               (case pl_Header payload of None \<Rightarrow> False
                | Some h \<Rightarrow>
                    (case unmarshal ''ChannelHeader'' (um_ChannelHeader p (hdr_ChannelHeader h)) of Inl _ \<Rightarrow> False
                     | Inr chdr \<Rightarrow> chdr_Type chdr = HeaderType_CONFIG \<or> chdr_Type chdr = HeaderType_ORDERER_TRANSACTION)))
      | _ \<Rightarrow> False)"

definition IsLiteBlock :: "proto_lib \<Rightarrow> Block \<Rightarrow> bool res" where
  "IsLiteBlock p block =
     (case b_Data block of None \<Rightarrow> Inr False
      | Some data \<Rightarrow> bindE (index data 0) (\<lambda>marshaledEnvelope.
          case GetEnvelopeFromBlock p marshaledEnvelope of Inl _ \<Rightarrow> Inr False
          | Inr envelope \<Rightarrow> Inr (env_LeanEnv envelope \<noteq> None)))"

definition GetChannelIDFromBlock :: "proto_lib \<Rightarrow> Block option \<Rightarrow> gostring res" where
  "GetChannelIDFromBlock p block =
     (case Option.bind block b_Data of
        Some (envBytes # _) \<Rightarrow>
          bindE (GetEnvelopeFromBlock p envBytes) (\<lambda>envelope.
          case env_LeanEnv envelope of Some lean \<Rightarrow> Inr (lean_ChannelId lean)
          | None \<Rightarrow>
              bindE (unmarshal ''Payload'' (um_Payload p (env_Payload envelope))) (\<lambda>payload.
              case pl_Header payload of
                None \<Rightarrow> Inl (Error ''failed to retrieve channel id - payload header is empty'')
              | Some h \<Rightarrow> bindE (unmarshal ''ChannelHeader'' (um_ChannelHeader p (hdr_ChannelHeader h)))
                  (\<lambda>chdr. Inr (chdr_ChannelId chdr))))
      | _ \<Rightarrow> Inl (Error ''failed to retrieve channel id - block is empty''))"

definition GetChannelIDFromBlockBytes :: "proto_lib \<Rightarrow> bytes \<Rightarrow> gostring res" where
  "GetChannelIDFromBlockBytes p b = bindE (unmarshal ''block'' (um_Block p b)) (\<lambda>block. GetChannelIDFromBlock p (Some block))"

definition GetMetadataFromBlock :: "proto_lib \<Rightarrow> Block \<Rightarrow> nat \<Rightarrow> ProtoMetadata res" where
  "GetMetadataFromBlock p block i =
     (case b_Metadata block of None \<Rightarrow> Inl (Error ''no metadata in block'')
      | Some md \<Rightarrow> if length md \<le> i then Inl (Error ''no metadata at index'')
          else unmarshal ''metadata at index'' (um_Metadata p (md ! i)))"

text \<open>An error turned into a panic.\<close>

fun orPanic :: "'a res \<Rightarrow> 'a res" where
  "orPanic (Inr x) = Inr x"
| "orPanic (Inl (Error e)) = Inl (Panic e)"
| "orPanic (Inl (Panic e)) = Inl (Panic e)"

definition GetMetadataFromBlockOrPanic :: "proto_lib \<Rightarrow> Block \<Rightarrow> nat \<Rightarrow> ProtoMetadata res" where
  "GetMetadataFromBlockOrPanic p block i = orPanic (GetMetadataFromBlock p block i)"

definition GetConsenterMetadataFromBlock :: "proto_lib \<Rightarrow> Block \<Rightarrow> ProtoMetadata res" where
  "GetConsenterMetadataFromBlock p block =
     bindE (GetMetadataFromBlock p block BlockMetadataIndex_SIGNATURES) (\<lambda>m.
     if pm_Value m = [] then GetMetadataFromBlock p block BlockMetadataIndex_ORDERER
     else bindE (unmarshal ''orderer block metadata'' (um_OrdererBlockMetadata p (pm_Value m))) (\<lambda>obm.
       unmarshal ''consenter metadata'' (um_Metadata p (obm_ConsenterMetadata obm))))"

definition GetLastConfigIndexFromBlock :: "proto_lib \<Rightarrow> Block \<Rightarrow> u64 res" where
  "GetLastConfigIndexFromBlock p block =
     bindE (GetMetadataFromBlock p block BlockMetadataIndex_SIGNATURES) (\<lambda>m.
     if pm_Value m = [] then
       bindE (GetMetadataFromBlock p block BlockMetadataIndex_LAST_CONFIG) (\<lambda>m.
       bindE (unmarshal ''LastConfig'' (um_LastConfig p (pm_Value m))) (\<lambda>lc. Inr (lcfg_Index lc)))
     else bindE (unmarshal ''orderer block metadata'' (um_OrdererBlockMetadata p (pm_Value m))) (\<lambda>obm.
       bindE (deref (obm_LastConfig obm)) (\<lambda>lc. Inr (lcfg_Index lc))))"

definition GetLastConfigIndexFromBlockOrPanic :: "proto_lib \<Rightarrow> Block \<Rightarrow> u64 res" where
  "GetLastConfigIndexFromBlockOrPanic p block = orPanic (GetLastConfigIndexFromBlock p block)"

definition InitBlockMetadata :: "Block \<Rightarrow> Block" where
  "InitBlockMetadata block =
     (case b_Metadata block of
        None \<Rightarrow> block\<lparr>b_Metadata := Some (replicate 9 [])\<rparr>
      | Some md \<Rightarrow>
          if length md < BlockMetadataIndex_SPARSE_TXN_FILTER + 1
          then block\<lparr>b_Metadata := Some (md @ replicate (BlockMetadataIndex_SPARSE_TXN_FILTER + 1 - length md) [])\<rparr>
          else block)"

text \<open>
  The two blocks share the metadata afterwards, so filling up the slots of the destination fills up
  those of the source, unless the source has no metadata at all. The result is the source and the
  destination.
\<close>

definition CopyBlockMetadata :: "Block \<Rightarrow> Block \<Rightarrow> Block \<times> Block" where
  "CopyBlockMetadata src dst =
     (let dst' = InitBlockMetadata (dst\<lparr>b_Metadata := b_Metadata src\<rparr>) in
      (if b_Metadata src = None then src else src\<lparr>b_Metadata := b_Metadata dst'\<rparr>, dst'))"

definition VerifyTransactionsAreWellFormed :: "Block option \<Rightarrow> unit res" where
  "VerifyTransactionsAreWellFormed block =
     (case Option.bind block b_Data of
        Some (_ # _) \<Rightarrow> Inr ()
      | _ \<Rightarrow> Inl (Error ''empty block''))"

section \<open>Conversion to the lite format\<close>

definition GetCommonEndorsement :: "proto_lib \<Rightarrow> Endorsement \<Rightarrow> LtxEndorsement" where
  "GetCommonEndorsement p pEnd =
     \<lparr>le_Endorser = fst (um_SerializedIdentity p (e_Endorser pEnd)), le_Signature = e_Signature pEnd\<rparr>"

definition GetEndorsementsForLightTxn :: "proto_lib \<Rightarrow> Endorsement list \<Rightarrow> LtxEndorsement list" where
  "GetEndorsementsForLightTxn p endorsements = map (GetCommonEndorsement p) endorsements"

definition GetCommonEndorsements :: "proto_lib \<Rightarrow> Endorsement list \<Rightarrow> LtxEndorsement list res" where
  "GetCommonEndorsements p endorsements =
     mapE (\<lambda>e. bindE (unmarshal ''SerializedIdentity'' (um_SerializedIdentity p (e_Endorser e)))
       (\<lambda>identity. Inr \<lparr>le_Endorser = identity, le_Signature = e_Signature e\<rparr>)) endorsements"

text \<open>
  The read-write sets. Lite and full messages share the records of versions, reads and writes, so
  copying them field by field is the identity; range queries and metadata writes are not copied.
\<close>

definition getHRWSet :: "HashedRWSet \<Rightarrow> LtxHashedRWSet" where
  "getHRWSet hrwset =
     \<lparr>lh_HashedReads = map (\<lambda>rd. \<lparr>rh_KeyHash = rh_KeyHash rd, rh_Version = rh_Version rd\<rparr>) (HashedReads hrwset),
      lh_HashedWrites = map (\<lambda>wr. \<lparr>lwh_KeyHash = wh_KeyHash wr, lwh_IsDelete = wh_IsDelete wr,
        lwh_ValueHash = wh_ValueHash wr\<rparr>) (HashedWrites hrwset),
      lh_MetadataWrites = []\<rparr>"

definition getCollHRWSet :: "CollHashedRwSet \<Rightarrow> LtxCollectionHashedRwset" where
  "getCollHRWSet hrwset =
     \<lparr>lc_CollectionName = ch_CollectionName hrwset, lc_HashedRwset = Some (getHRWSet (HashedRwSet hrwset)),
      lc_PvtRwsetHash = PvtRwSetHash hrwset\<rparr>"

definition GetKVRWSet :: "KVRWSet \<Rightarrow> KVRWSet" where
  "GetKVRWSet rwset =
     \<lparr>Reads = map (\<lambda>rd. \<lparr>r_Key = r_Key rd, r_Version = r_Version rd\<rparr>) (Reads rwset), RangeQueriesInfo = [],
      Writes = map (\<lambda>wr. \<lparr>w_Key = w_Key wr, w_IsDelete = w_IsDelete wr, w_Value = w_Value wr\<rparr>) (Writes rwset),
      MetadataWrites = []\<rparr>"

definition GetNSForLT :: "NsRwSet \<Rightarrow> LtxNsReadWriteSet" where
  "GetNSForLT ns =
     \<lparr>ln_Namespace = NameSpace ns, ln_Rwset = Some (GetKVRWSet (KvRwSet ns)),
      ln_CollectionHashedRwset = map getCollHRWSet (CollHashedRwSets ns)\<rparr>"

definition GettxRWSetForLightTxn :: "TxRwSet \<Rightarrow> LtxReadWriteSet" where
  "GettxRWSetForLightTxn txRWSet = \<lparr>lt_NsRwset = map GetNSForLT (NsRwSets txRWSet)\<rparr>"

text \<open>The unexported copy of that function that the conversion of actions calls.\<close>

definition gettxRWSetForLightTxn :: "TxRwSet \<Rightarrow> LtxReadWriteSet res" where
  "gettxRWSetForLightTxn txRWSet = Inr \<lparr>lt_NsRwset = map GetNSForLT (NsRwSets txRWSet)\<rparr>"

text \<open>The error of unmarshalling the events is ignored.\<close>

definition GetChaincodeActionForLightTxn :: "proto_codec \<Rightarrow> proto_lib \<Rightarrow> ChaincodeAction \<Rightarrow> LtxChaincodeAction res" where
  "GetChaincodeActionForLightTxn pc p ca =
     (case TxRwSet_FromProtoBytes pc (ca_Results ca) \<lparr>NsRwSets = []\<rparr> of
        Inl _ \<Rightarrow> Inl (Error ''The transaction is rejected as the respPayload couldnt be unmarshalled'')
      | Inr txRWSet \<Rightarrow>
          bindE (gettxRWSetForLightTxn txRWSet) (\<lambda>cTxRWSet.
          bindE (deref (ca_ChaincodeId ca)) (\<lambda>ccid.
            Inr \<lparr>la_Results = cTxRWSet, la_Events = fst (um_ChaincodeEvent p (ca_Events ca)), la_ChaincodeId = ccid\<rparr>)))"

definition GetProposalResponsePayloadForLightTxn ::
  "proto_codec \<Rightarrow> proto_lib \<Rightarrow> ProposalResponsePayload \<Rightarrow> LtxProposalResponsePayload res" where
  "GetProposalResponsePayloadForLightTxn pc p prp =
     bindE (unmarshal ''ChaincodeAction'' (um_ChaincodeAction p (content (prp_Extension prp)))) (\<lambda>peerCcodeAction.
     bindE (GetChaincodeActionForLightTxn pc p peerCcodeAction) (\<lambda>chaincodeAction.
       Inr \<lparr>lp_ProposalHash = prp_ProposalHash prp, lp_Extension = chaincodeAction\<rparr>))"

definition GetChaincodeEndorsedAction ::
  "proto_codec \<Rightarrow> proto_lib \<Rightarrow> Endorsement list \<Rightarrow> gobytes \<Rightarrow> LtxChaincodeEndorsedAction res" where
  "GetChaincodeEndorsedAction pc p endorsements prpBytes =
     bindE (unmarshal ''ProposalResponsePayload'' (um_ProposalResponsePayload p (content prpBytes))) (\<lambda>pRespPayload.
     bindE (GetProposalResponsePayloadForLightTxn pc p pRespPayload) (\<lambda>lPrp.
       Inr \<lparr>lea_ProposalResponsePayload = lPrp, lea_Endorsements = GetEndorsementsForLightTxn p endorsements\<rparr>))"

definition UnmarshalLightTransaction :: "proto_codec \<Rightarrow> proto_lib \<Rightarrow> bytes \<Rightarrow> LtxChaincodeEndorsedAction res" where
  "UnmarshalLightTransaction pc p txBytes =
     bindE (unmarshal ''Transaction'' (um_Transaction p txBytes)) (\<lambda>tx.
     bindE (index (t_Actions tx) 0) (\<lambda>action.
     bindE (unmarshal ''ChaincodeActionPayload'' (um_ChaincodeActionPayload p action)) (\<lambda>tx1.
     bindE (deref (cap_Action tx1)) (\<lambda>a.
       GetChaincodeEndorsedAction pc p (ea_Endorsements a) (ea_ProposalResponsePayload a)))))"

definition GetLiteHeader :: "proto_lib \<Rightarrow> MessageHeader option \<Rightarrow> LightHeader res" where
  "GetLiteHeader p h =
     bindE (deref h) (\<lambda>hdr.
     bindE (unmarshal ''SignatureHeader'' (um_SignatureHeader p (hdr_SignatureHeader hdr))) (\<lambda>shdr.
     bindE (unmarshal ''ChannelHeader'' (um_ChannelHeader p (hdr_ChannelHeader hdr))) (\<lambda>chdr.
       Inr \<lparr>lhdr_ChannelHeader = chdr, lhdr_SignatureHeader = shdr\<rparr>)))"

text \<open>
  When the payload does not parse, its header is skipped and the error overwritten; what was parsed of
  the payload is used further.
\<close>

definition GetLightEnvFromCommonEnv :: "proto_codec \<Rightarrow> proto_lib \<Rightarrow> Envelope \<Rightarrow> LEnvelope res" where
  "GetLightEnvFromCommonEnv pc p txnEnv =
     (let (payload, ok) = um_Payload p (env_Payload txnEnv) in
      bindE (if ok then bindE (GetLiteHeader p (pl_Header payload)) (\<lambda>h. Inr (Some h)) else Inr None) (\<lambda>txnHdr.
      bindE (UnmarshalLightTransaction pc p (pl_Data payload)) (\<lambda>txn.
        Inr \<lparr>lenv_Header = txnHdr, lenv_Data = txn\<rparr>)))"

definition GetLeanEnvFromCommonEnv :: "proto_codec \<Rightarrow> proto_lib \<Rightarrow> Envelope \<Rightarrow> LeanEnvelope res" where
  "GetLeanEnvFromCommonEnv pc p txnEnv =
     bindE (GetLightEnvFromCommonEnv pc p txnEnv) (\<lambda>lightEnv.
     bindE (deref (lenv_Header lightEnv)) (\<lambda>hdr.
     let sh = lhdr_SignatureHeader hdr; ch = lhdr_ChannelHeader hdr; prp = lea_ProposalResponsePayload (lenv_Data lightEnv) in
     Inr \<lparr>lean_ChannelId = chdr_ChannelId ch, lean_TxId = chdr_TxId ch, lean_ShardId = chdr_ShardId ch,
          lean_OrgsInvolved = chdr_OrgsInvolved ch, lean_Nonce = shdr_Nonce sh, lean_TlsCertHash = chdr_TlsCertHash ch,
          lean_Results = Some (la_Results (lp_Extension prp)),
          lean_Meta = Some \<lparr>meta_SignatureHeader = sh, meta_ChaincodeID = la_ChaincodeId (lp_Extension prp),
            meta_Endorsements = lea_Endorsements (lenv_Data lightEnv), meta_ProposalHash = lp_ProposalHash prp,
            meta_Events = la_Events (lp_Extension prp)\<rparr>\<rparr>))"

section \<open>Properties\<close>

lemma InitBlockMetadata_md:
  "b_Metadata (InitBlockMetadata blk) = Some (case b_Metadata blk of None \<Rightarrow> replicate 9 []
     | Some md \<Rightarrow> md @ replicate (9 - length md) [])"
  by (auto simp: InitBlockMetadata_def index_defs split: option.splits)

lemma InitBlockMetadata_rest [simp]:
  "b_Header (InitBlockMetadata blk) = b_Header blk" "b_Data (InitBlockMetadata blk) = b_Data blk"
  by (auto simp: InitBlockMetadata_def split: option.splits)




section \<open>Shared by the clients\<close>

lemma deref_Inr_iff [go_res]: "deref x = Inr y \<longleftrightarrow> x = Some y"
  by (cases x) auto

text \<open>A library in which all bytes parse as the same message.\<close>

definition sample_proto :: proto_lib where
  "sample_proto =
     \<lparr>um_Envelope = (\<lambda>_. (\<lparr>env_Payload = [], env_Signature = [], env_Type = 3, env_LeanEnv = None\<rparr>, True)),
      um_Payload = (\<lambda>_. (\<lparr>pl_Header = Some \<lparr>hdr_ChannelHeader = [], hdr_SignatureHeader = []\<rparr>, pl_Data = []\<rparr>, True)),
      um_ChannelHeader = (\<lambda>_. (\<lparr>chdr_Type = 3, chdr_ChannelId = ''ch'', chdr_TxId = ''t'', chdr_TlsCertHash = [], chdr_ShardId = 0,
        chdr_OrgsInvolved = []\<rparr>, True)),
      um_SignatureHeader = (\<lambda>_. (\<lparr>shdr_Creator = [], shdr_Nonce = []\<rparr>, True)),
      um_Transaction = (\<lambda>_. (\<lparr>t_Actions = [[]]\<rparr>, True)),
      um_ChaincodeActionPayload = (\<lambda>_. (\<lparr>cap_Action = Some \<lparr>ea_ProposalResponsePayload = Some [], ea_Endorsements = []\<rparr>\<rparr>, True)),
      um_ProposalResponsePayload = (\<lambda>_. (\<lparr>prp_ProposalHash = [], prp_Extension = Some []\<rparr>, True)),
      um_ChaincodeAction = (\<lambda>_. (\<lparr>ca_Results = [], ca_Events = [], ca_ChaincodeId = None\<rparr>, True)),
      um_ChaincodeEvent = (\<lambda>_. (\<lparr>ev_ChaincodeId = [], ev_TxId = [], ev_EventName = [], ev_Payload = []\<rparr>, True)),
      um_SerializedIdentity = (\<lambda>_. (\<lparr>si_Mspid = [], si_IdBytes = []\<rparr>, True)),
      um_Metadata = (\<lambda>_. (\<lparr>pm_Value = []\<rparr>, True)), um_LastConfig = (\<lambda>_. (\<lparr>lcfg_Index = 0\<rparr>, True)),
      um_OrdererBlockMetadata = (\<lambda>_. (\<lparr>obm_LastConfig = None, obm_ConsenterMetadata = []\<rparr>, True)),
      um_Block = (\<lambda>_. (NewBlock 0 [], True))\<rparr>"

end
