(* ===== verification/BatchPreparer.thy ===== *)
theory BatchPreparer
  imports LiteValidator ProtoUtil
begin

text \<open>
  Preparing the updates of a block for commit
  (core/ledger/kvledger/txmgmt/validation/batch_preparer.go and batch_preparer_adapter.go): parsing
  the block, validating its transactions, checking the private data against the hashes in the
  public read-write sets and collecting the private updates, and writing the verdicts back into the
  block. Shown: what the private part of the updates is, which verdicts end up in the block, and
  what the conversion of a transaction to the lite format leaves out of validation.
\<close>

section \<open>The interfaces used\<close>

text \<open>
  Transactions that are not endorsed are executed after ordering by a processor registered for their
  type, on a simulator of the transaction manager. \<open>'sim\<close> is the state of a simulator. The processor
  may reject the transaction, which is not an error of the ledger.
\<close>

datatype process_error = InvalidTxError string | ProcessError goerr

type_synonym 'sim CustomTxProcessor = "Envelope \<Rightarrow> 'sim \<Rightarrow> bool \<Rightarrow> process_error + 'sim"

record 'sim preparer_env =
  pe_libs :: ltx_libs
  pe_codec :: proto_codec
  pe_proto :: proto_lib
  pe_um_SparseTxnFilter :: "bytes \<Rightarrow> SparseTxnFilterProto \<times> bool"
  pe_NewTxSimulator :: "gostring \<Rightarrow> 'sim res"
  pe_GetTxSimulationResults :: "'sim \<Rightarrow> TxSimulationResults res"
  pe_customTxProcessors :: "(HeaderType, 'sim CustomTxProcessor) gomap"

abbreviation pe_ComputeHash :: "'sim preparer_env \<Rightarrow> bytes \<Rightarrow> bytes" where
  "pe_ComputeHash e \<equiv> lib_ComputeHash (pe_libs e)"

record TxStatInfo =
  ts_TxIDFromChannelHeader :: gostring
  ts_ValidationCode :: TxValidationCode
  ts_TxType :: HeaderType
  ts_ChaincodeID :: "ChaincodeID option"
  ts_ChaincodeEventData :: bytes
  ts_NumCollections :: nat

record TxPvtData =
  pd_SeqInBlock :: u64
  pd_WriteSet :: "TxPvtReadWriteSet option"

type_synonym TxPvtDataMap = "(u64, TxPvtData) gomap"

section \<open>Parsing the block\<close>

text \<open>An error of the code is \<open>Inl (Error _)\<close>; the caller continues without a filter then.\<close>

definition extractSparseFilter :: "'sim preparer_env \<Rightarrow> Block \<Rightarrow> SparseTxnFilterProto res" where
  "extractSparseFilter e blk =
     bindE (deref (b_Header blk)) (\<lambda>header.
     if bh_Number header = 0 then Inr \<lparr>FatBlockNumber = 0, TxnInfoList = []\<rparr>
     else bindE (deref (b_Metadata blk)) (\<lambda>md.
       if length md \<le> BlockMetadataIndex_SPARSE_TXN_FILTER then Inl (Error ''sparseTxnfilter not present in metdata'')
       else bindE (unmarshal ''Metadata'' (um_Metadata (pe_proto e) (md ! BlockMetadataIndex_SPARSE_TXN_FILTER))) (\<lambda>m.
         bindE (unmarshal ''SparseTxnFilter'' (pe_um_SparseTxnFilter e (pm_Value m))) (\<lambda>sparseTxnFilter.
           if TxnInfoList sparseTxnFilter = [] then Inl (Error ''empty txnInfo'') else Inr sparseTxnFilter))))"

text \<open>The filter of a block and whether there is one.\<close>

fun filterOrNone :: "SparseTxnFilterProto res \<Rightarrow> (SparseTxnFilterProto \<times> bool) res" where
  "filterOrNone (Inr f) = Inr (f, True)"
| "filterOrNone (Inl (Error _)) = Inr (\<lparr>FatBlockNumber = 0, TxnInfoList = []\<rparr>, False)"
| "filterOrNone (Inl (Panic p)) = Inl (Panic p)"

text \<open>The flags are a slot of the block's metadata; writing a flag writes the block.\<close>

definition txsFilter :: "Block \<Rightarrow> ValidationFlags res" where
  "txsFilter blk = bindE (deref (b_Metadata blk)) (\<lambda>md. index md BlockMetadataIndex_TRANSACTIONS_FILTER)"

definition setTxsFilter :: "ValidationFlags \<Rightarrow> Block \<Rightarrow> Block" where
  "setTxsFilter flags blk =
     blk\<lparr>b_Metadata := map_option (\<lambda>md. md[BlockMetadataIndex_TRANSACTIONS_FILTER := flags]) (b_Metadata blk)\<rparr>"

definition processNonEndorserTx ::
  "'sim preparer_env \<Rightarrow> Envelope \<Rightarrow> gostring \<Rightarrow> HeaderType \<Rightarrow> bool \<Rightarrow> process_error + TxReadWriteSet option" where
  "processNonEndorserTx e txEnv txid txType synchingState =
     (case map_of (pe_customTxProcessors e) txType of None \<Rightarrow> Inr None
      | Some processor \<Rightarrow>
          (case pe_NewTxSimulator e txid of Inl err \<Rightarrow> Inl (ProcessError err)
           | Inr sim \<Rightarrow>
               (case processor txEnv sim synchingState of Inl err \<Rightarrow> Inl err
                | Inr sim' \<Rightarrow>
                    (case pe_GetTxSimulationResults e sim' of Inl err \<Rightarrow> Inl (ProcessError err)
                     | Inr simRes \<Rightarrow> Inr (Some (PubSimulationResults simRes))))))"

definition validateWriteset :: "TxRwSet \<Rightarrow> (gostring \<Rightarrow> gobytes \<Rightarrow> unit res) \<Rightarrow> unit res" where
  "validateWriteset txRWSet validateKVFunc =
     foldE (\<lambda>nsRwSet. foldE (\<lambda>kvwrite _. validateKVFunc (w_Key kvwrite) (w_Value kvwrite)) (Writes (KvRwSet nsRwSet)))
       (NsRwSets txRWSet) ()"

text \<open>
  The first half of the loop body: the header of a transaction and its read-write set. A transaction
  is dropped with a flag (the code continues with the next one), kept with a read-write set and
  whether that comes from a processor, or skipped without one; an error ends the loop.
\<close>

datatype parsed_tx = Dropped TxValidationCode | Kept TxRwSet bool | NoRWSet

definition parseHeader :: "'sim preparer_env \<Rightarrow> bytes \<Rightarrow> (Envelope \<times> ChannelHeader) res" where
  "parseHeader e envBytes =
     bindE (GetEnvelopeFromBlock (pe_proto e) envBytes) (\<lambda>env.
     bindE (unmarshal ''Payload'' (um_Payload (pe_proto e) (env_Payload env))) (\<lambda>payload.
     bindE (deref (pl_Header payload)) (\<lambda>h.
     bindE (unmarshal ''ChannelHeader'' (um_ChannelHeader (pe_proto e) (hdr_ChannelHeader h))) (\<lambda>chdr. Inr (env, chdr)))))"

definition parseEndorserTx :: "'sim preparer_env \<Rightarrow> bytes \<Rightarrow> TxStatInfo \<Rightarrow> (parsed_tx \<times> TxStatInfo) res" where
  "parseEndorserTx e envBytes stat =
     (case GetActionFromEnvelope (pe_proto e) envBytes of
        Inl (Panic p) \<Rightarrow> Inl (Panic p)
      | Inl (Error _) \<Rightarrow> Inr (Dropped TxValidationCode_NIL_TXACTION, stat)
      | Inr respPayload \<Rightarrow>
          (let stat = stat\<lparr>ts_ChaincodeID := ca_ChaincodeId respPayload, ts_ChaincodeEventData := ca_Events respPayload\<rparr> in
           case TxRwSet_FromProtoBytes (pe_codec e) (ca_Results respPayload) \<lparr>NsRwSets = []\<rparr> of
             Inl (Panic p) \<Rightarrow> Inl (Panic p)
           | Inl (Error _) \<Rightarrow> Inr (Dropped TxValidationCode_INVALID_OTHER_REASON, stat)
           | Inr txRWSet \<Rightarrow> Inr (Kept txRWSet False, stat)))"

definition parseOtherTx :: "'sim preparer_env \<Rightarrow> bool \<Rightarrow> Envelope \<Rightarrow> ChannelHeader \<Rightarrow> parsed_tx res" where
  "parseOtherTx e doMVCCValidation env chdr =
     (case processNonEndorserTx e env (chdr_TxId chdr) (chdr_Type chdr) (\<not> doMVCCValidation) of
        Inl (InvalidTxError _) \<Rightarrow> Inr (Dropped TxValidationCode_INVALID_OTHER_REASON)
      | Inl (ProcessError err) \<Rightarrow> Inl err
      | Inr None \<Rightarrow> Inr NoRWSet
      | Inr (Some rwsetProto) \<Rightarrow> bindE (TxRwSetFromProtoMsg (pe_codec e) rwsetProto) (\<lambda>txRWSet. Inr (Kept txRWSet True)))"

text \<open>The loop body. The state is the transactions, the statistics and the flags so far.\<close>

type_synonym preprocess_state = "transaction list \<times> TxStatInfo list \<times> ValidationFlags"

definition preprocessTx ::
  "'sim preparer_env \<Rightarrow> (gostring \<Rightarrow> gobytes \<Rightarrow> unit res) \<Rightarrow> bool \<Rightarrow> nat \<times> bytes \<Rightarrow> preprocess_state \<Rightarrow> preprocess_state res" where
  "preprocessTx e validateKVFunc doMVCCValidation = (\<lambda>(txIndex, envBytes) (txs, stats, flags).
     bindE (parseHeader e envBytes) (\<lambda>(env, chdr).
     let stat = \<lparr>ts_TxIDFromChannelHeader = chdr_TxId chdr, ts_ValidationCode = 0, ts_TxType = chdr_Type chdr,
           ts_ChaincodeID = None, ts_ChaincodeEventData = [], ts_NumCollections = 0\<rparr> in
     bindE (if chdr_Type chdr = HeaderType_ENDORSER_TRANSACTION then parseEndorserTx e envBytes stat
            else bindE (parseOtherTx e doMVCCValidation env chdr) (\<lambda>parsed. Inr (parsed, stat))) (\<lambda>(parsed, stat).
     case parsed of
       Dropped code \<Rightarrow> bindE (SetFlag txIndex code flags) (\<lambda>flags. Inr (txs, stats @ [stat], flags))
     | NoRWSet \<Rightarrow> Inr (txs, stats @ [stat], flags)
     | Kept txRWSet containsPostOrderWrites \<Rightarrow>
         (let stat = stat\<lparr>ts_NumCollections := NumCollections (Some txRWSet)\<rparr> in
          case validateWriteset txRWSet validateKVFunc of
            Inl (Panic p) \<Rightarrow> Inl (Panic p)
          | Inl (Error _) \<Rightarrow> bindE (SetFlag txIndex TxValidationCode_INVALID_WRITESET flags) (\<lambda>flags. Inr (txs, stats @ [stat], flags))
          | Inr _ \<Rightarrow> bindE (Flag flags txIndex) (\<lambda>code.
              Inr (txs @ [\<lparr>tx_indexInBlock = txIndex, tx_id = chdr_TxId chdr, tx_rwset = txRWSet, tx_validationCode = code,
                     tx_containsPostOrderWrites = containsPostOrderWrites\<rparr>], stats @ [stat], flags))))))"

definition preprocessProtoBlock ::
  "'sim preparer_env \<Rightarrow> (gostring \<Rightarrow> gobytes \<Rightarrow> unit res) \<Rightarrow> Block \<Rightarrow> bool \<Rightarrow> (block \<times> TxStatInfo list \<times> Block) res" where
  "preprocessProtoBlock e validateKVFunc blk doMVCCValidation =
     bindE (filterOrNone (extractSparseFilter e blk)) (\<lambda>(sparseFilter, sparseFilterExist).
     bindE (deref (b_Header blk)) (\<lambda>header.
     bindE (txsFilter blk) (\<lambda>flags.
     bindE (deref (b_Data blk)) (\<lambda>data.
     bindE (foldE (preprocessTx e validateKVFunc doMVCCValidation) (enumerate 0 data) ([], [], flags)) (\<lambda>(txs, stats, flags).
       Inr (\<lparr>blk_num = bh_Number header, blk_txs = txs, sparseblockchainFilter = sparseFilter,
             sparseFilterExists = sparseFilterExist\<rparr>, stats, setTxsFilter flags blk))))))"

section \<open>Private data\<close>

definition requiresPvtdataValidation :: "TxPvtData \<Rightarrow> bool" where
  "requiresPvtdataValidation tx = True"

definition validatePvtdata :: "(bytes \<Rightarrow> bytes) \<Rightarrow> transaction \<Rightarrow> TxPvtData \<Rightarrow> unit res" where
  "validatePvtdata ComputeHash tx pvtdata =
     (case pd_WriteSet pvtdata of None \<Rightarrow> Inr ()
      | Some ws \<Rightarrow>
          foldE (\<lambda>nsPvtdata. foldE (\<lambda>collPvtdata _.
              if bytesEqual (Some (ComputeHash (cpp_Rwset collPvtdata)))
                   (retrieveHash tx (npp_Namespace nsPvtdata) (cpp_CollectionName collPvtdata))
              then Inr () else Inl (Error ''hash of pvt data for collection does not match with the corresponding hash in the public data''))
            (npp_CollectionPvtRwset nsPvtdata)) (tpp_NsPvtRwset ws) ())"

definition addPvtRWSetToPvtUpdateBatch :: "TxPvtRwSet \<Rightarrow> Height option \<Rightarrow> UpdateMap \<Rightarrow> UpdateMap res" where
  "addPvtRWSetToPvtUpdateBatch pvtRWSet ver =
     foldE (\<lambda>ns. foldE (\<lambda>coll. foldE (\<lambda>kvwrite b.
         if \<not> IsKVWriteDelete kvwrite
         then UpdateMap_Put (np_NameSpace ns) (cp_CollectionName coll) (w_Key kvwrite) (w_Value kvwrite) ver b
         else Inr (UpdateMap_Delete (np_NameSpace ns) (cp_CollectionName coll) (w_Key kvwrite) ver b))
       (Writes (cp_KvRwSet coll))) (CollPvtRwSets ns)) (NsPvtRwSets pvtRWSet)"

record collKey =
  cok_ns :: gostring
  cok_coll :: gostring
  cok_key :: gostring

type_synonym metadataUpdates = "(collKey, bool) gomap"

definition addEntriesToMetadataUpdates :: "TxPvtRwSet \<Rightarrow> metadataUpdates \<Rightarrow> metadataUpdates" where
  "addEntriesToMetadataUpdates pvtRWSet =
     fold (\<lambda>ns. fold (\<lambda>coll. fold (\<lambda>metadataWrite.
         AList.update \<lparr>cok_ns = np_NameSpace ns, cok_coll = cp_CollectionName coll, cok_key = mw_Key metadataWrite\<rparr> True)
       (MetadataWrites (cp_KvRwSet coll))) (CollPvtRwSets ns)) (NsPvtRwSets pvtRWSet)"

definition retrieveLatestVal ::
  "gostring \<Rightarrow> gostring \<Rightarrow> gostring \<Rightarrow> UpdateMap \<Rightarrow> ('s, 'b) DB \<Rightarrow> VersionedValue option res" where
  "retrieveLatestVal ns coll key pvtUpdateBatch db =
     (case UpdateMap_Get pvtUpdateBatch ns coll key of None \<Rightarrow> GetPrivateData db ns coll key | Some vv \<Rightarrow> Inr (Some vv))"

text \<open>The body of the loop over the keys with metadata writes.\<close>

definition incrementPvtdataVersion ::
  "(bytes \<Rightarrow> bytes) \<Rightarrow> publicAndHashUpdates \<Rightarrow> ('s, 'b) DB \<Rightarrow> collKey \<Rightarrow> UpdateMap \<Rightarrow> UpdateMap res" where
  "incrementPvtdataVersion ComputeHash pubAndHashUpdates db ck pvtUpdateBatch =
     (case UpdateMap_Get (hashUpdates pubAndHashUpdates) (cok_ns ck) (cok_coll ck) (ComputeHash (cok_key ck)) of
        None \<Rightarrow> Inr pvtUpdateBatch
      | Some hashedVal \<Rightarrow>
          bindE (retrieveLatestVal (cok_ns ck) (cok_coll ck) (cok_key ck) pvtUpdateBatch db) (\<lambda>latestVal.
          case latestVal of None \<Rightarrow> Inr pvtUpdateBatch
          | Some latestVal \<Rightarrow>
              if AreSame (vv_Version latestVal) (vv_Version hashedVal) then Inr pvtUpdateBatch
              else if bytesEqual (Some (ComputeHash (content (vv_Value latestVal)))) (vv_Value hashedVal)
              then UpdateMap_Put (cok_ns ck) (cok_coll ck) (cok_key ck) (vv_Value latestVal) (vv_Version hashedVal) pvtUpdateBatch
              else Inr pvtUpdateBatch))"

definition incrementPvtdataVersionIfNeeded ::
  "(bytes \<Rightarrow> bytes) \<Rightarrow> metadataUpdates \<Rightarrow> publicAndHashUpdates \<Rightarrow> ('s, 'b) DB \<Rightarrow> UpdateMap \<Rightarrow> UpdateMap res" where
  "incrementPvtdataVersionIfNeeded ComputeHash metadataUpdates pubAndHashUpdates db =
     foldE (incrementPvtdataVersion ComputeHash pubAndHashUpdates db) (map fst metadataUpdates)"

text \<open>The body of the loop over the transactions of a block.\<close>

definition preparePvtTx ::
  "'sim preparer_env \<Rightarrow> block \<Rightarrow> TxPvtDataMap \<Rightarrow> transaction \<Rightarrow> UpdateMap \<times> metadataUpdates \<Rightarrow> (UpdateMap \<times> metadataUpdates) res" where
  "preparePvtTx e blk pvtdata tx = (\<lambda>(pvtUpdates, metadataUpdates).
     if tx_validationCode tx \<noteq> TxValidationCode_VALID \<or> \<not> containsPvtWrites tx then Inr (pvtUpdates, metadataUpdates)
     else case map_of pvtdata (of_nat (tx_indexInBlock tx)) of None \<Rightarrow> Inr (pvtUpdates, metadataUpdates)
     | Some txPvtdata \<Rightarrow>
         bindE (if requiresPvtdataValidation txPvtdata then validatePvtdata (pe_ComputeHash e) tx txPvtdata else Inr ()) (\<lambda>_.
         bindE (deref (pd_WriteSet txPvtdata)) (\<lambda>ws.
         bindE (TxPvtRwSetFromProtoMsg (pe_codec e) ws) (\<lambda>pvtRWSet.
         bindE (addPvtRWSetToPvtUpdateBatch pvtRWSet (Some (NewHeight (blk_num blk) (of_nat (tx_indexInBlock tx)))) pvtUpdates)
           (\<lambda>pvtUpdates. Inr (pvtUpdates, addEntriesToMetadataUpdates pvtRWSet metadataUpdates))))))"

definition validateAndPreparePvtBatch ::
  "'sim preparer_env \<Rightarrow> block \<Rightarrow> ('s, 'b) DB \<Rightarrow> publicAndHashUpdates \<Rightarrow> TxPvtDataMap \<Rightarrow> UpdateMap res" where
  "validateAndPreparePvtBatch e blk db pubAndHashUpdates pvtdata =
     bindE (foldE (preparePvtTx e blk pvtdata) (blk_txs blk) ([], [])) (\<lambda>(pvtUpdates, metadataUpdates).
       incrementPvtdataVersionIfNeeded (pe_ComputeHash e) metadataUpdates pubAndHashUpdates db pvtUpdates)"

section \<open>The whole preparation\<close>

definition postprocessProtoBlock :: "block \<Rightarrow> Block \<Rightarrow> Block res" where
  "postprocessProtoBlock validatedBlock blk =
     bindE (txsFilter blk) (\<lambda>flags.
     bindE (foldE (\<lambda>tx. SetFlag (tx_indexInBlock tx) (tx_validationCode tx)) (blk_txs validatedBlock) flags) (\<lambda>flags.
       Inr (setTxsFilter flags blk)))"

text \<open>The final loop copies the flags into the statistics, one entry for each flag.\<close>

definition copyFlags :: "ValidationFlags \<Rightarrow> TxStatInfo list \<Rightarrow> TxStatInfo list res" where
  "copyFlags flags stats =
     foldE (\<lambda>(i, flag) stats. bindE (index stats i) (\<lambda>stat. Inr (stats[i := stat\<lparr>ts_ValidationCode := of_char flag\<rparr>])))
       (enumerate 0 flags) stats"

text \<open>
  The result has the updates, the purges and the statistics; the block with its flags and the
  preparer, whose database may have cached versions, are returned as well.
\<close>

record ('s, 'b) CommitBatchPreparer =
  cbp_db :: "('s, 'b) DB"
  cbp_hashFunc :: hash_func

abbreviation cbp_validator :: "('s, 'b) CommitBatchPreparer \<Rightarrow> ('s, 'b) validator" where
  "cbp_validator p \<equiv> \<lparr>v_db = cbp_db p, v_hashFunc = cbp_hashFunc p\<rparr>"

definition ValidateAndPrepareBatch ::
  "'sim preparer_env \<Rightarrow> Block \<Rightarrow> TxPvtDataMap \<Rightarrow> bool \<Rightarrow> ('s, 'b) CommitBatchPreparer \<Rightarrow>
   (PrivacyUpdateBatch \<times> AppInitiatedPurgeUpdate list \<times> TxStatInfo list \<times> Block \<times> ('s, 'b) CommitBatchPreparer) res" where
  "ValidateAndPrepareBatch e blk pvtdata doMVCCValidation p =
     bindE (preprocessProtoBlock e (vdb_ValidateKeyValue (db_VersionedDB (cbp_db p))) blk doMVCCValidation) (\<lambda>(internalBlock, stats, blk).
     bindE (validateAndPrepareBatch (libs.truncate (pe_libs e)) internalBlock doMVCCValidation (cbp_validator p))
       (\<lambda>(pubAndHashUpdates, purgeUpdates, internalBlock, v).
     bindE (validateAndPreparePvtBatch e internalBlock (v_db v) pubAndHashUpdates pvtdata) (\<lambda>pvtUpdates.
     bindE (postprocessProtoBlock internalBlock blk) (\<lambda>blk.
     bindE (txsFilter blk) (\<lambda>flags.
     bindE (copyFlags flags stats) (\<lambda>stats.
       Inr (\<lparr>PubUpdates = publicUpdates pubAndHashUpdates, HashUpdates = hashUpdates pubAndHashUpdates, PvtUpdates = pvtUpdates\<rparr>,
            purgeUpdates, stats, blk, p\<lparr>cbp_db := v_db v\<rparr>)))))))"

section \<open>Lite blocks\<close>

text \<open>
  The lean envelope of a transaction. When the conversion fails, the code reads the identifiers of
  the nil envelope before it looks at the error, and panics.
\<close>

definition leanEnvelope :: "'sim preparer_env \<Rightarrow> bytes \<Rightarrow> (HeaderType \<times> LeanEnvelope) res" where
  "leanEnvelope e envBytes =
     bindE (GetEnvelopeFromBlock (pe_proto e) envBytes) (\<lambda>env.
     bindE (case env_LeanEnv env of Some lean \<Rightarrow> Inr lean
            | None \<Rightarrow> (case GetLeanEnvFromCommonEnv (pe_codec e) (pe_proto e) env of
                Inl (Error _) \<Rightarrow> Inl (Panic ''nil pointer dereference'') | Inl (Panic p) \<Rightarrow> Inl (Panic p) | Inr lean \<Rightarrow> Inr lean)) (\<lambda>lean. Inr (env_Type env, lean)))"

type_synonym ltx_preprocess_state = "ltxTransaction option list \<times> TxStatInfo list"

definition preprocessLtx ::
  "'sim preparer_env \<Rightarrow> ValidationFlags \<Rightarrow> nat \<times> bytes \<Rightarrow> ltx_preprocess_state \<Rightarrow> ltx_preprocess_state res" where
  "preprocessLtx e flags = (\<lambda>(txIndex, envBytes) (txs, stats).
     bindE (leanEnvelope e envBytes) (\<lambda>(txType, leanenv).
     bindE (deref (lean_Meta leanenv)) (\<lambda>meta.
     let stat = \<lparr>ts_TxIDFromChannelHeader = lean_TxId leanenv, ts_ValidationCode = 0, ts_TxType = txType,
           ts_ChaincodeID = Some (meta_ChaincodeID meta), ts_ChaincodeEventData = [], ts_NumCollections = 0\<rparr> in
     bindE (Flag flags txIndex) (\<lambda>txnValidationCode.
     case lean_Results leanenv of None \<Rightarrow> Inr (txs @ [None], stats @ [stat])
     | Some txRWSet \<Rightarrow>
         Inr (txs @ [Some \<lparr>ltx_indexInBlock = txIndex, ltx_id = lean_TxId leanenv, ltx_rwset = txRWSet,
                ltx_validationCode = txnValidationCode, ltx_containsPostOrderWrites = False, ltx_channelId = lean_ChannelId leanenv\<rparr>],
              stats @ [stat\<lparr>ts_NumCollections := length (lt_NsRwset txRWSet)\<rparr>])))))"

definition preprocessLtxProtoBlock :: "'sim preparer_env \<Rightarrow> Block \<Rightarrow> (ltxBlock \<times> TxStatInfo list) res" where
  "preprocessLtxProtoBlock e blk =
     bindE (filterOrNone (extractSparseFilter e blk)) (\<lambda>(sparseFilter, sparseFilterExist).
     bindE (deref (b_Header blk)) (\<lambda>header.
     bindE (deref (b_Data blk)) (\<lambda>data.
     bindE (txsFilter blk) (\<lambda>flags.
     bindE (foldE (preprocessLtx e flags) (enumerate 0 data) ([], [])) (\<lambda>(txs, stats).
       Inr (\<lparr>lblk_num = bh_Number header, lblk_txs = txs, lblk_filter = sparseFilter,
             lblk_filterExists = sparseFilterExist\<rparr>, stats))))))"

definition validateLtxPvtdata :: "(bytes \<Rightarrow> bytes) \<Rightarrow> ltxTransaction \<Rightarrow> TxPvtData \<Rightarrow> unit res" where
  "validateLtxPvtdata ComputeHash tx pvtdata =
     (case pd_WriteSet pvtdata of None \<Rightarrow> Inr ()
      | Some ws \<Rightarrow>
          foldE (\<lambda>nsPvtdata. foldE (\<lambda>collPvtdata _.
              if bytesEqual (Some (ComputeHash (cpp_Rwset collPvtdata)))
                   (ltx_retrieveHash tx (npp_Namespace nsPvtdata) (cpp_CollectionName collPvtdata))
              then Inr () else Inl (Error ''hash of pvt data for collection does not match with the corresponding hash in the public data''))
            (npp_CollectionPvtRwset nsPvtdata)) (tpp_NsPvtRwset ws) ())"

definition prepareLtxPvtTx ::
  "'sim preparer_env \<Rightarrow> ltxBlock \<Rightarrow> TxPvtDataMap \<Rightarrow> ltxTransaction option \<Rightarrow> UpdateMap \<times> metadataUpdates \<Rightarrow>
   (UpdateMap \<times> metadataUpdates) res" where
  "prepareLtxPvtTx e blk pvtdata mtx = (\<lambda>(pvtUpdates, metadataUpdates).
     bindE (deref mtx) (\<lambda>tx.
     if ltx_validationCode tx \<noteq> TxValidationCode_VALID \<or> \<not> ltx_containsPvtWrites tx then Inr (pvtUpdates, metadataUpdates)
     else case map_of pvtdata (of_nat (ltx_indexInBlock tx)) of None \<Rightarrow> Inr (pvtUpdates, metadataUpdates)
     | Some txPvtdata \<Rightarrow>
         bindE (if requiresPvtdataValidation txPvtdata then validateLtxPvtdata (pe_ComputeHash e) tx txPvtdata else Inr ()) (\<lambda>_.
         bindE (deref (pd_WriteSet txPvtdata)) (\<lambda>ws.
         bindE (TxPvtRwSetFromProtoMsg (pe_codec e) ws) (\<lambda>pvtRWSet.
         bindE (addPvtRWSetToPvtUpdateBatch pvtRWSet (Some (NewHeight (lblk_num blk) (of_nat (ltx_indexInBlock tx)))) pvtUpdates)
           (\<lambda>pvtUpdates. Inr (pvtUpdates, addEntriesToMetadataUpdates pvtRWSet metadataUpdates)))))))"

definition validateAndPrepareLtxPvtBatch ::
  "'sim preparer_env \<Rightarrow> ltxBlock \<Rightarrow> ('s, 'b) DB \<Rightarrow> publicAndHashUpdates \<Rightarrow> TxPvtDataMap \<Rightarrow> UpdateMap res" where
  "validateAndPrepareLtxPvtBatch e blk db pubAndHashUpdates pvtdata =
     bindE (foldE (prepareLtxPvtTx e blk pvtdata) (lblk_txs blk) ([], [])) (\<lambda>(pvtUpdates, metadataUpdates).
       incrementPvtdataVersionIfNeeded (pe_ComputeHash e) metadataUpdates pubAndHashUpdates db pvtUpdates)"

definition postprocessLtxProtoBlock :: "ltxBlock \<Rightarrow> Block \<Rightarrow> Block res" where
  "postprocessLtxProtoBlock validatedBlock blk =
     bindE (txsFilter blk) (\<lambda>flags.
     bindE (foldE (\<lambda>mtx flags. bindE (deref mtx) (\<lambda>tx. SetFlag (ltx_indexInBlock tx) (ltx_validationCode tx) flags))
         (lblk_txs validatedBlock) flags) (\<lambda>flags.
       Inr (setTxsFilter flags blk)))"

definition ValidateAndPrepareBatchLtx ::
  "'sim preparer_env \<Rightarrow> Block \<Rightarrow> TxPvtDataMap \<Rightarrow> bool \<Rightarrow> ('s, 'b) CommitBatchPreparer \<Rightarrow>
   (PrivacyUpdateBatch \<times> AppInitiatedPurgeUpdate list \<times> TxStatInfo list \<times> Block \<times> ('s, 'b) CommitBatchPreparer) res" where
  "ValidateAndPrepareBatchLtx e blk pvtdata doMVCCValidation p =
     bindE (preprocessLtxProtoBlock e blk) (\<lambda>(internalBlock, stats).
     bindE (validateAndPrepareLtxBatch (pe_libs e) internalBlock doMVCCValidation (cbp_validator p))
       (\<lambda>(pubAndHashUpdates, purgeUpdates, internalBlock, v).
     bindE (validateAndPrepareLtxPvtBatch e internalBlock (v_db v) pubAndHashUpdates pvtdata) (\<lambda>pvtUpdates.
     bindE (postprocessLtxProtoBlock internalBlock blk) (\<lambda>blk.
     bindE (txsFilter blk) (\<lambda>flags.
     bindE (copyFlags flags stats) (\<lambda>stats.
       Inr (\<lparr>PubUpdates = publicUpdates pubAndHashUpdates, HashUpdates = hashUpdates pubAndHashUpdates, PvtUpdates = pvtUpdates\<rparr>,
            purgeUpdates, stats, blk, p\<lparr>cbp_db := v_db v\<rparr>)))))))"

section \<open>The private updates of a block\<close>

type_synonym pvt_key = "gostring \<times> gostring \<times> gostring"

definition pvt_value :: "Height option \<Rightarrow> KVWrite \<Rightarrow> VersionedValue" where
  "pvt_value ver w = \<lparr>vv_Value = (if IsKVWriteDelete w then None else w_Value w), vv_Metadata = None, vv_Version = ver\<rparr>"

text \<open>The writes and the keys with metadata writes of a private set.\<close>

definition pvt_set_writes :: "Height option \<Rightarrow> TxPvtRwSet \<Rightarrow> (pvt_key \<times> VersionedValue) list" where
  "pvt_set_writes ver s = concat (map (\<lambda>ns. concat (map (\<lambda>coll. map (\<lambda>w.
     ((np_NameSpace ns, cp_CollectionName coll, w_Key w), pvt_value ver w)) (Writes (cp_KvRwSet coll))) (CollPvtRwSets ns))) (NsPvtRwSets s))"

definition pvt_set_metadata :: "TxPvtRwSet \<Rightarrow> collKey list" where
  "pvt_set_metadata s = concat (map (\<lambda>ns. concat (map (\<lambda>coll. map (\<lambda>m.
     \<lparr>cok_ns = np_NameSpace ns, cok_coll = cp_CollectionName coll, cok_key = mw_Key m\<rparr>) (MetadataWrites (cp_KvRwSet coll)))
     (CollPvtRwSets ns))) (NsPvtRwSets s))"

text \<open>The private set a transaction contributes, if it is valid and its private data is there.\<close>

definition pvt_tx_set :: "'sim preparer_env \<Rightarrow> TxPvtDataMap \<Rightarrow> transaction \<Rightarrow> TxPvtRwSet option" where
  "pvt_tx_set e pvtdata tx =
     (if tx_validationCode tx = TxValidationCode_VALID \<and> containsPvtWrites tx then
        (case map_of pvtdata (of_nat (tx_indexInBlock tx)) of None \<Rightarrow> None
         | Some d \<Rightarrow> (case pd_WriteSet d of None \<Rightarrow> None
             | Some ws \<Rightarrow> (case TxPvtRwSetFromProtoMsg (pe_codec e) ws of Inl _ \<Rightarrow> None | Inr s \<Rightarrow> Some s)))
      else None)"

definition block_pvt_writes :: "'sim preparer_env \<Rightarrow> u64 \<Rightarrow> TxPvtDataMap \<Rightarrow> transaction list \<Rightarrow> (pvt_key \<times> VersionedValue) list" where
  "block_pvt_writes e num pvtdata txs = concat (map (\<lambda>tx. case pvt_tx_set e pvtdata tx of None \<Rightarrow> []
     | Some s \<Rightarrow> pvt_set_writes (Some (NewHeight num (of_nat (tx_indexInBlock tx)))) s) txs)"

definition block_pvt_metadata :: "'sim preparer_env \<Rightarrow> TxPvtDataMap \<Rightarrow> transaction list \<Rightarrow> collKey list" where
  "block_pvt_metadata e pvtdata txs = concat (map (\<lambda>tx. case pvt_tx_set e pvtdata tx of None \<Rightarrow> []
     | Some s \<Rightarrow> pvt_set_metadata s) txs)"

text \<open>The private data of a transaction match the hashes in its public read-write set.\<close>

definition pvt_hashes_match :: "'sim preparer_env \<Rightarrow> TxPvtDataMap \<Rightarrow> transaction \<Rightarrow> bool" where
  "pvt_hashes_match e pvtdata tx \<longleftrightarrow> (\<forall>d. tx_validationCode tx = TxValidationCode_VALID \<longrightarrow> containsPvtWrites tx \<longrightarrow>
     map_of pvtdata (of_nat (tx_indexInBlock tx)) = Some d \<longrightarrow>
     (\<exists>ws. pd_WriteSet d = Some ws \<and> (\<forall>ns \<in> set (tpp_NsPvtRwset ws). \<forall>coll \<in> set (npp_CollectionPvtRwset ns).
        pe_ComputeHash e (cpp_Rwset coll) = content (retrieveHash tx (npp_Namespace ns) (cpp_CollectionName coll)))))"

lemma addPvt_writes:
  "addPvtRWSetToPvtUpdateBatch s ver b = Inr (fold (\<lambda>(k, v). um_upd k v) (pvt_set_writes ver s) b)"
proof -
  have put: "(if \<not> IsKVWriteDelete w then UpdateMap_Put ns coll (w_Key w) (w_Value w) ver b
      else Inr (UpdateMap_Delete ns coll (w_Key w) ver b)) = Inr (um_upd (ns, coll, w_Key w) (pvt_value ver w) b)" for ns coll w b
    by (cases "w_Value w") (auto simp: UpdateMap_Put_def UpdateMap_Put_Inr UpdateMap_Delete_upd pvt_value_def IsKVWriteDelete_def len_bytes_def)
  have "foldE (\<lambda>(k, v) b. Inr (um_upd k v b)) (pvt_set_writes ver s) b = addPvtRWSetToPvtUpdateBatch s ver b"
    unfolding pvt_set_writes_def foldE_concat foldE_map addPvtRWSetToPvtUpdateBatch_def put
    by simp
  moreover have "foldE (\<lambda>(k, v) b. Inr (um_upd k v b)) kvs b = Inr (fold (\<lambda>(k, v). um_upd k v) kvs b)" for kvs
    by (induction kvs arbitrary: b) auto
  ultimately show ?thesis by simp
qed

lemma fold_concat: "fold f (concat xss) = fold (fold f) xss"
  by (induction xss) (auto simp: fun_eq_iff)

lemma fold_update_keys:
  assumes "distinct (map fst m)"
  shows "distinct (map fst (fold (\<lambda>k. AList.update k v) ks m)) \<and> fst ` set (fold (\<lambda>k. AList.update k v) ks m) = fst ` set m \<union> set ks"
  using assms by (induction ks arbitrary: m) (auto simp: distinct_update dom_update)

lemma addEntries_keys:
  assumes "distinct (map fst m)"
  shows "distinct (map fst (addEntriesToMetadataUpdates s m))"
    and "fst ` set (addEntriesToMetadataUpdates s m) = fst ` set m \<union> set (pvt_set_metadata s)"
proof -
  have upd: "addEntriesToMetadataUpdates s m = fold (\<lambda>k. AList.update k True) (pvt_set_metadata s) m"
    by (simp add: addEntriesToMetadataUpdates_def pvt_set_metadata_def fold_concat fold_map comp_def)
  show "distinct (map fst (addEntriesToMetadataUpdates s m))"
    "fst ` set (addEntriesToMetadataUpdates s m) = fst ` set m \<union> set (pvt_set_metadata s)"
    unfolding upd using fold_update_keys [OF assms] by blast+
qed

lemma validatePvtdata_hashes:
  "validatePvtdata H tx d = Inr u \<longleftrightarrow> (\<forall>ws. pd_WriteSet d = Some ws \<longrightarrow> (\<forall>ns \<in> set (tpp_NsPvtRwset ws).
     \<forall>coll \<in> set (npp_CollectionPvtRwset ns). H (cpp_Rwset coll) = content (retrieveHash tx (npp_Namespace ns) (cpp_CollectionName coll))))"
proof -
  have check: "foldE (\<lambda>x (_ :: unit). if P x then Inr () else Inl er) xs = (\<lambda>_. if \<forall>x \<in> set xs. P x then Inr () else Inl er)"
    for P :: "'x \<Rightarrow> bool" and xs and er
    by (rule ext, induction xs) auto
  show ?thesis
    unfolding validatePvtdata_def bytesEqual_def check
    by (cases "pd_WriteSet d") (auto simp: check)
qed

text \<open>One step of the loop over the transactions.\<close>

lemma preparePvtTx_step:
  assumes "preparePvtTx e blk pvtdata tx (b, m) = Inr (b', m')" and "distinct (map fst m)"
  shows "b' = fold (\<lambda>(k, v). um_upd k v) (block_pvt_writes e (blk_num blk) pvtdata [tx]) b"
    and "distinct (map fst m')" and "fst ` set m' = fst ` set m \<union> set (block_pvt_metadata e pvtdata [tx])"
    and "pvt_hashes_match e pvtdata tx"
proof -
  let ?ver = "Some (NewHeight (blk_num blk) (of_nat (tx_indexInBlock tx)))"
  consider (none) "b' = b" "m' = m" "pvt_tx_set e pvtdata tx = None" "pvt_hashes_match e pvtdata tx"
    | (some) d ws s where "map_of pvtdata (of_nat (tx_indexInBlock tx)) = Some d" "pd_WriteSet d = Some ws"
      "pvt_tx_set e pvtdata tx = Some s" "b' = fold (\<lambda>(k, v). um_upd k v) (pvt_set_writes ?ver s) b"
      "m' = addEntriesToMetadataUpdates s m" "pvt_hashes_match e pvtdata tx"
    using assms(1)
  proof (cases "tx_validationCode tx = TxValidationCode_VALID \<and> containsPvtWrites tx \<and>
      map_of pvtdata (of_nat (tx_indexInBlock tx)) \<noteq> None")
    case False
    then have "pvt_tx_set e pvtdata tx = None" "pvt_hashes_match e pvtdata tx"
      by (auto simp: pvt_tx_set_def pvt_hashes_match_def)
    moreover have "b' = b" "m' = m" using False assms(1) by (auto simp: preparePvtTx_def split: if_splits)
    ultimately show ?thesis using that(1) by blast
  next
    case True
    then obtain d where d: "map_of pvtdata (of_nat (tx_indexInBlock tx)) = Some d" by blast
    with True assms(1) obtain ws s where ws: "pd_WriteSet d = Some ws" and s: "TxPvtRwSetFromProtoMsg (pe_codec e) ws = Inr s"
      and v: "validatePvtdata (pe_ComputeHash e) tx d = Inr ()"
      and r: "b' = fold (\<lambda>(k, v). um_upd k v) (pvt_set_writes ?ver s) b" "m' = addEntriesToMetadataUpdates s m"
      by (auto simp: preparePvtTx_def go_res requiresPvtdataValidation_def addPvt_writes)
    have "pvt_tx_set e pvtdata tx = Some s" using True d ws s by (simp add: pvt_tx_set_def)
    moreover have "pvt_hashes_match e pvtdata tx"
      using v ws unfolding validatePvtdata_hashes pvt_hashes_match_def d by auto
    ultimately show ?thesis using that(2) d ws r by blast
  qed
  then show "b' = fold (\<lambda>(k, v). um_upd k v) (block_pvt_writes e (blk_num blk) pvtdata [tx]) b"
    "distinct (map fst m')" "fst ` set m' = fst ` set m \<union> set (block_pvt_metadata e pvtdata [tx])" "pvt_hashes_match e pvtdata tx"
    using assms(2) addEntries_keys by (cases; simp add: block_pvt_writes_def block_pvt_metadata_def)+
qed

lemma preparePvt_all:
  assumes "foldE (preparePvtTx e blk pvtdata) txs (b, m) = Inr (b', m')" and "distinct (map fst m)"
  shows "b' = fold (\<lambda>(k, v). um_upd k v) (block_pvt_writes e (blk_num blk) pvtdata txs) b \<and>
    distinct (map fst m') \<and> fst ` set m' = fst ` set m \<union> set (block_pvt_metadata e pvtdata txs) \<and>
    (\<forall>tx \<in> set txs. pvt_hashes_match e pvtdata tx)"
  using assms
proof (induction txs arbitrary: b m)
  case Nil
  then show ?case by (simp add: block_pvt_writes_def block_pvt_metadata_def)
next
  case (Cons tx txs)
  obtain b1 m1 where st: "preparePvtTx e blk pvtdata tx (b, m) = Inr (b1, m1)"
    and r: "foldE (preparePvtTx e blk pvtdata) txs (b1, m1) = Inr (b', m')" using Cons.prems(1) by (auto simp: go_res)
  note step = preparePvtTx_step [OF st Cons.prems(2)]
  have app: "block_pvt_writes e (blk_num blk) pvtdata (tx # txs) =
      block_pvt_writes e (blk_num blk) pvtdata [tx] @ block_pvt_writes e (blk_num blk) pvtdata txs"
    "block_pvt_metadata e pvtdata (tx # txs) = block_pvt_metadata e pvtdata [tx] @ block_pvt_metadata e pvtdata txs"
    by (simp_all add: block_pvt_writes_def block_pvt_metadata_def)
  show ?case unfolding app using Cons.IH [OF r step(2)] step by auto
qed

text \<open>
  What a key with a metadata write ends up with: if the hashed space gets a new version of the key and
  its value is the one known here, the value is written again with that version.
\<close>

definition version_bumped ::
  "(bytes \<Rightarrow> bytes) \<Rightarrow> publicAndHashUpdates \<Rightarrow> ('s, 'b) DB \<Rightarrow> pvt_key \<Rightarrow> VersionedValue option \<Rightarrow> VersionedValue option" where
  "version_bumped H u db = (\<lambda>(ns, coll, key) w.
     case UpdateMap_Get (hashUpdates u) ns coll (H key) of None \<Rightarrow> w
     | Some hv \<Rightarrow>
         (case (case w of Some vv \<Rightarrow> Some vv | None \<Rightarrow> (case GetPrivateData db ns coll key of Inr v \<Rightarrow> v | Inl _ \<Rightarrow> None)) of
            None \<Rightarrow> w
          | Some lv \<Rightarrow> if vv_Version lv \<noteq> vv_Version hv \<and> H (content (vv_Value lv)) = content (vv_Value hv)
              then Some \<lparr>vv_Value = vv_Value lv, vv_Metadata = None, vv_Version = vv_Version hv\<rparr> else w))"

abbreviation ck_triple :: "collKey \<Rightarrow> pvt_key" where
  "ck_triple ck \<equiv> (cok_ns ck, cok_coll ck, cok_key ck)"

lemma incrementPvtdataVersion_get:
  assumes "incrementPvtdataVersion H u db ck b = Inr b'"
  shows "um_get b' k = (if k = ck_triple ck then version_bumped H u db k (um_get b k) else um_get b k)"
proof -
  obtain ns coll key where k: "k = (ns, coll, key)" using prod_cases3 by blast
  show ?thesis
  proof (cases "k = ck_triple ck")
    case True
    then have ck: "cok_ns ck = ns" "cok_coll ck = coll" "cok_key ck = key" by (simp_all add: k)
    show ?thesis
    proof (cases "UpdateMap_Get (hashUpdates u) ns coll (H key)")
      case None
      then show ?thesis using assms True by (simp add: k ck incrementPvtdataVersion_def version_bumped_def)
    next
      case (Some hv)
      with assms obtain lv where lv: "retrieveLatestVal ns coll key b db = Inr lv"
        and r: "(case lv of None \<Rightarrow> Inr b | Some lv \<Rightarrow> if AreSame (vv_Version lv) (vv_Version hv) then Inr b
          else if bytesEqual (Some (H (content (vv_Value lv)))) (vv_Value hv)
          then UpdateMap_Put ns coll key (vv_Value lv) (vv_Version hv) b else Inr b) = Inr b'"
        unfolding incrementPvtdataVersion_def ck Some option.case go_res by blast
      have "(case UpdateMap_Get b ns coll key of Some vv \<Rightarrow> Some vv
          | None \<Rightarrow> (case GetPrivateData db ns coll key of Inr v \<Rightarrow> v | Inl _ \<Rightarrow> None)) = lv"
        using lv by (auto simp: retrieveLatestVal_def split: option.splits)
      then show ?thesis
        using r Some True
        by (cases lv) (auto simp: k ck version_bumped_def bytesEqual_def UpdateMap_Put_def UpdateMap_Put_Inr split: if_splits)
    qed
  next
    case False
    then show ?thesis
      using assms
      by (auto simp: k incrementPvtdataVersion_def go_res UpdateMap_Put_def UpdateMap_Put_Inr split: option.splits if_splits)
  qed
qed

lemma ck_triple_inject: "ck_triple a = ck_triple b \<longleftrightarrow> a = b"
  by (cases a; cases b) simp

lemma increment_all_get:
  assumes "foldE (incrementPvtdataVersion H u db) cks b = Inr b'" and "distinct cks"
  shows "um_get b' k = (if k \<in> ck_triple ` set cks then version_bumped H u db k (um_get b k) else um_get b k)"
  using assms
proof (induction cks arbitrary: b)
  case (Cons ck cks)
  obtain b1 where st: "incrementPvtdataVersion H u db ck b = Inr b1"
    and r: "foldE (incrementPvtdataVersion H u db) cks b1 = Inr b'" using Cons.prems(1) by (auto simp: go_res)
  have "ck_triple ck \<notin> ck_triple ` set cks" using Cons.prems(2) by (metis (no_types, lifting) imageE ck_triple_inject distinct.simps(2))
  moreover have "distinct cks" using Cons.prems(2) by simp
  ultimately show ?case
    unfolding Cons.IH [OF r \<open>distinct cks\<close>] incrementPvtdataVersion_get [OF st] by (auto simp del: prod.inject)
qed simp

text \<open>
  C28: The private part of a block's updates. If the private data of a block is accepted, every
  collection supplied for a valid transaction hashes to what the transaction's public read-write set
  says. A key then has the last write of the valid transactions whose private data is there, at the
  number and index of the transaction in this block, and nothing otherwise; only a key with a
  metadata write may differ, and then only by getting the version its hash gets in this block.
\<close>

theorem private_updates_of_block:
  assumes "validateAndPreparePvtBatch e blk db u pvtdata = Inr pvtUpdates"
  shows "(\<forall>tx \<in> set (blk_txs blk). pvt_hashes_match e pvtdata tx) \<and>
    UpdateMap_Get pvtUpdates ns coll key =
      (let written = map_of (rev (block_pvt_writes e (blk_num blk) pvtdata (blk_txs blk))) (ns, coll, key) in
       if \<lparr>cok_ns = ns, cok_coll = coll, cok_key = key\<rparr> \<in> set (block_pvt_metadata e pvtdata (blk_txs blk))
       then version_bumped (pe_ComputeHash e) u db (ns, coll, key) written else written)"
proof -
  obtain b m where f: "foldE (preparePvtTx e blk pvtdata) (blk_txs blk) ([], []) = Inr (b, m)"
    and i: "foldE (incrementPvtdataVersion (pe_ComputeHash e) u db) (map fst m) b = Inr pvtUpdates"
    using assms by (auto simp: validateAndPreparePvtBatch_def incrementPvtdataVersionIfNeeded_def go_res)
  note all = preparePvt_all [OF f, simplified]
  have "um_get b (ns, coll, key) = map_of (rev (block_pvt_writes e (blk_num blk) pvtdata (blk_txs blk))) (ns, coll, key)"
    unfolding all [THEN conjunct1] um.get_fold_upd by (simp add: UpdateMap_Get_def split: option.splits)
  moreover have "(ns, coll, key) = ck_triple c \<longleftrightarrow> c = \<lparr>cok_ns = ns, cok_coll = coll, cok_key = key\<rparr>" for c
    by (cases c) auto
  then have "(ns, coll, key) \<in> ck_triple ` set (map fst m) \<longleftrightarrow>
      \<lparr>cok_ns = ns, cok_coll = coll, cok_key = key\<rparr> \<in> set (block_pvt_metadata e pvtdata (blk_txs blk))"
    using all by (simp only: image_iff set_map) auto
  ultimately show ?thesis
    using increment_all_get [OF i, of "(ns, coll, key)"] all by (simp add: Let_def)
qed

section \<open>The verdicts written into the block\<close>

abbreviation flagged_valid :: "ValidationFlags \<Rightarrow> nat \<Rightarrow> bool" where
  "flagged_valid flags i \<equiv> of_char (flags ! i) = TxValidationCode_VALID"

text \<open>
  The invariant of the parsing loop after \<open>n\<close> transactions, \<open>flags0\<close> being the flags of the block: the
  flags of the transactions to come are untouched, no flag was made valid, and a transaction that was
  kept carries its original flag.
\<close>

definition preprocess_inv :: "ValidationFlags \<Rightarrow> nat \<Rightarrow> preprocess_state \<Rightarrow> bool" where
  "preprocess_inv flags0 n = (\<lambda>(txs, stats, flags). length flags = length flags0 \<and> length stats = n \<and>
     (\<forall>i < length flags0. (n \<le> i \<longrightarrow> flags ! i = flags0 ! i) \<and> (flagged_valid flags i \<longrightarrow> flagged_valid flags0 i)) \<and>
     distinct (map tx_indexInBlock txs) \<and>
     (\<forall>tx \<in> set txs. tx_indexInBlock tx < n \<and> tx_indexInBlock tx < length flags0 \<and>
        tx_validationCode tx = of_char (flags0 ! tx_indexInBlock tx)))"

lemma dropped_codes:
  assumes "code \<in> {TxValidationCode_NIL_TXACTION, TxValidationCode_INVALID_OTHER_REASON, TxValidationCode_INVALID_WRITESET}"
  shows "code mod 256 \<noteq> TxValidationCode_VALID"
  using assms by (auto simp: code_defs)

lemma preprocess_inv_flag:
  assumes "preprocess_inv flags0 n (txs, stats, flags)" and "SetFlag n code flags = Inr flags'"
    and "code mod 256 \<noteq> TxValidationCode_VALID"
  shows "preprocess_inv flags0 (Suc n) (txs, stats @ [stat], flags')"
proof -
  have flags': "n < length flags" "flags' = flags[n := char_of code]" using assms(2) by (auto simp: go_res)
  have inv: "length flags = length flags0" "length stats = n" "distinct (map tx_indexInBlock txs)"
    "\<And>i. i < length flags0 \<Longrightarrow> n \<le> i \<Longrightarrow> flags ! i = flags0 ! i" "\<And>i. i < length flags0 \<Longrightarrow> flagged_valid flags i \<Longrightarrow> flagged_valid flags0 i"
    "\<And>tx. tx \<in> set txs \<Longrightarrow> tx_indexInBlock tx < n \<and> tx_indexInBlock tx < length flags0 \<and>
        tx_validationCode tx = of_char (flags0 ! tx_indexInBlock tx)"
    using assms(1) by (auto simp: preprocess_inv_def)
  have "flags' ! i = flags0 ! i" if "i < length flags0" "Suc n \<le> i" for i using inv(4) that by (simp add: flags'(2))
  moreover have "flagged_valid flags0 i" if "i < length flags0" "flagged_valid flags' i" for i
    using inv(1,5) that assms(3) flags'(1) by (cases "i = n") (simp_all add: flags'(2))
  moreover have "tx_indexInBlock tx < Suc n" if "tx \<in> set txs" for tx using inv(6) [OF that] by simp
  ultimately show ?thesis
    using inv unfolding preprocess_inv_def flags'(2) by auto
qed

lemma preprocess_inv_skip:
  "preprocess_inv flags0 n (txs, stats, flags) \<Longrightarrow> preprocess_inv flags0 (Suc n) (txs, stats @ [stat], flags)"
  by (auto simp: preprocess_inv_def less_Suc_eq)

lemma preprocess_inv_keep:
  assumes "preprocess_inv flags0 n (txs, stats, flags)" and "Flag flags n = Inr code"
    and "tx_indexInBlock tx = n" and "tx_validationCode tx = code"
  shows "preprocess_inv flags0 (Suc n) (txs @ [tx], stats @ [stat], flags)"
  using assms by (auto simp: preprocess_inv_def go_res less_Suc_eq)

lemma parsed_dropped:
  "parseEndorserTx e b st = Inr (Dropped code, st') \<Longrightarrow> code mod 256 \<noteq> TxValidationCode_VALID"
  "parseOtherTx e mvcc env chdr = Inr (Dropped code) \<Longrightarrow> code mod 256 \<noteq> TxValidationCode_VALID"
  by (auto simp: parseEndorserTx_def parseOtherTx_def go_res code_defs Let_def
      split: sum.splits goerr.splits process_error.splits option.splits)

lemma preprocessTx_inv:
  assumes "preprocessTx e vkv mvcc (n, envBytes) st = Inr st'" and "preprocess_inv flags0 n st"
  shows "preprocess_inv flags0 (Suc n) st'"
proof -
  obtain txs stats flags where st: "st = (txs, stats, flags)" by (cases st)
  from assms(1) obtain env chdr parsed stat where
    p: "(if chdr_Type chdr = HeaderType_ENDORSER_TRANSACTION then parseEndorserTx e envBytes \<lparr>ts_TxIDFromChannelHeader = chdr_TxId chdr,
            ts_ValidationCode = 0, ts_TxType = chdr_Type chdr, ts_ChaincodeID = None, ts_ChaincodeEventData = [], ts_NumCollections = 0\<rparr>
         else bindE (parseOtherTx e mvcc env chdr) (\<lambda>parsed. Inr (parsed, \<lparr>ts_TxIDFromChannelHeader = chdr_TxId chdr,
            ts_ValidationCode = 0, ts_TxType = chdr_Type chdr, ts_ChaincodeID = None, ts_ChaincodeEventData = [], ts_NumCollections = 0\<rparr>))) =
        Inr (parsed, stat)"
    and r: "(case parsed of
       Dropped code \<Rightarrow> bindE (SetFlag n code flags) (\<lambda>flags. Inr (txs, stats @ [stat], flags))
     | NoRWSet \<Rightarrow> Inr (txs, stats @ [stat], flags)
     | Kept txRWSet containsPostOrderWrites \<Rightarrow>
         (let stat = stat\<lparr>ts_NumCollections := NumCollections (Some txRWSet)\<rparr> in
          case validateWriteset txRWSet vkv of
            Inl (Panic p) \<Rightarrow> Inl (Panic p)
          | Inl (Error _) \<Rightarrow> bindE (SetFlag n TxValidationCode_INVALID_WRITESET flags) (\<lambda>flags. Inr (txs, stats @ [stat], flags))
          | Inr _ \<Rightarrow> bindE (Flag flags n) (\<lambda>code.
              Inr (txs @ [\<lparr>tx_indexInBlock = n, tx_id = chdr_TxId chdr, tx_rwset = txRWSet, tx_validationCode = code,
                     tx_containsPostOrderWrites = containsPostOrderWrites\<rparr>], stats @ [stat], flags)))) = Inr st'"
    unfolding preprocessTx_def st case_prod_conv go_res Let_def by (auto simp: go_res split: prod.splits)
  have r': "parsed = Dropped code \<Longrightarrow> SetFlag n code flags = Inr f \<Longrightarrow> st' = (txs, stats @ [stat], f)" for code f
    using r by simp
  show ?thesis
  proof (cases parsed)
    case (Dropped code)
    have "code mod 256 \<noteq> TxValidationCode_VALID"
      using p unfolding Dropped by (auto simp: go_res parsed_dropped split: if_splits)
    with r assms(2) show ?thesis by (auto simp: Dropped st go_res intro: preprocess_inv_flag)
  next
    case (Kept txRWSet post)
    then show ?thesis
      using r assms(2) dropped_codes [of TxValidationCode_INVALID_WRITESET]
      by (auto simp: st go_res Let_def split: sum.splits goerr.splits intro: preprocess_inv_flag preprocess_inv_keep)
  next
    case NoRWSet
    then show ?thesis using r assms(2) by (auto simp: st intro: preprocess_inv_skip)
  qed
qed

lemma preprocess_all_inv:
  assumes "foldE (preprocessTx e vkv mvcc) (enumerate n data) st = Inr st'" and "preprocess_inv flags0 n st"
  shows "preprocess_inv flags0 (n + length data) st'"
  using assms
proof (induction data arbitrary: n st)
  case (Cons b data)
  obtain st1 where st1: "preprocessTx e vkv mvcc (n, b) st = Inr st1"
    and r: "foldE (preprocessTx e vkv mvcc) (enumerate (Suc n) data) st1 = Inr st'" using Cons.prems(1) by (auto simp: go_res)
  from Cons.IH [OF r preprocessTx_inv [OF st1 Cons.prems(2)]] show ?case by simp
qed simp

text \<open>Writing the codes of the validated transactions back.\<close>

lemma setFlags_all:
  assumes "foldE (\<lambda>tx. SetFlag (tx_indexInBlock tx) (tx_validationCode tx)) txs flags = Inr flags'"
    and "distinct (map tx_indexInBlock txs)"
  shows "length flags' = length flags \<and> (\<forall>tx \<in> set txs. tx_indexInBlock tx < length flags \<and>
      flags' ! tx_indexInBlock tx = char_of (tx_validationCode tx)) \<and>
    (\<forall>i. i \<notin> tx_indexInBlock ` set txs \<longrightarrow> flags' ! i = flags ! i)"
  using assms
proof (induction txs arbitrary: flags)
  case (Cons tx txs)
  obtain f1 where f1: "SetFlag (tx_indexInBlock tx) (tx_validationCode tx) flags = Inr f1"
    and r: "foldE (\<lambda>tx. SetFlag (tx_indexInBlock tx) (tx_validationCode tx)) txs f1 = Inr flags'"
    using Cons.prems(1) by (auto simp: go_res)
  have i: "tx_indexInBlock tx < length flags" "f1 = flags[tx_indexInBlock tx := char_of (tx_validationCode tx)]"
    using f1 by (auto simp: go_res)
  have d: "distinct (map tx_indexInBlock txs)" "tx_indexInBlock tx \<notin> tx_indexInBlock ` set txs" using Cons.prems(2) by auto
  note IH = Cons.IH [OF r d(1)]
  have "flags' ! tx_indexInBlock tx = char_of (tx_validationCode tx)" using IH d(2) i by simp
  moreover have "flags' ! k = flags ! k" if "k \<notin> tx_indexInBlock ` set (tx # txs)" for k
    using IH that i(2) by auto
  ultimately show ?case using IH i by auto
qed simp

lemma copyFlags_spec:
  assumes "copyFlags flags stats = Inr stats'"
  shows "length stats' = length stats \<and> length flags \<le> length stats \<and> (\<forall>i < length flags. ts_ValidationCode (stats' ! i) = of_char (flags ! i))"
proof -
  have "length stats' = length stats \<and> (flags = [] \<or> n + length flags \<le> length stats) \<and>
      (\<forall>i < length flags. ts_ValidationCode (stats' ! (n + i)) = of_char (flags ! i)) \<and> (\<forall>i < n. stats' ! i = stats ! i)"
    if "foldE (\<lambda>(i, flag) stats. bindE (index stats i) (\<lambda>stat. Inr (stats[i := stat\<lparr>ts_ValidationCode := of_char flag\<rparr>])))
       (enumerate n flags) stats = Inr stats'" for n
    using that
  proof (induction flags arbitrary: n stats)
    case (Cons f flags)
    obtain st1 where st1: "n < length stats" "st1 = stats[n := (stats ! n)\<lparr>ts_ValidationCode := of_char f\<rparr>]"
      and r: "foldE (\<lambda>(i, flag) stats. bindE (index stats i) (\<lambda>stat. Inr (stats[i := stat\<lparr>ts_ValidationCode := of_char flag\<rparr>])))
         (enumerate (Suc n) flags) st1 = Inr stats'"
      using Cons.prems by (auto simp: go_res)
    from Cons.IH [OF r] have IH: "length stats' = length stats" "flags = [] \<or> Suc n + length flags \<le> length stats"
      "\<And>i. i < length flags \<Longrightarrow> ts_ValidationCode (stats' ! (Suc n + i)) = of_char (flags ! i)"
      "\<And>i. i < Suc n \<Longrightarrow> stats' ! i = st1 ! i" using st1 by auto
    have "ts_ValidationCode (stats' ! (n + i)) = of_char ((f # flags) ! i)" if "i < length (f # flags)" for i
      using IH(3) [of "i - 1"] IH(4) [of n] st1 that by (cases i) auto
    moreover have "stats' ! i = stats ! i" if "i < n" for i using IH(4) [of i] st1 that by simp
    ultimately show ?case using IH st1 by auto
  qed simp
  from this [of 0] assms show ?thesis by (auto simp: copyFlags_def)
qed

lemma txsFilter_set [simp]:
  "txsFilter blk = Inr flags \<Longrightarrow> txsFilter (setTxsFilter flags' blk) = Inr flags'"
  "setTxsFilter flags' (setTxsFilter flags blk) = setTxsFilter flags' blk"
  by (auto simp: txsFilter_def setTxsFilter_def go_res option.map_comp comp_def)

text \<open>What validation may do to a transaction: give a code to one that came in as valid.\<close>

definition revalidated :: "transaction \<Rightarrow> transaction \<Rightarrow> bool" where
  "revalidated tx tx' \<longleftrightarrow> (\<exists>c. tx' = tx\<lparr>tx_validationCode := c\<rparr> \<and>
     (if tx_validationCode tx = TxValidationCode_VALID
      then c \<in> {TxValidationCode_VALID, TxValidationCode_MVCC_READ_CONFLICT, TxValidationCode_PHANTOM_READ_CONFLICT}
      else c = tx_validationCode tx))"

lemma validateAndApplyTx_code:
  assumes "validateAndApplyTx l v blk mvcc tx (u, p, d) = Inr st"
  obtains u' p' tx' where "st = (u', p', d @ [tx'])" "revalidated tx tx'"
  using assms
proof (cases rule: validateAndApplyTx_cases)
  case (invalid c)
  then have "if tx_validationCode tx = TxValidationCode_VALID
      then c \<in> {TxValidationCode_VALID, TxValidationCode_MVCC_READ_CONFLICT, TxValidationCode_PHANTOM_READ_CONFLICT}
      else c = tx_validationCode tx"
    using validateTx_codes [of l v "tx_rwset tx" u c] by (auto simp: validateEndorserTX_def split: if_splits)
  then have "revalidated tx (tx\<lparr>tx_validationCode := c\<rparr>)" unfolding revalidated_def by blast
  with invalid(3) that show thesis by blast
next
  case (valid height u')
  then have "revalidated tx (tx\<lparr>tx_validationCode := TxValidationCode_VALID\<rparr>)" unfolding revalidated_def by auto
  with valid(5) that show thesis by blast
qed

lemma validated_codes:
  assumes "validateAndPrepareBatch l blk mvcc v = Inr (u, purges, blk', v')"
  shows "list_all2 revalidated (blk_txs blk) (blk_txs blk')" and "blk_num blk' = blk_num blk"
proof -
  obtain p txs where f: "foldE (validateAndApplyTx l v' blk mvcc) (blk_txs blk) (newPubAndHashUpdates, [], []) = Inr (u, p, txs)"
    and r: "blk' = blk\<lparr>blk_txs := txs\<rparr>"
    using assms by (auto simp: validateAndPrepareBatch_def go_res)
  have "\<exists>d''. d' = d @ d'' \<and> list_all2 revalidated ts d''"
    if "foldE (validateAndApplyTx l v' blk mvcc) ts (u0, p0, d) = Inr (u', p', d')" for ts u0 p0 d u' p' d'
    using that
  proof (induction ts arbitrary: u0 p0 d)
    case (Cons tx ts)
    then obtain st where st: "validateAndApplyTx l v' blk mvcc tx (u0, p0, d) = Inr st"
      and r: "foldE (validateAndApplyTx l v' blk mvcc) ts st = Inr (u', p', d')" by (auto simp: go_res)
    from validateAndApplyTx_code [OF st] obtain u1 p1 tx' where s1: "st = (u1, p1, d @ [tx'])" "revalidated tx tx'" by blast
    from Cons.IH [OF r [unfolded s1(1)]] s1(2) show ?case by force
  qed simp
  from this [OF f] show "list_all2 revalidated (blk_txs blk) (blk_txs blk')" by (simp add: r)
  show "blk_num blk' = blk_num blk" by (simp add: r)
qed

text \<open>The parts of a successful preparation.\<close>

lemma ValidateAndPrepareBatch_parts:
  assumes "ValidateAndPrepareBatch e blk pvtdata mvcc p = Inr (u, purges, stats, blk', p')"
  obtains b stats0 blk0 ph b' v' where
    "preprocessProtoBlock e (vdb_ValidateKeyValue (db_VersionedDB (cbp_db p))) blk mvcc = Inr (b, stats0, blk0)"
    "validateAndPrepareBatch (libs.truncate (pe_libs e)) b mvcc (cbp_validator p) = Inr (ph, purges, b', v')"
    "validateAndPreparePvtBatch e b' (v_db v') ph pvtdata = Inr (PvtUpdates u)"
    "PubUpdates u = publicUpdates ph" "HashUpdates u = hashUpdates ph" "p' = p\<lparr>cbp_db := v_db v'\<rparr>"
    "postprocessProtoBlock b' blk0 = Inr blk'"
    "bindE (txsFilter blk') (\<lambda>flags. copyFlags flags stats0) = Inr stats"
proof -
  from assms obtain b stats0 blk0 where
    1: "preprocessProtoBlock e (vdb_ValidateKeyValue (db_VersionedDB (cbp_db p))) blk mvcc = Inr (b, stats0, blk0)"
    and rest: "bindE (validateAndPrepareBatch (libs.truncate (pe_libs e)) b mvcc (cbp_validator p))
       (\<lambda>(pubAndHashUpdates, purgeUpdates, internalBlock, v).
     bindE (validateAndPreparePvtBatch e internalBlock (v_db v) pubAndHashUpdates pvtdata) (\<lambda>pvtUpdates.
     bindE (postprocessProtoBlock internalBlock blk0) (\<lambda>blk.
     bindE (txsFilter blk) (\<lambda>flags.
     bindE (copyFlags flags stats0) (\<lambda>stats.
       Inr (\<lparr>PubUpdates = publicUpdates pubAndHashUpdates, HashUpdates = hashUpdates pubAndHashUpdates, PvtUpdates = pvtUpdates\<rparr>,
            purgeUpdates, stats, blk, p\<lparr>cbp_db := v_db v\<rparr>)))))) = Inr (u, purges, stats, blk', p')"
    unfolding ValidateAndPrepareBatch_def bindE_Inr_iff [of "preprocessProtoBlock _ _ _ _"] by auto
  from rest obtain ph pu b' v' where 2: "validateAndPrepareBatch (libs.truncate (pe_libs e)) b mvcc (cbp_validator p) = Inr (ph, pu, b', v')"
    and rest2: "bindE (validateAndPreparePvtBatch e b' (v_db v') ph pvtdata) (\<lambda>pvtUpdates.
     bindE (postprocessProtoBlock b' blk0) (\<lambda>blk.
     bindE (txsFilter blk) (\<lambda>flags.
     bindE (copyFlags flags stats0) (\<lambda>stats.
       Inr (\<lparr>PubUpdates = publicUpdates ph, HashUpdates = hashUpdates ph, PvtUpdates = pvtUpdates\<rparr>,
            pu, stats, blk, p\<lparr>cbp_db := v_db v'\<rparr>))))) = Inr (u, purges, stats, blk', p')"
    unfolding bindE_Inr_iff [of "validateAndPrepareBatch _ _ _ _"] by auto
  from rest2 obtain pvt where "validateAndPreparePvtBatch e b' (v_db v') ph pvtdata = Inr pvt"
    "postprocessProtoBlock b' blk0 = Inr blk'" "bindE (txsFilter blk') (\<lambda>flags. copyFlags flags stats0) = Inr stats"
    "u = \<lparr>PubUpdates = publicUpdates ph, HashUpdates = hashUpdates ph, PvtUpdates = pvt\<rparr>" "pu = purges" "p' = p\<lparr>cbp_db := v_db v'\<rparr>"
    by (auto simp: go_res)
  with that [OF 1] 2 show thesis by auto
qed

lemma prepared_verdicts:
  assumes "preprocessProtoBlock e vkv blk mvcc = Inr (b, stats0, blk0)" and "validateAndPrepareBatch l b mvcc v = Inr (ph, purges, b', v')"
    and "postprocessProtoBlock b' blk0 = Inr blk'"
  shows "\<exists>flags flags' data. txsFilter blk = Inr flags \<and> txsFilter blk' = Inr flags' \<and> b_Data blk = Some data \<and>
    blk' = setTxsFilter flags' blk \<and> length flags' = length flags \<and> length stats0 = length data \<and>
    (\<forall>i < length flags. flagged_valid flags' i \<longrightarrow> flagged_valid flags i) \<and>
    (\<forall>tx \<in> set (blk_txs b'). tx_indexInBlock tx < length flags' \<and> of_char (flags' ! tx_indexInBlock tx) = tx_validationCode tx)"
proof -
  from assms(1) obtain flags data txs fl where flags: "txsFilter blk = Inr flags" and data: "b_Data blk = Some data"
    and f: "foldE (preprocessTx e vkv mvcc) (enumerate 0 data) ([], [], flags) = Inr (txs, stats0, fl)"
    and b: "blk_txs b = txs" "blk0 = setTxsFilter fl blk"
    by (auto simp: preprocessProtoBlock_def go_res deref_Inr_iff)
  have "preprocess_inv flags 0 ([], [], flags)" by (simp add: preprocess_inv_def)
  from preprocess_all_inv [OF f this] have inv: "length fl = length flags" "length stats0 = length data"
    "\<And>i. i < length flags \<Longrightarrow> flagged_valid fl i \<Longrightarrow> flagged_valid flags i" "distinct (map tx_indexInBlock txs)"
    "\<And>tx. tx \<in> set txs \<Longrightarrow> tx_indexInBlock tx < length flags \<and> tx_validationCode tx = of_char (flags ! tx_indexInBlock tx)"
    by (auto simp: preprocess_inv_def)
  note val = validated_codes(1) [OF assms(2), unfolded b(1)]
  have idx: "map tx_indexInBlock (blk_txs b') = map tx_indexInBlock txs"
    using val by (induction rule: list_all2_induct) (auto simp: revalidated_def)
  have code: "0 \<le> tx_validationCode tx' \<and> tx_validationCode tx' \<le> 255 \<and>
      (tx_validationCode tx' = TxValidationCode_VALID \<longrightarrow> flagged_valid flags (tx_indexInBlock tx'))" if "tx' \<in> set (blk_txs b')" for tx'
  proof -
    from val that obtain tx where tx: "tx \<in> set txs" "revalidated tx tx'"
      by (metis in_set_conv_nth list_all2_conv_all_nth)
    have o: "tx_validationCode tx = of_char (flags ! tx_indexInBlock tx)" using inv(5) [OF tx(1)] by simp
    have r: "tx_indexInBlock tx' = tx_indexInBlock tx" "tx_validationCode tx = TxValidationCode_VALID \<Longrightarrow>
        tx_validationCode tx' \<in> {TxValidationCode_VALID, TxValidationCode_MVCC_READ_CONFLICT, TxValidationCode_PHANTOM_READ_CONFLICT}"
      "tx_validationCode tx \<noteq> TxValidationCode_VALID \<Longrightarrow> tx_validationCode tx' = tx_validationCode tx"
      using tx(2) unfolding revalidated_def by (auto split: if_splits)
    have "(0 :: int) \<le> of_char (flags ! tx_indexInBlock tx)" "of_char (flags ! tx_indexInBlock tx) \<le> (255 :: int)"
      by (simp_all add: of_char_def)
    with r o show ?thesis
      by (cases "tx_validationCode tx = TxValidationCode_VALID") (auto simp: code_defs)
  qed
  from assms(3) txsFilter_set(1) [OF flags] obtain flags' where
    s: "foldE (\<lambda>tx. SetFlag (tx_indexInBlock tx) (tx_validationCode tx)) (blk_txs b') fl = Inr flags'" "blk' = setTxsFilter flags' blk"
    by (auto simp: postprocessProtoBlock_def b(2) go_res)
  note set = setFlags_all [OF s(1), unfolded idx, OF inv(4)]
  have "flagged_valid flags i" if i: "i < length flags" "flagged_valid flags' i" for i
  proof (cases "i \<in> tx_indexInBlock ` set (blk_txs b')")
    case True
    then obtain tx where tx: "tx \<in> set (blk_txs b')" "i = tx_indexInBlock tx" by blast
    with set i(2) code [OF tx(1)] show ?thesis by auto
  next
    case False
    then show ?thesis using set inv(3) i by simp
  qed
  moreover have "of_char (flags' ! tx_indexInBlock tx) = tx_validationCode tx" if "tx \<in> set (blk_txs b')" for tx
    using set code [OF that] that by auto
  ultimately show ?thesis
    using flags data s(2) set inv(1,2) txsFilter_set(1) [OF flags] by auto
qed

text \<open>
  C27: The verdicts of a prepared block. Preparing a block changes nothing in it but the validation
  flags, one for each; a transaction flagged invalid before is still invalid afterwards, and the
  statistics have one entry per transaction with the code of its flag.
\<close>

theorem prepared_block_verdicts:
  assumes "ValidateAndPrepareBatch e blk pvtdata doMVCCValidation p = Inr (u, purges, stats, blk', p')"
  shows "\<exists>flags flags' data. txsFilter blk = Inr flags \<and> txsFilter blk' = Inr flags' \<and> b_Data blk = Some data \<and>
    blk' = setTxsFilter flags' blk \<and> length flags' = length flags \<and> length stats = length data \<and>
    (\<forall>i < length flags. flagged_valid flags' i \<longrightarrow> flagged_valid flags i) \<and>
    (\<forall>i < length flags'. i < length stats \<and> ts_ValidationCode (stats ! i) = of_char (flags' ! i))"
proof -
  obtain b stats0 blk0 ph b' v' where parts: "preprocessProtoBlock e (vdb_ValidateKeyValue (db_VersionedDB (cbp_db p))) blk doMVCCValidation = Inr (b, stats0, blk0)"
    "validateAndPrepareBatch (libs.truncate (pe_libs e)) b doMVCCValidation (cbp_validator p) = Inr (ph, purges, b', v')"
    "postprocessProtoBlock b' blk0 = Inr blk'" "bindE (txsFilter blk') (\<lambda>flags. copyFlags flags stats0) = Inr stats"
    using ValidateAndPrepareBatch_parts [OF assms] by metis
  from prepared_verdicts [OF parts(1-3)] obtain flags flags' data where
    f: "txsFilter blk = Inr flags" "txsFilter blk' = Inr flags'" "b_Data blk = Some data" "blk' = setTxsFilter flags' blk"
    "length flags' = length flags" "length stats0 = length data" "\<forall>i < length flags. flagged_valid flags' i \<longrightarrow> flagged_valid flags i"
    by blast
  have "copyFlags flags' stats0 = Inr stats" using parts(4) f(2) by simp
  from copyFlags_spec [OF this] f show ?thesis by force
qed

section \<open>The lite format\<close>

text \<open>A read-write set without its range queries and metadata writes.\<close>

definition strip_coll :: "CollHashedRwSet \<Rightarrow> CollHashedRwSet" where
  "strip_coll c = c\<lparr>HashedRwSet := (HashedRwSet c)\<lparr>HashedMetadataWrites := []\<rparr>\<rparr>"

definition strip_ns :: "NsRwSet \<Rightarrow> NsRwSet" where
  "strip_ns n = n\<lparr>KvRwSet := (KvRwSet n)\<lparr>RangeQueriesInfo := [], MetadataWrites := []\<rparr>,
     CollHashedRwSets := map strip_coll (CollHashedRwSets n)\<rparr>"

definition strip_rwset :: "TxRwSet \<Rightarrow> TxRwSet" where
  "strip_rwset rwset = \<lparr>NsRwSets = map strip_ns (NsRwSets rwset)\<rparr>"

lemma converted_rwset: "GettxRWSetForLightTxn rwset = lite_rwset (strip_rwset rwset)"
proof -
  have kv: "GetKVRWSet k = k\<lparr>RangeQueriesInfo := [], MetadataWrites := []\<rparr>" for k :: KVRWSet
  proof -
    have "(\<lambda>rd :: KVRead. \<lparr>r_Key = r_Key rd, r_Version = r_Version rd\<rparr>) = id"
      "(\<lambda>wr :: KVWrite. \<lparr>w_Key = w_Key wr, w_IsDelete = w_IsDelete wr, w_Value = w_Value wr\<rparr>) = id" by (simp_all add: fun_eq_iff)
    then show ?thesis by (cases k) (simp only: GetKVRWSet_def KVRWSet.simps list.map_id)
  qed
  have coll: "getCollHRWSet c = lite_coll (strip_coll c)" for c
  proof -
    have "(\<lambda>rd :: KVReadHash. \<lparr>rh_KeyHash = rh_KeyHash rd, rh_Version = rh_Version rd\<rparr>) = id" by (simp add: fun_eq_iff)
    then show ?thesis by (simp add: getCollHRWSet_def lite_coll_def strip_coll_def getHRWSet_def lite_hashed_def)
  qed
  show ?thesis
    by (simp add: GettxRWSetForLightTxn_def lite_rwset_def strip_rwset_def GetNSForLT_def lite_ns_def strip_ns_def kv coll)
qed

text \<open>
  C29: A transaction that was converted to the lite format is validated and applied as if it had made
  no range query and written no metadata: its reads and hashed reads are checked and its values
  written, but a phantom read goes unnoticed and a change of key-level metadata is lost.
\<close>

theorem converted_transaction_loses_queries_and_metadata:
  assumes "same_wire_format l {}"
  shows "validateLtx l v (GettxRWSetForLightTxn rwset) u = validateTx (libs.truncate l) v (strip_rwset rwset) u \<and>
   applyLtxWriteSet marshal H (GettxRWSetForLightTxn rwset) = applyWriteSet marshal H (strip_rwset rwset) \<and>
   validateTx (libs.truncate l) v (strip_rwset rwset) u \<noteq> Inr TxValidationCode_PHANTOM_READ_CONFLICT"
proof -
  have q: "RangeQueriesInfo (KvRwSet n) = []" if "n \<in> set (NsRwSets (strip_rwset rwset))" for n
    using that by (auto simp: strip_rwset_def strip_ns_def)
  have "validateTx_loop l' v u ns \<noteq> Inr TxValidationCode_PHANTOM_READ_CONFLICT"
    if "\<And>n. n \<in> set ns \<Longrightarrow> RangeQueriesInfo (KvRwSet n) = []" for l' ns
    using that
    by (induction ns) (auto simp: go_res Let_def code_defs validateRangeQueries_def split: if_splits)
  with q have "validateTx (libs.truncate l) v (strip_rwset rwset) u \<noteq> Inr TxValidationCode_PHANTOM_READ_CONFLICT"
    by (simp add: validateTx_def)
  then show ?thesis
    unfolding converted_rwset
    using validateLtx_lite [OF assms, of "strip_rwset rwset" v u] q by (simp add: applyLtxWriteSet_lite)
qed

section \<open>Witnesses\<close>

definition update_kv :: KVRWSet where
  "update_kv = \<lparr>Reads = [\<lparr>r_Key = ''a'', r_Version = Some \<lparr>pv_BlockNum = 7, pv_TxNum = 1\<rparr>\<rparr>], RangeQueriesInfo = [],
     Writes = [\<lparr>w_Key = ''a'', w_IsDelete = False, w_Value = Some ''2''\<rparr>], MetadataWrites = []\<rparr>"

definition constant_codec :: proto_codec where
  "constant_codec =
     \<lparr>Marshal_KVRWSet = (\<lambda>_. Inr []), Unmarshal_KVRWSet = (\<lambda>_. Inr update_kv),
      Marshal_HashedRWSet = (\<lambda>_. Inr []), Unmarshal_HashedRWSet = (\<lambda>_. Inl (Error ''unmarshal'')),
      Marshal_TxReadWriteSet = (\<lambda>_. Inr []),
      Unmarshal_TxReadWriteSet = (\<lambda>_. Inr \<lparr>trp_DataModel = TxReadWriteSet_KV,
        trp_NsRwset = [\<lparr>nrp_Namespace = ''ns1'', nrp_Rwset = [], nrp_CollectionHashedRwset = []\<rparr>]\<rparr>),
      Marshal_TxPvtReadWriteSet = (\<lambda>_. Inr []), Unmarshal_TxPvtReadWriteSet = (\<lambda>_. Inl (Error ''unmarshal''))\<rparr>"

definition sample_env :: "unit preparer_env" where
  "sample_env =
     \<lparr>pe_libs = sample_ltx_libs, pe_codec = constant_codec, pe_proto = sample_proto,
      pe_um_SparseTxnFilter = (\<lambda>_. (\<lparr>FatBlockNumber = 0, TxnInfoList = []\<rparr>, False)), pe_NewTxSimulator = (\<lambda>_. Inr ()),
      pe_GetTxSimulationResults = (\<lambda>_. Inl (Error ''no results'')), pe_customTxProcessors = []\<rparr>"

definition sample_Block :: "ValidationFlags \<Rightarrow> Block" where
  "sample_Block flags = \<lparr>b_Header = Some \<lparr>bh_Number = 8, bh_PreviousHash = [], bh_DataHash = []\<rparr>, b_Data = Some [''x'', ''y''],
     b_Metadata = Some [[], [], flags]\<rparr>"

definition sample_preparer :: "((bytes, bytes) gomap, (bytes, bytes) gomap) CommitBatchPreparer" where
  "sample_preparer = \<lparr>cbp_db = sample_db', cbp_hashFunc = sample_hash\<rparr>"

definition sample_stat :: "TxValidationCode \<Rightarrow> TxStatInfo" where
  "sample_stat c = \<lparr>ts_TxIDFromChannelHeader = ''t'', ts_ValidationCode = c, ts_TxType = 3, ts_ChaincodeID = None,
     ts_ChaincodeEventData = [], ts_NumCollections = 0\<rparr>"

definition sample_batch_result :: PrivacyUpdateBatch where
  "sample_batch_result = \<lparr>PubUpdates = publicUpdates sample_result, HashUpdates = hashUpdates sample_result, PvtUpdates = []\<rparr>"

lemma sample_parsed:
  "preprocessProtoBlock sample_env ValidateKeyValue (sample_Block [CHR 0x00, CHR 0x00]) True =
     Inr (sample_block [0, 0], [sample_stat 0, sample_stat 0], sample_Block [CHR 0x00, CHR 0x00])"
proof -
  have h: "parseHeader sample_env b = Inr (fst (um_Envelope sample_proto []), fst (um_ChannelHeader sample_proto []))" for b
    by (simp add: parseHeader_def sample_env_def sample_proto_def GetEnvelopeFromBlock_def)
  have a: "parseEndorserTx sample_env b st = Inr (Kept update_tx False, st\<lparr>ts_ChaincodeID := None, ts_ChaincodeEventData := []\<rparr>)" for b st
    by (simp add: parseEndorserTx_def sample_env_def GetActionFromEnvelope_def GetActionFromEnvelopeMsg_def GetEnvelopeFromBlock_def
        GetPayloads_def sample_proto_def TxRwSet_FromProtoBytes_def TxRwSetFromProtoMsg_def nsRwSetFromProtoMsg_def constant_codec_def
        update_kv_def update_tx_def)
  have t: "chdr_Type (fst (um_ChannelHeader sample_proto [])) = HeaderType_ENDORSER_TRANSACTION"
    "chdr_TxId (fst (um_ChannelHeader sample_proto [])) = ''t''" "HeaderType_ENDORSER_TRANSACTION = 3"
    by (simp_all add: sample_proto_def HeaderType_ENDORSER_TRANSACTION_def)
  have "extractSparseFilter sample_env (sample_Block f) = Inl (Error ''sparseTxnfilter not present in metdata'')" for f
    by (simp add: extractSparseFilter_def sample_Block_def index_defs)
  then show ?thesis
    by (simp add: preprocessProtoBlock_def txsFilter_def sample_Block_def index_defs index_def preprocessTx_def h a t Let_def
        validateWriteset_def update_tx_def ValidateKeyValue_def Flag_def setTxsFilter_def sample_block_def sample_tx_def NumCollections_def
        sample_stat_def)
qed

lemma sample_prepared:
  "ValidateAndPrepareBatch sample_env (sample_Block [CHR 0x00, CHR 0x00]) [] True sample_preparer =
     Inr (sample_batch_result, [], [sample_stat 0, sample_stat 11], sample_Block [CHR 0x00, CHR 0x0B], sample_preparer)"
proof -
  have v: "vdb_ValidateKeyValue (db_VersionedDB (cbp_db sample_preparer)) = ValidateKeyValue"
    by (simp add: sample_preparer_def sample_db'_def leveldb_VersionedDB_def)
  have l: "libs.truncate (pe_libs sample_env) = sample_libs"
    by (simp add: sample_env_def sample_ltx_libs_def sample_libs_def libs.truncate_def)
  have c: "cbp_validator sample_preparer = sample_validator" by (simp add: sample_preparer_def sample_validator_def)
  have p: "validateAndPreparePvtBatch sample_env (sample_block [0, 11]) db ph [] = Inr []" for db :: "((bytes, bytes) gomap, (bytes, bytes) gomap) DB" and ph
    by (simp add: validateAndPreparePvtBatch_def preparePvtTx_def sample_block_def sample_tx_def containsPvtWrites_def update_tx_def
        incrementPvtdataVersionIfNeeded_def)
  have q: "postprocessProtoBlock (sample_block [0, 11]) (sample_Block [CHR 0x00, CHR 0x00]) = Inr (sample_Block [CHR 0x00, CHR 0x0B])"
    by (simp add: postprocessProtoBlock_def txsFilter_def sample_Block_def index_defs index_def sample_block_def sample_tx_def SetFlag_def
        setTxsFilter_def) (simp add: char_of_def)
  have r: "txsFilter (sample_Block f) = Inr f" for f by (simp add: txsFilter_def sample_Block_def index_defs index_def)
  have w: "copyFlags [CHR 0x00, CHR 0x0B] [sample_stat 0, sample_stat 0] = Inr [sample_stat 0, sample_stat 11]"
    by (simp add: copyFlags_def index_def sample_stat_def)
  have d: "sample_preparer\<lparr>cbp_db := v_db sample_validator\<rparr> = sample_preparer" by (simp add: sample_preparer_def sample_validator_def)
  show ?thesis
    unfolding ValidateAndPrepareBatch_def v sample_parsed bindE.simps case_prod_conv l c sample_validated p q r w d sample_batch_result_def ..
qed

theorem prepared_block_verdicts_witness:
  "\<exists>flags flags' data. txsFilter (sample_Block [CHR 0x00, CHR 0x00]) = Inr flags \<and> txsFilter (sample_Block [CHR 0x00, CHR 0x0B]) = Inr flags' \<and>
    b_Data (sample_Block [CHR 0x00, CHR 0x00]) = Some data \<and> sample_Block [CHR 0x00, CHR 0x0B] = setTxsFilter flags' (sample_Block [CHR 0x00, CHR 0x00]) \<and>
    length flags' = length flags \<and> length [sample_stat 0, sample_stat 11] = length data \<and>
    (\<forall>i < length flags. flagged_valid flags' i \<longrightarrow> flagged_valid flags i) \<and>
    (\<forall>i < length flags'. i < length [sample_stat 0, sample_stat 11] \<and> ts_ValidationCode ([sample_stat 0, sample_stat 11] ! i) = of_char (flags' ! i))"
  by (rule prepared_block_verdicts [OF sample_prepared])

text \<open>A transaction that writes a private key, and its private data.\<close>

definition private_tx :: transaction where
  "private_tx = \<lparr>tx_indexInBlock = 0, tx_id = ''t'', tx_rwset = \<lparr>NsRwSets = [\<lparr>NameSpace = ''ns1'',
     KvRwSet = \<lparr>Reads = [], RangeQueriesInfo = [], Writes = [], MetadataWrites = []\<rparr>,
     CollHashedRwSets = [\<lparr>ch_CollectionName = ''c1'', HashedRwSet = \<lparr>HashedReads = [],
       HashedWrites = [\<lparr>wh_KeyHash = ''a'', wh_IsDelete = False, wh_ValueHash = Some ''2'', wh_IsPurge = False\<rparr>], HashedMetadataWrites = []\<rparr>,
       PvtRwSetHash = Some ''w''\<rparr>]\<rparr>]\<rparr>, tx_validationCode = 0, tx_containsPostOrderWrites = False\<rparr>"

definition private_block :: block where
  "private_block = (sample_block [0, 0])\<lparr>blk_txs := [private_tx]\<rparr>"

definition private_data :: TxPvtDataMap where
  "private_data = [(0, \<lparr>pd_SeqInBlock = 0, pd_WriteSet = Some \<lparr>tpp_DataModel = TxReadWriteSet_KV, tpp_NsPvtRwset =
     [\<lparr>npp_Namespace = ''ns1'', npp_CollectionPvtRwset = [\<lparr>cpp_CollectionName = ''c1'', cpp_Rwset = ''w''\<rparr>]\<rparr>]\<rparr>\<rparr>)]"

definition private_updates :: UpdateMap where
  "private_updates = um_upd (''ns1'', ''c1'', ''a'') \<lparr>vv_Value = Some ''2'', vv_Metadata = None, vv_Version = Some (NewHeight 8 0)\<rparr> []"

lemma private_set: "TxPvtRwSetFromProtoMsg constant_codec \<lparr>tpp_DataModel = TxReadWriteSet_KV, tpp_NsPvtRwset =
     [\<lparr>npp_Namespace = ''ns1'', npp_CollectionPvtRwset = [\<lparr>cpp_CollectionName = ''c1'', cpp_Rwset = ''w''\<rparr>]\<rparr>]\<rparr> =
   Inr \<lparr>NsPvtRwSets = [\<lparr>np_NameSpace = ''ns1'', CollPvtRwSets = [\<lparr>cp_CollectionName = ''c1'', cp_KvRwSet = update_kv\<rparr>]\<rparr>]\<rparr>"
  by (simp add: TxPvtRwSetFromProtoMsg_def nsPvtRwSetFromProtoMsg_def CollPvtRwSetFromProtoMsg_def constant_codec_def)

lemma private_prepared:
  "validateAndPreparePvtBatch sample_env private_block db u private_data = Inr private_updates"
proof -
  have v: "validatePvtdata (pe_ComputeHash sample_env) private_tx (snd (hd private_data)) = Inr ()"
    by (simp add: validatePvtdata_def private_data_def retrieveHash_def private_tx_def bytesEqual_def sample_env_def sample_ltx_libs_def)
  have "preparePvtTx sample_env private_block private_data private_tx ([], []) = Inr (private_updates, [])"
    using v private_set
    by (simp add: preparePvtTx_def private_data_def requiresPvtdataValidation_def private_tx_def containsPvtWrites_def code_defs
        sample_env_def addPvtRWSetToPvtUpdateBatch_def addEntriesToMetadataUpdates_def update_kv_def IsKVWriteDelete_def len_bytes_def
        UpdateMap_Put_def UpdateMap_PutValAndMetadata_def PutValAndMetadata_def private_block_def sample_block_def private_updates_def)
  then show ?thesis by (simp add: validateAndPreparePvtBatch_def private_block_def incrementPvtdataVersionIfNeeded_def)
qed

theorem private_updates_of_block_witness:
  "pvt_hashes_match sample_env private_data private_tx \<and>
   UpdateMap_Get private_updates ''ns1'' ''c1'' ''a'' = Some \<lparr>vv_Value = Some ''2'', vv_Metadata = None, vv_Version = Some (NewHeight 8 0)\<rparr>"
proof -
  have s: "pvt_tx_set sample_env private_data private_tx =
      Some \<lparr>NsPvtRwSets = [\<lparr>np_NameSpace = ''ns1'', CollPvtRwSets = [\<lparr>cp_CollectionName = ''c1'', cp_KvRwSet = update_kv\<rparr>]\<rparr>]\<rparr>"
    using private_set by (simp add: pvt_tx_set_def private_data_def private_tx_def containsPvtWrites_def code_defs sample_env_def)
  have "blk_txs private_block = [private_tx]" "blk_num private_block = 8" "tx_indexInBlock private_tx = 0"
    by (simp_all add: private_block_def sample_block_def private_tx_def)
  with private_updates_of_block [OF private_prepared [of sample_db' newPubAndHashUpdates], of "''ns1''" "''c1''" "''a''"] s
  show ?thesis
    by (simp add: block_pvt_writes_def block_pvt_metadata_def pvt_set_writes_def pvt_set_metadata_def update_kv_def pvt_value_def
        IsKVWriteDelete_def len_bytes_def)
qed

theorem converted_transaction_loses_queries_and_metadata_witness:
  "validateLtx sample_ltx_libs sample_validator (GettxRWSetForLightTxn update_tx) newPubAndHashUpdates =
     validateTx (libs.truncate sample_ltx_libs) sample_validator (strip_rwset update_tx) newPubAndHashUpdates"
proof -
  have "same_wire_format sample_ltx_libs {}" by (simp add: same_wire_format_def sample_ltx_libs_def)
  from converted_transaction_loses_queries_and_metadata [OF this, of sample_validator update_tx newPubAndHashUpdates sample_marshal id]
  show ?thesis by blast
qed

end
