(* ===== verification/BlockCutter.thy ===== *)
theory BlockCutter
  imports ProtoUtil
begin

text \<open>
  The block cutter of the ordering service (src/orderer/common/blockcutter/blockcutter.go): it collects
  ordered messages and cuts them into batches by count and by size. The start time of a batch and the
  metrics are only observed, so the state leaves them out. A slice without elements stands for nil: the
  code never makes an empty slice of pending messages that is not nil.
\<close>

section \<open>State\<close>

record BatchSize =
  bs_MaxMessageCount :: u32
  bs_PreferredMaxBytes :: u32

record SubmitRequest =
  sr_Payload :: "Envelope option"

record receiver =
  rc_pendingBatch :: "Envelope list"
  rc_pendingFollowerBatch :: "SubmitRequest list"
  rc_pendingBatchSizeBytes :: u32
  rc_MaxBatchSize :: u32

definition NewReceiverImpl :: "u32 \<Rightarrow> receiver" where
  "NewReceiverImpl maxBatchSize =
     \<lparr>rc_pendingBatch = [], rc_pendingFollowerBatch = [], rc_pendingBatchSizeBytes = 0, rc_MaxBatchSize = maxBatchSize\<rparr>"

definition messageSizeBytes :: "Envelope \<Rightarrow> u32" where
  "messageSizeBytes message = of_nat (length (env_Payload message) + length (env_Signature message))"

text \<open>The batch parameters: those of the channel, or the count given when the cutter was made.\<close>

definition batchSize :: "BatchSize option \<Rightarrow> receiver \<Rightarrow> BatchSize res" where
  "batchSize ordererConfig r =
     (case ordererConfig of
        None \<Rightarrow> Inl (Panic ''Could not retrieve orderer config to query batch parameters, block cutting is not possible'')
      | Some b \<Rightarrow> Inr (if rc_MaxBatchSize r \<noteq> 0 then b\<lparr>bs_MaxMessageCount := rc_MaxBatchSize r\<rparr> else b))"

section \<open>Envelopes\<close>

definition Cut :: "receiver \<Rightarrow> Envelope list \<times> receiver" where
  "Cut r = (rc_pendingBatch r, r\<lparr>rc_pendingBatch := [], rc_pendingBatchSizeBytes := 0\<rparr>)"

definition Ordered :: "BatchSize option \<Rightarrow> Envelope \<Rightarrow> receiver \<Rightarrow> ((Envelope list list \<times> bool) \<times> receiver) res" where
  "Ordered ordererConfig msg r =
     bindE (batchSize ordererConfig r) (\<lambda>b.
     let n = messageSizeBytes msg in
     if n > bs_PreferredMaxBytes b then
       (let (batches, r) = (if rc_pendingBatch r \<noteq> [] then let (batch, r) = Cut r in ([batch], r) else ([], r)) in
        Inr ((batches @ [[msg]], False), r))
     else
       (let (batches, r) =
              (if rc_pendingBatchSizeBytes r + n > bs_PreferredMaxBytes b then let (batch, r) = Cut r in ([batch], r) else ([], r));
            r = r\<lparr>rc_pendingBatch := rc_pendingBatch r @ [msg], rc_pendingBatchSizeBytes := rc_pendingBatchSizeBytes r + n\<rparr> in
        if of_nat (length (rc_pendingBatch r)) \<ge> bs_MaxMessageCount b
        then let (batch, r) = Cut r in Inr ((batches @ [batch], False), r)
        else Inr ((batches, True), r)))"

section \<open>Requests of followers\<close>

definition CutBatch :: "receiver \<Rightarrow> SubmitRequest list \<times> receiver" where
  "CutBatch r = (rc_pendingFollowerBatch r, r\<lparr>rc_pendingFollowerBatch := [], rc_pendingBatchSizeBytes := 0\<rparr>)"

definition OrderedBatch :: "BatchSize option \<Rightarrow> SubmitRequest \<Rightarrow> receiver \<Rightarrow> ((SubmitRequest list list \<times> bool) \<times> receiver) res" where
  "OrderedBatch ordererConfig req r =
     bindE (batchSize ordererConfig r) (\<lambda>b.
     bindE (deref (sr_Payload req)) (\<lambda>payload.
     let n = messageSizeBytes payload in
     if n > bs_PreferredMaxBytes b then
       (let (batches, r) = (if rc_pendingFollowerBatch r \<noteq> [] then let (batch, r) = CutBatch r in ([batch], r) else ([], r)) in
        Inr ((batches @ [[req]], False), r))
     else
       (let (batches, r) =
              (if rc_pendingBatchSizeBytes r + n > bs_PreferredMaxBytes b then let (batch, r) = CutBatch r in ([batch], r) else ([], r));
            r = r\<lparr>rc_pendingFollowerBatch := rc_pendingFollowerBatch r @ [req], rc_pendingBatchSizeBytes := rc_pendingBatchSizeBytes r + n\<rparr> in
        if of_nat (length (rc_pendingFollowerBatch r)) \<ge> bs_MaxMessageCount b
        then let (batch, r) = CutBatch r in Inr ((batches @ [batch], False), r)
        else Inr ((batches, True), r))))"

section \<open>What a cutter promises\<close>

text \<open>
  The events of a cutter that is used for envelopes, and a run: the batches so far and the state. Each
  message comes with the configuration at that time.
\<close>

datatype cutter_event = OrderedEvent "BatchSize option" Envelope | CutEvent

definition event_msgs :: "cutter_event \<Rightarrow> Envelope list" where
  "event_msgs ev = (case ev of OrderedEvent _ msg \<Rightarrow> [msg] | CutEvent \<Rightarrow> [])"

definition cutter_step :: "cutter_event \<Rightarrow> Envelope list list \<times> receiver \<Rightarrow> (Envelope list list \<times> receiver) res" where
  "cutter_step ev = (\<lambda>(batches, r). case ev of
     OrderedEvent cfg msg \<Rightarrow> bindE (Ordered cfg msg r) (\<lambda>((new, pending), r). Inr (batches @ new, r))
   | CutEvent \<Rightarrow> (let (batch, r) = Cut r in Inr (if batch = [] then batches else batches @ [batch], r)))"

definition cutter_ok :: "receiver \<Rightarrow> bool" where
  "cutter_ok r \<longleftrightarrow> (rc_pendingBatch r = [] \<longrightarrow> rc_pendingBatchSizeBytes r = 0)"

text \<open>The size of a batch, as a number.\<close>

definition batch_bytes :: "Envelope list \<Rightarrow> nat" where
  "batch_bytes batch = (\<Sum>msg\<leftarrow>batch. unat (messageSizeBytes msg))"

definition batch_within :: "BatchSize \<Rightarrow> Envelope list \<Rightarrow> bool" where
  "batch_within b batch \<longleftrightarrow> batch \<noteq> [] \<and>
     ((length batch \<le> unat (bs_MaxMessageCount b) \<and> batch_bytes batch \<le> unat (bs_PreferredMaxBytes b)) \<or>
      (length batch = 1 \<and> batch_bytes batch > unat (bs_PreferredMaxBytes b)))"

definition cutter_within :: "BatchSize \<Rightarrow> receiver \<Rightarrow> bool" where
  "cutter_within b r \<longleftrightarrow> unat (rc_pendingBatchSizeBytes r) = batch_bytes (rc_pendingBatch r) \<and>
     batch_bytes (rc_pendingBatch r) \<le> unat (bs_PreferredMaxBytes b) \<and>
     (rc_pendingBatch r \<noteq> [] \<longrightarrow> length (rc_pendingBatch r) < unat (bs_MaxMessageCount b))"

section \<open>Lemmas\<close>

lemma Ordered_outcome:
  assumes "cutter_ok r" and "Ordered cfg msg r = Inr ((batches, pending), r')"
  shows "concat batches @ rc_pendingBatch r' = rc_pendingBatch r @ [msg]" "[] \<notin> set batches" "cutter_ok r'"
    and "pending \<longleftrightarrow> rc_pendingBatch r' \<noteq> []" "batches = [] \<Longrightarrow> pending" "length batches \<le> 2"
    and "length batches = 2 \<Longrightarrow> \<not> pending"
  using assms
  by (auto simp: Ordered_def Cut_def cutter_ok_def Let_def bindE_Inr_iff split: if_splits prod.splits)

lemma cutter_step_keeps:
  assumes "cutter_step ev (batches, r) = Inr (batches', r')" and "cutter_ok r" and "[] \<notin> set batches"
  shows "concat batches' @ rc_pendingBatch r' = (concat batches @ rc_pendingBatch r) @ event_msgs ev \<and> [] \<notin> set batches' \<and> cutter_ok r'"
proof (cases ev)
  case (OrderedEvent cfg msg)
  then obtain new pending where "Ordered cfg msg r = Inr ((new, pending), r')" "batches' = batches @ new"
    using assms(1) by (auto simp: cutter_step_def bindE_Inr_iff split: prod.splits)
  then show ?thesis using Ordered_outcome(1-3) [OF assms(2)] assms(3) OrderedEvent by (simp add: event_msgs_def)
next
  case CutEvent
  then show ?thesis using assms by (auto simp: cutter_step_def Cut_def event_msgs_def cutter_ok_def split: if_splits)
qed

lemma cutter_run_keeps:
  assumes "foldE cutter_step evs (batches, r) = Inr (batches', r')" and "cutter_ok r" and "[] \<notin> set batches"
  shows "concat batches' @ rc_pendingBatch r' = (concat batches @ rc_pendingBatch r) @ concat (map event_msgs evs) \<and> [] \<notin> set batches'"
  using assms
proof (induction evs arbitrary: batches r)
  case (Cons ev evs)
  obtain batches1 r1 where 1: "cutter_step ev (batches, r) = Inr (batches1, r1)" and 2: "foldE cutter_step evs (batches1, r1) = Inr (batches', r')"
    using Cons.prems(1) by (auto simp: bindE_Inr_iff)
  note * = cutter_step_keeps [OF 1 Cons.prems(2,3)]
  show ?case using Cons.IH [OF 2] * by auto
qed simp

lemma NewReceiverImpl_ok: "cutter_ok (NewReceiverImpl m)"
  by (simp add: cutter_ok_def NewReceiverImpl_def)

text \<open>
  Cutting neither loses, duplicates nor reorders messages: whatever the configuration is at each
  message, the batches of a run followed by the pending messages are the messages that came in, in
  their order, and no batch is empty.
\<close>

lemma batches_partition_messages:
  assumes "foldE cutter_step evs ([], NewReceiverImpl maxBatchSize) = Inr (batches, r)"
  shows "concat batches @ rc_pendingBatch r = concat (map event_msgs evs) \<and> [] \<notin> set batches"
  using cutter_run_keeps [OF assms NewReceiverImpl_ok] by (simp add: NewReceiverImpl_def)

section \<open>Limits of a batch\<close>

lemma batch_bytes_simps [simp]:
  "batch_bytes [] = 0" "batch_bytes (xs @ ys) = batch_bytes xs + batch_bytes ys" "batch_bytes [msg] = unat (messageSizeBytes msg)"
  by (simp_all add: batch_bytes_def)

lemma unat_add_below:
  fixes x y :: u32
  assumes "unat x \<le> p" "unat y \<le> p" "p < 2 ^ 31"
  shows "unat (x + y) = unat x + unat y"
  using assms by (intro unat_add_lem [THEN iffD1]) simp

lemma count_less_iff:
  fixes m :: u32
  assumes "n \<le> unat m"
  shows "m \<le> of_nat n \<longleftrightarrow> unat m \<le> n"
proof -
  have "unat m < 2 ^ 32" using unsigned_less [of m] by simp
  then have "n < 2 ^ 32" using assms by linarith
  then have "unat (of_nat n :: u32) = n" by (simp add: unat_of_nat)
  then show ?thesis by (simp add: word_le_nat_alt)
qed

lemma Ordered_within:
  assumes "Ordered cfg msg r = Inr ((batches, pending), r')" and "batchSize cfg r = Inr b" and "cutter_within b r"
    and "0 < bs_MaxMessageCount b" and "bs_PreferredMaxBytes b < 2 ^ 31"
  shows "(\<forall>batch\<in>set batches. batch_within b batch) \<and> cutter_within b r' \<and> rc_MaxBatchSize r' = rc_MaxBatchSize r"
proof -
  let ?n = "messageSizeBytes msg" and ?p = "bs_PreferredMaxBytes b" and ?k = "bs_MaxMessageCount b"
  have p: "unat ?p < 2 ^ 31" using assms(5) by (simp add: word_less_nat_alt)
  have k: "0 < unat ?k" using assms(4) by (simp add: word_less_nat_alt)
  have add: "unat (rc_pendingBatchSizeBytes r + ?n) = unat (rc_pendingBatchSizeBytes r) + unat ?n" if "\<not> ?n > ?p"
    using that assms(3) p by (intro unat_add_below) (auto simp: cutter_within_def word_less_nat_alt)
  have cnt: "?k \<le> of_nat (Suc (length (rc_pendingBatch r))) \<longleftrightarrow> unat ?k \<le> Suc (length (rc_pendingBatch r))"
    using assms(3) k by (intro count_less_iff) (auto simp: cutter_within_def)
  have one: "?k \<le> 1 \<longleftrightarrow> unat ?k \<le> 1" by (simp add: word_le_nat_alt)
  have w: "unat (rc_pendingBatchSizeBytes r) = batch_bytes (rc_pendingBatch r)" "batch_bytes (rc_pendingBatch r) \<le> unat ?p"
    "rc_pendingBatch r \<noteq> [] \<Longrightarrow> length (rc_pendingBatch r) < unat ?k"
    using assms(3) by (simp_all add: cutter_within_def)
  have pend: "batch_within b (rc_pendingBatch r)" if "rc_pendingBatch r \<noteq> []"
    using w that by (simp add: batch_within_def)
  show ?thesis
  proof (cases "?n > ?p")
    case True
    then have "batches = (if rc_pendingBatch r = [] then [[msg]] else [rc_pendingBatch r, [msg]])"
      and "r' = (if rc_pendingBatch r = [] then r else r\<lparr>rc_pendingBatch := [], rc_pendingBatchSizeBytes := 0\<rparr>)"
      using assms(1,2) by (auto simp: Ordered_def Cut_def split: if_splits)
    moreover have "batch_within b [msg]" using True by (simp add: batch_within_def word_less_nat_alt)
    ultimately show ?thesis using pend assms(3) by (simp add: cutter_within_def)
  next
    case small: False
    then have n: "unat ?n \<le> unat ?p" by (simp add: word_less_nat_alt)
    show ?thesis
    proof (cases "rc_pendingBatchSizeBytes r + ?n > ?p")
      case True
      then have "batch_bytes (rc_pendingBatch r) + unat ?n > unat ?p" using add [OF small] w(1) by (simp add: word_less_nat_alt)
      then have ne: "rc_pendingBatch r \<noteq> []" using n by auto
      show ?thesis
        using assms(1,2) small True pend [OF ne] n k one
        by (auto simp: Ordered_def Cut_def cutter_within_def batch_within_def Let_def split: if_splits)
    next
      case False
      then have "batch_bytes (rc_pendingBatch r) + unat ?n \<le> unat ?p" using add [OF small] w(1) by (simp add: word_less_nat_alt)
      moreover have "Suc (length (rc_pendingBatch r)) \<le> unat ?k" using w(3) k by (cases "rc_pendingBatch r = []") auto
      ultimately show ?thesis
        using assms(1,2) small False add [OF small] w(1) cnt
        by (auto simp: Ordered_def Cut_def cutter_within_def batch_within_def Let_def split: if_splits)
    qed
  qed
qed


text \<open>The events carry the configuration \<open>c\<close>.\<close>

definition configured :: "BatchSize \<Rightarrow> cutter_event \<Rightarrow> bool" where
  "configured c ev \<longleftrightarrow> (case ev of OrderedEvent cfg _ \<Rightarrow> cfg = Some c | CutEvent \<Rightarrow> True)"

lemma batchSize_cong: "rc_MaxBatchSize r' = rc_MaxBatchSize r \<Longrightarrow> batchSize cfg r' = batchSize cfg r"
  by (simp add: batchSize_def split: option.splits)

lemma cutter_step_within:
  assumes "cutter_step ev (batches, r) = Inr (batches', r')" and "configured c ev" and "batchSize (Some c) r = Inr b"
    and "cutter_within b r" and "0 < bs_MaxMessageCount b" and "bs_PreferredMaxBytes b < 2 ^ 31"
    and "\<forall>batch\<in>set batches. batch_within b batch"
  shows "(\<forall>batch\<in>set batches'. batch_within b batch) \<and> cutter_within b r' \<and> rc_MaxBatchSize r' = rc_MaxBatchSize r"
proof (cases ev)
  case (OrderedEvent cfg msg)
  then obtain new pending where "Ordered (Some c) msg r = Inr ((new, pending), r')" "batches' = batches @ new"
    using assms(1,2) by (auto simp: cutter_step_def configured_def bindE_Inr_iff split: prod.splits)
  then show ?thesis using Ordered_within [OF _ assms(3-6)] assms(7) by auto
next
  case CutEvent
  have "batch_within b (rc_pendingBatch r)" if "rc_pendingBatch r \<noteq> []"
    using assms(4) that by (simp add: cutter_within_def batch_within_def)
  moreover have "batches' = (if rc_pendingBatch r = [] then batches else batches @ [rc_pendingBatch r])"
    and "r' = r\<lparr>rc_pendingBatch := [], rc_pendingBatchSizeBytes := 0\<rparr>"
    using assms(1) CutEvent by (simp_all add: cutter_step_def Cut_def)
  ultimately show ?thesis using assms(7) by (simp add: cutter_within_def)
qed

lemma cutter_run_within:
  assumes "foldE cutter_step evs (batches, r) = Inr (batches', r')" and "\<forall>ev\<in>set evs. configured c ev"
    and "batchSize (Some c) r = Inr b" and "cutter_within b r" and "0 < bs_MaxMessageCount b" and "bs_PreferredMaxBytes b < 2 ^ 31"
    and "\<forall>batch\<in>set batches. batch_within b batch"
  shows "\<forall>batch\<in>set batches'. batch_within b batch"
  using assms
proof (induction evs arbitrary: batches r)
  case (Cons ev evs)
  obtain batches1 r1 where 1: "cutter_step ev (batches, r) = Inr (batches1, r1)" and 2: "foldE cutter_step evs (batches1, r1) = Inr (batches', r')"
    using Cons.prems(1) by (auto simp: bindE_Inr_iff)
  have *: "(\<forall>batch\<in>set batches1. batch_within b batch) \<and> cutter_within b r1 \<and> rc_MaxBatchSize r1 = rc_MaxBatchSize r"
    using cutter_step_within [OF 1 _ Cons.prems(3-7)] Cons.prems(2) by simp
  show ?case
    using Cons.IH [OF 2] Cons.prems(2,3,5,6) * batchSize_cong [of r1 r "Some c"] by simp
qed simp


text \<open>
  C37: The pending envelopes and the pending requests of followers share one counter of bytes. After a
  request that is kept pending, an envelope that would fit on its own but not together with the request
  makes the cutter return a batch without messages, and resets the counter while the request is still
  pending.
\<close>

theorem shared_counter_cuts_empty_batch:
  assumes "messageSizeBytes env \<le> p" and "messageSizeBytes msg \<le> p" and "messageSizeBytes env + messageSizeBytes msg > p"
    and "1 < k" and "1 < m \<or> m = 0"
  shows "\<exists>r r'. OrderedBatch (Some \<lparr>bs_MaxMessageCount = k, bs_PreferredMaxBytes = p\<rparr>) \<lparr>sr_Payload = Some env\<rparr> (NewReceiverImpl m)
             = Inr (([], True), r)
       \<and> Ordered (Some \<lparr>bs_MaxMessageCount = k, bs_PreferredMaxBytes = p\<rparr>) msg r = Inr (([[]], True), r')
       \<and> rc_pendingFollowerBatch r' = [\<lparr>sr_Payload = Some env\<rparr>] \<and> rc_pendingBatchSizeBytes r' = messageSizeBytes msg"
proof -
  let ?c = "\<lparr>bs_MaxMessageCount = k, bs_PreferredMaxBytes = p\<rparr>" and ?req = "\<lparr>sr_Payload = Some env\<rparr>"
  define k' where "k' = (if m \<noteq> 0 then m else k)"
  have k': "\<not> k' \<le> 1" using assms(4,5) by (auto simp: k'_def)
  have b: "batchSize (Some ?c) r = Inr \<lparr>bs_MaxMessageCount = k', bs_PreferredMaxBytes = p\<rparr>" if "rc_MaxBatchSize r = m" for r
    using that by (simp add: batchSize_def k'_def)
  let ?r = "\<lparr>rc_pendingBatch = [], rc_pendingFollowerBatch = [?req], rc_pendingBatchSizeBytes = messageSizeBytes env, rc_MaxBatchSize = m\<rparr>"
  have 1: "OrderedBatch (Some ?c) ?req (NewReceiverImpl m) = Inr (([], True), ?r)"
    using assms(1) k' by (simp add: OrderedBatch_def b NewReceiverImpl_def Let_def)
  have 2: "Ordered (Some ?c) msg ?r = Inr (([[]], True), ?r\<lparr>rc_pendingBatch := [msg], rc_pendingBatchSizeBytes := messageSizeBytes msg\<rparr>)"
    using assms(2,3) k' by (simp add: Ordered_def b Cut_def Let_def)
  show ?thesis by (intro exI conjI, rule 1, rule 2) simp_all
qed

section \<open>Instances\<close>

definition sample_env2 :: "bytes \<Rightarrow> Envelope" where
  "sample_env2 payload = \<lparr>env_Payload = payload, env_Signature = [], env_Type = 3, env_LeanEnv = None\<rparr>"

definition sample_size :: BatchSize where
  "sample_size = \<lparr>bs_MaxMessageCount = 2, bs_PreferredMaxBytes = 5\<rparr>"

definition sample_events :: "cutter_event list" where
  "sample_events = map (\<lambda>p. OrderedEvent (Some sample_size) (sample_env2 p)) [''abc'', ''abcd'', ''a'', ''abcdefg'', ''ab''] @ [CutEvent]"

definition sample_batches :: "Envelope list list" where
  "sample_batches = map (map sample_env2) [[''abc''], [''abcd'', ''a''], [''abcdefg''], [''ab'']]"

lemma sample_cut: "foldE cutter_step sample_events ([], NewReceiverImpl 0) = Inr (sample_batches, NewReceiverImpl 0)"
  by code_simp


theorem shared_counter_cuts_empty_batch_witness:
  "\<exists>r r'. OrderedBatch (Some sample_size) \<lparr>sr_Payload = Some (sample_env2 ''abc'')\<rparr> (NewReceiverImpl 0) = Inr (([], True), r)
       \<and> Ordered (Some sample_size) (sample_env2 ''defg'') r = Inr (([[]], True), r')
       \<and> rc_pendingFollowerBatch r' = [\<lparr>sr_Payload = Some (sample_env2 ''abc'')\<rparr>] \<and> rc_pendingBatchSizeBytes r' = messageSizeBytes (sample_env2 ''defg'')"
  unfolding sample_size_def
  by (rule shared_counter_cuts_empty_batch) (simp_all add: sample_env2_def messageSizeBytes_def)

end
