(* ===== verification/BlockWriter.thy ===== *)
theory BlockWriter
  imports BlockCutter
begin

text \<open>
  The writer of blocks of the ordering service (src/orderer/common/multichannel/blockwriter.go) and the
  chain of the solo consenter (src/orderer/consensus/solo/consensus.go), which drives the block cutter and
  the writer from one loop. The code commits a block in a goroutine that holds a lock which the next
  write acquires first; the loop reads only the header of the last block meanwhile, which the goroutine does
  not change. So writing a block is one step here. The ledger is the list of its blocks, oldest first.
  The configuration of the channel (package channelconfig, the validator of package configtx and the filters
  of package msgprocessor) is a parameter, like the codecs, the hash and the signer.
\<close>

section \<open>Environment and state\<close>

record OrdererConfig =
  oc_ConsensusType :: gostring
  oc_BatchSize :: BatchSize

record ('cfg, 'bundle) writer_env =
  we_proto :: proto_lib
  ma_Envelope :: "Envelope \<Rightarrow> bytes option"
  ma_LastConfig :: "LastConfig \<Rightarrow> bytes"
  ma_Metadata :: "bytes \<Rightarrow> (bytes \<times> bytes) list \<Rightarrow> bytes"
  ma_OrdererBlockMetadata :: "OrdererBlockMetadata \<Rightarrow> bytes"
  we_asn1 :: "u64 \<Rightarrow> bytes \<Rightarrow> bytes \<Rightarrow> bytes"
  we_sha256 :: "bytes \<Rightarrow> bytes"
  we_SignatureHeader :: "bytes res"
  we_Sign :: "bytes \<Rightarrow> bytes res"
  um_ConfigEnvelope :: "bytes \<Rightarrow> 'cfg option"
  we_Validate :: "'bundle \<Rightarrow> 'cfg \<Rightarrow> bool"
  we_CreateBundle :: "gostring \<Rightarrow> 'cfg \<Rightarrow> 'bundle option"
  we_Sequence :: "'bundle \<Rightarrow> u64"
  we_OrdererConfig :: "'bundle \<Rightarrow> OrdererConfig option"
  we_ProcessNormalMsg :: "'bundle \<Rightarrow> Envelope \<Rightarrow> bool"
  we_ProcessConfigMsg :: "'bundle \<Rightarrow> Envelope \<Rightarrow> Envelope option"

record 'bundle BlockWriter =
  bw_lastConfigBlockNum :: u64
  bw_lastConfigSeq :: u64
  bw_lastBlock :: Block
  bw_bundle :: 'bundle
  bw_ledger :: "Block list"

section \<open>Writing blocks\<close>

definition newBlockWriter :: "('cfg, 'bundle) writer_env \<Rightarrow> Block \<Rightarrow> 'bundle \<Rightarrow> Block list \<Rightarrow> 'bundle BlockWriter res" where
  "newBlockWriter e lastBlock bundle ledger =
     bindE (deref (b_Header lastBlock)) (\<lambda>header.
     bindE (if bh_Number header \<noteq> 0 then orPanic (GetLastConfigIndexFromBlock (we_proto e) lastBlock) else Inr 0) (\<lambda>num.
       Inr \<lparr>bw_lastConfigBlockNum = num, bw_lastConfigSeq = we_Sequence e bundle, bw_lastBlock = lastBlock,
            bw_bundle = bundle, bw_ledger = ledger\<rparr>))"

definition marshalEnvelope :: "('cfg, 'bundle) writer_env \<Rightarrow> Envelope \<Rightarrow> bytes res" where
  "marshalEnvelope e msg =
     (case ma_Envelope e msg of None \<Rightarrow> Inl (Panic ''Could not marshal envelope'') | Some bytes \<Rightarrow> Inr bytes)"

definition CreateNextBlock :: "('cfg, 'bundle) writer_env \<Rightarrow> Envelope list \<Rightarrow> 'bundle BlockWriter \<Rightarrow> Block res" where
  "CreateNextBlock e messages bw =
     bindE (deref (b_Header (bw_lastBlock bw))) (\<lambda>last.
     let previousBlockHash = BlockHeaderHash (we_asn1 e) (we_sha256 e) last in
     bindE (mapE (marshalEnvelope e) messages) (\<lambda>data.
     let block = NewBlock (bh_Number last + 1) previousBlockHash in
       Inr (block\<lparr>b_Header := map_option (\<lambda>h. h\<lparr>bh_DataHash := BlockDataHash (we_sha256 e) data\<rparr>) (b_Header block),
                 b_Data := Some data\<rparr>)))"

definition setMetadata :: "nat \<Rightarrow> bytes \<Rightarrow> Block \<Rightarrow> Block res" where
  "setMetadata i value block =
     bindE (deref (b_Metadata block)) (\<lambda>md.
     if i < length md then Inr (block\<lparr>b_Metadata := Some (md[i := value])\<rparr>) else Inl (Panic ''index out of range''))"

definition addLastConfig :: "('cfg, 'bundle) writer_env \<Rightarrow> 'bundle BlockWriter \<Rightarrow> 'bundle BlockWriter res" where
  "addLastConfig e bw =
     (let configSeq = we_Sequence e (bw_bundle bw) in
      bindE (if configSeq > bw_lastConfigSeq bw
             then bindE (deref (b_Header (bw_lastBlock bw))) (\<lambda>h.
                    Inr (bw\<lparr>bw_lastConfigBlockNum := bh_Number h, bw_lastConfigSeq := configSeq\<rparr>))
             else Inr bw) (\<lambda>bw.
      bindE (setMetadata BlockMetadataIndex_LAST_CONFIG
              (ma_Metadata e (ma_LastConfig e \<lparr>lcfg_Index = bw_lastConfigBlockNum bw\<rparr>) []) (bw_lastBlock bw)) (\<lambda>block.
        Inr (bw\<lparr>bw_lastBlock := block\<rparr>))))"

definition addBlockSignature :: "('cfg, 'bundle) writer_env \<Rightarrow> bytes \<Rightarrow> 'bundle BlockWriter \<Rightarrow> 'bundle BlockWriter res" where
  "addBlockSignature e consenterMetadata bw =
     bindE (we_SignatureHeader e) (\<lambda>signatureHeader.
     let blockSignatureValue = ma_OrdererBlockMetadata e
           \<lparr>obm_LastConfig = Some \<lparr>lcfg_Index = bw_lastConfigBlockNum bw\<rparr>, obm_ConsenterMetadata = ma_Metadata e consenterMetadata []\<rparr> in
     bindE (deref (b_Header (bw_lastBlock bw))) (\<lambda>h.
     bindE (we_Sign e (blockSignatureValue @ signatureHeader @ we_asn1 e (bh_Number h) (bh_PreviousHash h) (bh_DataHash h))) (\<lambda>signature.
     bindE (setMetadata BlockMetadataIndex_SIGNATURES
             (ma_Metadata e blockSignatureValue [(signatureHeader, signature)]) (bw_lastBlock bw)) (\<lambda>block.
       Inr (bw\<lparr>bw_lastBlock := block\<rparr>)))))"

definition commitBlock :: "('cfg, 'bundle) writer_env \<Rightarrow> bytes \<Rightarrow> 'bundle BlockWriter \<Rightarrow> 'bundle BlockWriter res" where
  "commitBlock e encodedMetadataValue bw =
     bindE (addLastConfig e bw) (\<lambda>bw.
     bindE (addBlockSignature e encodedMetadataValue bw) (\<lambda>bw.
       Inr (bw\<lparr>bw_ledger := bw_ledger bw @ [bw_lastBlock bw]\<rparr>)))"

definition WriteBlock :: "('cfg, 'bundle) writer_env \<Rightarrow> Block \<Rightarrow> bytes \<Rightarrow> 'bundle BlockWriter \<Rightarrow> 'bundle BlockWriter res" where
  "WriteBlock e block encodedMetadataValue bw = commitBlock e encodedMetadataValue (bw\<lparr>bw_lastBlock := block\<rparr>)"

definition WriteBlockSync :: "('cfg, 'bundle) writer_env \<Rightarrow> Block \<Rightarrow> bytes \<Rightarrow> 'bundle BlockWriter \<Rightarrow> 'bundle BlockWriter res" where
  "WriteBlockSync e block encodedMetadataValue bw = commitBlock e encodedMetadataValue (bw\<lparr>bw_lastBlock := block\<rparr>)"

definition ExtractEnvelope :: "proto_lib \<Rightarrow> Block \<Rightarrow> nat \<Rightarrow> Envelope res" where
  "ExtractEnvelope p block i =
     (case b_Data block of None \<Rightarrow> Inl (Error ''block data is nil'')
      | Some data \<Rightarrow> if i \<ge> length data then Inl (Error ''envelope index out of bounds'') else GetEnvelopeFromBlock p (data ! i))"

text \<open>
  A config block takes effect before it is written. For a transaction that creates a channel the registrar
  starts the new chain, which leaves this writer as it is.
\<close>

definition applyConfig :: "('cfg, 'bundle) writer_env \<Rightarrow> Payload \<Rightarrow> ChannelHeader \<Rightarrow> bytes \<Rightarrow> 'bundle BlockWriter \<Rightarrow> (bytes \<times> 'bundle BlockWriter) res" where
  "applyConfig e payload chdr encodedMetadataValue bw =
     (case um_ConfigEnvelope e (pl_Data payload) of None \<Rightarrow> Inl (Panic ''did not have config envelope encoded'')
      | Some configEnvelope \<Rightarrow>
     if \<not> we_Validate e (bw_bundle bw) configEnvelope then Inl (Panic ''could not apply it'')
     else case we_CreateBundle e (chdr_ChannelId chdr) configEnvelope of None \<Rightarrow> Inl (Panic ''could not convert it to a bundle'')
      | Some bundle \<Rightarrow>
     case we_OrdererConfig e bundle of None \<Rightarrow> Inl (Panic ''OrdererConfig missing from bundle'')
      | Some oc \<Rightarrow>
     case we_OrdererConfig e (bw_bundle bw) of None \<Rightarrow> Inl (Panic ''has no orderer configuration'')
      | Some current \<Rightarrow>
     Inr (if oc_ConsensusType current \<noteq> oc_ConsensusType oc then [] else encodedMetadataValue, bw\<lparr>bw_bundle := bundle\<rparr>))"

definition WriteConfigBlock :: "('cfg, 'bundle) writer_env \<Rightarrow> Block \<Rightarrow> bytes \<Rightarrow> 'bundle BlockWriter \<Rightarrow> 'bundle BlockWriter res" where
  "WriteConfigBlock e block encodedMetadataValue bw =
     bindE (orPanic (ExtractEnvelope (we_proto e) block 0)) (\<lambda>ctx.
     bindE (orPanic (unmarshal ''Payload'' (um_Payload (we_proto e) (env_Payload ctx)))) (\<lambda>payload.
     bindE (deref (pl_Header payload)) (\<lambda>header.
     bindE (orPanic (unmarshal ''ChannelHeader'' (um_ChannelHeader (we_proto e) (hdr_ChannelHeader header)))) (\<lambda>chdr.
     bindE (if chdr_Type chdr = HeaderType_ORDERER_TRANSACTION
            then bindE (orPanic (unmarshal ''Envelope'' (um_Envelope (we_proto e) (pl_Data payload)))) (\<lambda>_. Inr (encodedMetadataValue, bw))
            else if chdr_Type chdr = HeaderType_CONFIG then applyConfig e payload chdr encodedMetadataValue bw
            else Inl (Panic ''Told to write a config block with unknown header type'')) (\<lambda>(encodedMetadataValue, bw).
     WriteBlockSync e block encodedMetadataValue bw)))))"

section \<open>The solo chain\<close>

datatype message = NormalMsg u64 Envelope | ConfigMsg u64 Envelope

record 'bundle chain =
  ch_cutter :: receiver
  ch_writer :: "'bundle BlockWriter"
  ch_timer :: bool

definition writeBatch :: "('cfg, 'bundle) writer_env \<Rightarrow> Envelope list \<Rightarrow> 'bundle BlockWriter \<Rightarrow> 'bundle BlockWriter res" where
  "writeBatch e batch bw = bindE (CreateNextBlock e batch bw) (\<lambda>block. WriteBlock e block [] bw)"

definition main_normal :: "('cfg, 'bundle) writer_env \<Rightarrow> u64 \<Rightarrow> Envelope \<Rightarrow> 'bundle chain \<Rightarrow> 'bundle chain res" where
  "main_normal e configSeq normalMsg ch =
     (let bundle = bw_bundle (ch_writer ch) in
      if configSeq < we_Sequence e bundle \<and> \<not> we_ProcessNormalMsg e bundle normalMsg then Inr ch
      else bindE (Ordered (map_option oc_BatchSize (we_OrdererConfig e bundle)) normalMsg (ch_cutter ch)) (\<lambda>((batches, pending), cutter).
           bindE (foldE (writeBatch e) batches (ch_writer ch)) (\<lambda>writer.
             Inr \<lparr>ch_cutter = cutter, ch_writer = writer,
                  ch_timer = (if ch_timer ch \<and> \<not> pending then False
                              else if \<not> ch_timer ch \<and> pending then True else ch_timer ch)\<rparr>)))"

definition main_config :: "('cfg, 'bundle) writer_env \<Rightarrow> u64 \<Rightarrow> Envelope \<Rightarrow> 'bundle chain \<Rightarrow> 'bundle chain res" where
  "main_config e configSeq configMsg ch =
     (let bundle = bw_bundle (ch_writer ch) in
      case (if configSeq < we_Sequence e bundle then we_ProcessConfigMsg e bundle configMsg else Some configMsg) of
        None \<Rightarrow> Inr ch
      | Some configMsg \<Rightarrow>
          (let (batch, cutter) = Cut (ch_cutter ch) in
           bindE (if batch \<noteq> [] then writeBatch e batch (ch_writer ch) else Inr (ch_writer ch)) (\<lambda>writer.
           bindE (CreateNextBlock e [configMsg] writer) (\<lambda>block.
           bindE (WriteConfigBlock e block [] writer) (\<lambda>writer.
             Inr \<lparr>ch_cutter = cutter, ch_writer = writer, ch_timer = False\<rparr>)))))"

definition main_timer :: "('cfg, 'bundle) writer_env \<Rightarrow> 'bundle chain \<Rightarrow> 'bundle chain res" where
  "main_timer e ch =
     (let (batch, cutter) = Cut (ch_cutter ch); ch = ch\<lparr>ch_cutter := cutter, ch_timer := False\<rparr> in
      if batch = [] then Inr ch
      else bindE (writeBatch e batch (ch_writer ch)) (\<lambda>writer. Inr (ch\<lparr>ch_writer := writer\<rparr>)))"

text \<open>
  One round of the loop: a message arrives, or the timer fires, which it does only when it is set. A round
  that panics ends the process and has no next state.
\<close>

datatype event = Receive message | Timeout

inductive main_step :: "('cfg, 'bundle) writer_env \<Rightarrow> 'bundle chain \<Rightarrow> event \<Rightarrow> 'bundle chain \<Rightarrow> bool" for e where
  normal: "main_normal e configSeq msg ch = Inr ch' \<Longrightarrow> main_step e ch (Receive (NormalMsg configSeq msg)) ch'"
| config: "main_config e configSeq msg ch = Inr ch' \<Longrightarrow> main_step e ch (Receive (ConfigMsg configSeq msg)) ch'"
| timeout: "ch_timer ch \<Longrightarrow> main_timer e ch = Inr ch' \<Longrightarrow> main_step e ch Timeout ch'"

inductive_cases main_step_normalE: "main_step e ch (Receive (NormalMsg configSeq msg)) ch'"
inductive_cases main_step_configE: "main_step e ch (Receive (ConfigMsg configSeq msg)) ch'"
inductive_cases main_step_timeoutE: "main_step e ch Timeout ch'"

definition newChain :: "u32 \<Rightarrow> 'bundle BlockWriter \<Rightarrow> 'bundle chain" where
  "newChain maxBatchSize bw = \<lparr>ch_cutter = NewReceiverImpl maxBatchSize, ch_writer = bw, ch_timer = False\<rparr>"

text \<open>
  The messages that a round accepts for ordering, and a run with the messages it accepted so far. A config
  message may be replaced when it is processed again.
\<close>

definition accepted :: "('cfg, 'bundle) writer_env \<Rightarrow> 'bundle chain \<Rightarrow> event \<Rightarrow> Envelope list" where
  "accepted e ch ev =
     (let bundle = bw_bundle (ch_writer ch) in
      case ev of
        Receive (NormalMsg configSeq msg) \<Rightarrow>
          if configSeq < we_Sequence e bundle \<and> \<not> we_ProcessNormalMsg e bundle msg then [] else [msg]
      | Receive (ConfigMsg configSeq msg) \<Rightarrow>
          (case (if configSeq < we_Sequence e bundle then we_ProcessConfigMsg e bundle msg else Some msg) of
             None \<Rightarrow> [] | Some msg \<Rightarrow> [msg])
      | Timeout \<Rightarrow> [])"

inductive runs :: "('cfg, 'bundle) writer_env \<Rightarrow> 'bundle chain \<Rightarrow> Envelope list \<Rightarrow> 'bundle chain \<Rightarrow> bool" for e init where
  start: "runs e init [] init"
| step: "runs e init acc ch \<Longrightarrow> main_step e ch ev ch' \<Longrightarrow> runs e init (acc @ accepted e ch ev) ch'"

section \<open>What the chain promises\<close>

definition block_data :: "Block \<Rightarrow> bytes list" where
  "block_data block = (case b_Data block of None \<Rightarrow> [] | Some data \<Rightarrow> data)"

text \<open>A block follows another one.\<close>

definition linked :: "('cfg, 'bundle) writer_env \<Rightarrow> Block \<Rightarrow> Block \<Rightarrow> bool" where
  "linked e prev block \<longleftrightarrow>
     (case (b_Header prev, b_Header block) of
        (Some h, Some h') \<Rightarrow> bh_Number h' = bh_Number h + 1 \<and> bh_PreviousHash h' = BlockHeaderHash (we_asn1 e) (we_sha256 e) h
          \<and> bh_DataHash h' = BlockDataHash (we_sha256 e) (block_data block)
      | _ \<Rightarrow> False)"

definition writer_ok :: "('cfg, 'bundle) writer_env \<Rightarrow> 'bundle BlockWriter \<Rightarrow> bool" where
  "writer_ok e bw \<longleftrightarrow> bw_ledger bw \<noteq> [] \<and> last (bw_ledger bw) = bw_lastBlock bw \<and> successively (linked e) (bw_ledger bw)"

text \<open>What one or more writes do: the ledger grows by blocks with the given messages.\<close>

definition appended :: "('cfg, 'bundle) writer_env \<Rightarrow> Envelope list \<Rightarrow> 'bundle BlockWriter \<Rightarrow> 'bundle BlockWriter \<Rightarrow> bool" where
  "appended e msgs bw bw' \<longleftrightarrow> writer_ok e bw' \<and>
     (\<exists>new. bw_ledger bw' = bw_ledger bw @ new \<and> map (ma_Envelope e) msgs = map Some (concat (map block_data new)))"

definition pending_msgs :: "'bundle chain \<Rightarrow> Envelope list" where
  "pending_msgs ch = rc_pendingBatch (ch_cutter ch)"

definition chain_ok :: "('cfg, 'bundle) writer_env \<Rightarrow> 'bundle chain \<Rightarrow> bool" where
  "chain_ok e ch \<longleftrightarrow> cutter_ok (ch_cutter ch) \<and> writer_ok e (ch_writer ch) \<and> (ch_timer ch \<longleftrightarrow> pending_msgs ch \<noteq> [])"

section \<open>Lemmas\<close>

lemma commitBlock_result:
  assumes "commitBlock e md bw = Inr bw'"
  shows "bw_ledger bw' = bw_ledger bw @ [bw_lastBlock bw'] \<and> b_Header (bw_lastBlock bw') = b_Header (bw_lastBlock bw)
       \<and> b_Data (bw_lastBlock bw') = b_Data (bw_lastBlock bw) \<and> bw_bundle bw' = bw_bundle bw"
  using assms
  by (auto simp: commitBlock_def addLastConfig_def addBlockSignature_def setMetadata_def Let_def bindE_Inr_iff split: if_splits)

lemma marshalEnvelope_Inr: "marshalEnvelope e msg = Inr data \<longleftrightarrow> ma_Envelope e msg = Some data"
  by (simp add: marshalEnvelope_def split: option.splits)

lemma CreateNextBlock_result:
  assumes "CreateNextBlock e msgs bw = Inr block"
  shows "linked e (bw_lastBlock bw) block \<and> map (ma_Envelope e) msgs = map Some (block_data block)"
  using assms
  by (auto simp: CreateNextBlock_def NewBlock_def linked_def block_data_def Let_def bindE_Inr_iff mapE_Inr_iff marshalEnvelope_Inr
      list_all2_conv_all_nth deref_Inr_iff intro: nth_equalityI)

lemma block_data_cong: "b_Data block' = b_Data block \<Longrightarrow> block_data block' = block_data block"
  by (simp add: block_data_def)

lemma linked_cong: "b_Header block' = b_Header block \<Longrightarrow> b_Data block' = b_Data block \<Longrightarrow> linked e prev block' = linked e prev block"
  using block_data_cong [of block' block] by (simp add: linked_def split: option.splits)

lemma write_appended:
  assumes "CreateNextBlock e msgs bw = Inr block" and "commitBlock e md (bw0\<lparr>bw_lastBlock := block\<rparr>) = Inr bw'"
    and "bw_ledger bw0 = bw_ledger bw" and "writer_ok e bw"
  shows "appended e msgs bw bw' \<and> bw_bundle bw' = bw_bundle bw0"
proof -
  let ?b = "bw_lastBlock bw'"
  have l: "bw_ledger bw' = bw_ledger bw @ [?b]" and h: "b_Header ?b = b_Header block" "b_Data ?b = b_Data block"
    and b: "bw_bundle bw' = bw_bundle bw0"
    using commitBlock_result [OF assms(2)] assms(3) by simp_all
  have "linked e (bw_lastBlock bw) ?b" and data: "map (ma_Envelope e) msgs = map Some (block_data ?b)"
    using CreateNextBlock_result [OF assms(1)] linked_cong [OF h, of e] block_data_cong [OF h(2)] by simp_all
  then have "writer_ok e bw'" using assms(4) l unfolding writer_ok_def by (simp add: successively_append_iff)
  then show ?thesis using l data b unfolding appended_def by (intro conjI exI [of _ "[?b]"]) simp_all
qed

lemma appended_refl: "writer_ok e bw \<Longrightarrow> appended e [] bw bw"
  by (simp add: appended_def)

lemma appended_trans:
  assumes "appended e msgs bw bw1" and "appended e msgs' bw1 bw2"
  shows "appended e (msgs @ msgs') bw bw2"
proof -
  obtain new new' where "bw_ledger bw1 = bw_ledger bw @ new" "map (ma_Envelope e) msgs = map Some (concat (map block_data new))"
    "bw_ledger bw2 = bw_ledger bw1 @ new'" "map (ma_Envelope e) msgs' = map Some (concat (map block_data new'))"
    using assms unfolding appended_def by blast
  then show ?thesis using assms(2) unfolding appended_def by (intro conjI exI [of _ "new @ new'"]) simp_all
qed

lemma writeBatch_appended:
  assumes "writeBatch e batch bw = Inr bw'" and "writer_ok e bw"
  shows "appended e batch bw bw' \<and> bw_bundle bw' = bw_bundle bw"
proof -
  obtain block where "CreateNextBlock e batch bw = Inr block" "WriteBlock e block [] bw = Inr bw'"
    using assms(1) unfolding writeBatch_def go_res by blast
  then show ?thesis using write_appended [of e batch bw block "[]" bw bw'] assms(2) by (simp add: WriteBlock_def)
qed

lemma writeBatches_appended:
  assumes "foldE (writeBatch e) batches bw = Inr bw'" and "writer_ok e bw"
  shows "appended e (concat batches) bw bw'"
  using assms
proof (induction batches arbitrary: bw)
  case (Cons batch batches)
  obtain bw1 where 1: "writeBatch e batch bw = Inr bw1" and 2: "foldE (writeBatch e) batches bw1 = Inr bw'"
    using Cons.prems(1) by (auto simp: bindE_Inr_iff)
  have a: "appended e batch bw bw1" using writeBatch_appended [OF 1 Cons.prems(2)] by simp
  then have "appended e (concat batches) bw1 bw'" using Cons.IH [OF 2] by (simp add: appended_def)
  then show ?case using appended_trans [OF a] by simp
qed (simp add: appended_refl)

lemma applyConfig_ledger: "applyConfig e payload chdr md bw = Inr (md', bw') \<Longrightarrow> bw_ledger bw' = bw_ledger bw"
  by (auto simp: applyConfig_def split: option.splits if_splits)

lemma WriteConfigBlock_commit:
  assumes "WriteConfigBlock e block md bw = Inr bw'"
  obtains md' bw0 where "commitBlock e md' (bw0\<lparr>bw_lastBlock := block\<rparr>) = Inr bw'" "bw_ledger bw0 = bw_ledger bw"
proof -
  obtain payload chdr y where
    "(if chdr_Type chdr = HeaderType_ORDERER_TRANSACTION
      then bindE (orPanic (unmarshal ''Envelope'' (um_Envelope (we_proto e) (pl_Data payload)))) (\<lambda>_. Inr (md, bw))
      else if chdr_Type chdr = HeaderType_CONFIG then applyConfig e payload chdr md bw
      else Inl (Panic ''Told to write a config block with unknown header type'')) = Inr y"
    and w: "WriteBlockSync e block (fst y) (snd y) = Inr bw'"
    using assms unfolding WriteConfigBlock_def bindE_Inr_iff case_prod_beta by blast
  then have "bw_ledger (snd y) = bw_ledger bw"
    using applyConfig_ledger [of e payload chdr md bw "fst y" "snd y"] by (auto simp: bindE_Inr_iff split: if_splits)
  then show thesis using w that by (simp add: WriteBlockSync_def)
qed

text \<open>One round: the messages that were pending and those accepted now are written or pending, in order.\<close>

definition round_ok :: "('cfg, 'bundle) writer_env \<Rightarrow> 'bundle chain \<Rightarrow> Envelope list \<Rightarrow> 'bundle chain \<Rightarrow> bool" where
  "round_ok e ch msgs ch' \<longleftrightarrow> chain_ok e ch' \<and>
     (\<exists>written. pending_msgs ch @ msgs = written @ pending_msgs ch' \<and> appended e written (ch_writer ch) (ch_writer ch'))"

lemma round_okI:
  assumes "chain_ok e ch'" "pending_msgs ch @ msgs = written @ pending_msgs ch'" "appended e written (ch_writer ch) (ch_writer ch')"
  shows "round_ok e ch msgs ch'"
  using assms unfolding round_ok_def by blast

lemma round_unchanged: "chain_ok e ch \<Longrightarrow> round_ok e ch [] ch"
  by (rule round_okI [of _ _ _ _ "[]"]) (simp_all add: appended_refl chain_ok_def)

lemma main_normal_round:
  assumes "main_normal e configSeq msg ch = Inr ch'" and "chain_ok e ch"
  shows "round_ok e ch (accepted e ch (Receive (NormalMsg configSeq msg))) ch'"
proof (cases "configSeq < we_Sequence e (bw_bundle (ch_writer ch)) \<and> \<not> we_ProcessNormalMsg e (bw_bundle (ch_writer ch)) msg")
  case True
  then show ?thesis using assms round_unchanged [OF assms(2)] by (simp add: main_normal_def accepted_def Let_def)
next
  case False
  then obtain batches pending cutter writer
    where o: "Ordered (map_option oc_BatchSize (we_OrdererConfig e (bw_bundle (ch_writer ch)))) msg (ch_cutter ch) = Inr ((batches, pending), cutter)"
      and w: "foldE (writeBatch e) batches (ch_writer ch) = Inr writer"
      and ch': "ch' = \<lparr>ch_cutter = cutter, ch_writer = writer,
                  ch_timer = (if ch_timer ch \<and> \<not> pending then False else if \<not> ch_timer ch \<and> pending then True else ch_timer ch)\<rparr>"
    using assms(1) unfolding main_normal_def Let_def by (auto simp: go_res)
  have ok: "cutter_ok (ch_cutter ch)" "writer_ok e (ch_writer ch)" using assms(2) by (simp_all add: chain_ok_def)
  note co = Ordered_outcome [OF ok(1) o]
  have a: "appended e (concat batches) (ch_writer ch) writer" by (rule writeBatches_appended [OF w ok(2)])
  have "chain_ok e ch'" using co a by (simp add: ch' chain_ok_def pending_msgs_def appended_def)
  moreover have "accepted e ch (Receive (NormalMsg configSeq msg)) = [msg]" using False by (simp add: accepted_def Let_def)
  ultimately show ?thesis using co(1) a by (intro round_okI [of _ _ _ _ "concat batches"]) (simp_all add: ch' pending_msgs_def)
qed

lemma Cut_ok: "Cut r = (batch, r') \<Longrightarrow> batch = rc_pendingBatch r \<and> rc_pendingBatch r' = [] \<and> cutter_ok r'"
  by (auto simp: Cut_def cutter_ok_def)

lemma main_timer_round:
  assumes "main_timer e ch = Inr ch'" and "chain_ok e ch"
  shows "round_ok e ch [] ch' \<and> pending_msgs ch' = []"
proof -
  obtain cutter where c: "Cut (ch_cutter ch) = (pending_msgs ch, cutter)" "rc_pendingBatch cutter = []" "cutter_ok cutter"
    using Cut_ok [of "ch_cutter ch"] by (cases "Cut (ch_cutter ch)") (auto simp: pending_msgs_def)
  obtain writer where ch': "ch' = ch\<lparr>ch_cutter := cutter, ch_timer := False, ch_writer := writer\<rparr>"
    and a: "appended e (pending_msgs ch) (ch_writer ch) writer"
  proof (cases "pending_msgs ch = []")
    case True
    then have "ch' = ch\<lparr>ch_cutter := cutter, ch_timer := False, ch_writer := ch_writer ch\<rparr>"
      using assms(1) c by (cases ch) (auto simp: main_timer_def)
    moreover have "appended e (pending_msgs ch) (ch_writer ch) (ch_writer ch)"
      using True assms(2) by (simp add: appended_refl chain_ok_def)
    ultimately show thesis by (rule that)
  next
    case False
    then obtain writer where "writeBatch e (pending_msgs ch) (ch_writer ch) = Inr writer"
      "ch' = ch\<lparr>ch_cutter := cutter, ch_timer := False, ch_writer := writer\<rparr>"
      using assms(1) c(1) by (auto simp: main_timer_def bindE_Inr_iff)
    then show thesis using that writeBatch_appended assms(2) unfolding chain_ok_def by blast
  qed
  have "chain_ok e ch'" using a c by (simp add: ch' chain_ok_def pending_msgs_def appended_def)
  then show ?thesis using a c(2) by (auto intro!: round_okI [of _ _ _ _ "pending_msgs ch"] simp: ch' pending_msgs_def)
qed

lemma main_config_round:
  assumes "main_config e configSeq msg ch = Inr ch'" and "chain_ok e ch"
  shows "round_ok e ch (accepted e ch (Receive (ConfigMsg configSeq msg))) ch'"
proof (cases "if configSeq < we_Sequence e (bw_bundle (ch_writer ch)) then we_ProcessConfigMsg e (bw_bundle (ch_writer ch)) msg else Some msg")
  case None
  then have "accepted e ch (Receive (ConfigMsg configSeq msg)) = []" "ch' = ch"
    using assms(1) unfolding accepted_def main_config_def Let_def by (simp_all only: event.case message.case option.case sum.inject)
  then show ?thesis using round_unchanged [OF assms(2)] by simp
next
  case (Some configMsg)
  obtain cutter where c: "Cut (ch_cutter ch) = (pending_msgs ch, cutter)" "rc_pendingBatch cutter = []" "cutter_ok cutter"
    using Cut_ok [of "ch_cutter ch"] by (cases "Cut (ch_cutter ch)") (auto simp: pending_msgs_def)
  obtain writer block writer'
    where 1: "(if pending_msgs ch \<noteq> [] then writeBatch e (pending_msgs ch) (ch_writer ch) else Inr (ch_writer ch)) = Inr writer"
      and 2: "CreateNextBlock e [configMsg] writer = Inr block" and 3: "WriteConfigBlock e block [] writer = Inr writer'"
      and ch': "ch' = \<lparr>ch_cutter = cutter, ch_writer = writer', ch_timer = False\<rparr>"
    using assms(1) Some c(1) unfolding main_config_def Let_def by (auto simp: go_res)
  have a1: "appended e (pending_msgs ch) (ch_writer ch) writer"
    using 1 writeBatch_appended assms(2) by (auto simp: chain_ok_def appended_refl split: if_splits)
  obtain md' bw0 where "commitBlock e md' (bw0\<lparr>bw_lastBlock := block\<rparr>) = Inr writer'" "bw_ledger bw0 = bw_ledger writer"
    using WriteConfigBlock_commit [OF 3] by blast
  then have "appended e [configMsg] writer writer'" using write_appended [OF 2] a1 by (simp add: appended_def)
  then have a: "appended e (pending_msgs ch @ [configMsg]) (ch_writer ch) writer'" by (rule appended_trans [OF a1])
  have "chain_ok e ch'" using a c by (simp add: ch' chain_ok_def pending_msgs_def appended_def)
  moreover have "accepted e ch (Receive (ConfigMsg configSeq msg)) = [configMsg]" using Some by (simp add: accepted_def Let_def)
  ultimately show ?thesis
    using a c(2) by (intro round_okI [of _ _ _ _ "pending_msgs ch @ [configMsg]"]) (simp_all add: ch' pending_msgs_def)
qed

lemma main_step_round:
  assumes "main_step e ch ev ch'" and "chain_ok e ch"
  shows "round_ok e ch (accepted e ch ev) ch'"
  using assms
proof (cases rule: main_step.cases)
  case (timeout)
  then show ?thesis using main_timer_round [OF _ assms(2)] by (simp add: accepted_def Let_def)
qed (simp_all add: main_normal_round main_config_round assms(2))

lemma runs_ordered:
  assumes "runs e init acc ch" and "chain_ok e init" and "pending_msgs init = []"
  shows "chain_ok e ch \<and> (\<exists>written. acc = written @ pending_msgs ch \<and> appended e written (ch_writer init) (ch_writer ch))"
  using assms
proof (induction rule: runs.induct)
  case start
  then show ?case by (simp add: appended_refl chain_ok_def)
next
  case (step acc ch ev ch')
  obtain written where ok: "chain_ok e ch" and acc: "acc = written @ pending_msgs ch" and a: "appended e written (ch_writer init) (ch_writer ch)"
    using step.IH step.prems by blast
  obtain more where ok': "chain_ok e ch'" and more: "pending_msgs ch @ accepted e ch ev = more @ pending_msgs ch'"
    and b: "appended e more (ch_writer ch) (ch_writer ch')"
    using main_step_round [OF step.hyps(2) ok] unfolding round_ok_def by blast
  have "acc @ accepted e ch ev = (written @ more) @ pending_msgs ch'" using acc more by simp
  then show ?case using ok' appended_trans [OF a b] by blast
qed

lemma newChain_ok: "writer_ok e bw \<Longrightarrow> chain_ok e (newChain m bw) \<and> pending_msgs (newChain m bw) = [] \<and> ch_writer (newChain m bw) = bw"
  by (simp add: chain_ok_def newChain_def pending_msgs_def NewReceiverImpl_def cutter_ok_def)

text \<open>
  C32: Every message is ordered exactly once. After any run of the loop from a ledger that is a hash chain,
  the data of the blocks added to the ledger, followed by the messages pending in the cutter, are the
  messages that were accepted, in the order in which they came; nothing is lost, doubled or reordered,
  through batches cut by size, count, timer or a config message.
\<close>

theorem messages_ordered_exactly_once:
  assumes "runs e (newChain maxBatchSize bw) acc ch" and "writer_ok e bw"
  shows "\<exists>new. bw_ledger (ch_writer ch) = bw_ledger bw @ new \<and>
     map (ma_Envelope e) acc = map Some (concat (map block_data new)) @ map (ma_Envelope e) (pending_msgs ch)"
  using runs_ordered [OF assms(1)] newChain_ok [OF assms(2), of maxBatchSize] unfolding appended_def by auto

text \<open>
  C34: The ledger stays a hash chain in every reachable state: each block has the next number, the hash of
  the header before it and the hash of its own data, and the writer continues from the last block.
\<close>

theorem ledger_is_hash_chain:
  assumes "runs e (newChain maxBatchSize bw) acc ch" and "writer_ok e bw"
  shows "successively (linked e) (bw_ledger (ch_writer ch)) \<and> last (bw_ledger (ch_writer ch)) = bw_lastBlock (ch_writer ch)"
  using runs_ordered [OF assms(1)] newChain_ok [OF assms(2), of maxBatchSize] by (auto simp: chain_ok_def writer_ok_def)

section \<open>Liveness\<close>

text \<open>
  An infinite execution, in which the timer is fair: once it is set, it fires unless it is stopped first.
\<close>

definition execution :: "('cfg, 'bundle) writer_env \<Rightarrow> (nat \<Rightarrow> 'bundle chain) \<Rightarrow> (nat \<Rightarrow> event) \<Rightarrow> bool" where
  "execution e s ev \<longleftrightarrow> (\<forall>i. main_step e (s i) (ev i) (s (Suc i)))"

definition timer_fair :: "(nat \<Rightarrow> 'bundle chain) \<Rightarrow> (nat \<Rightarrow> event) \<Rightarrow> bool" where
  "timer_fair s ev \<longleftrightarrow> (\<forall>i. ch_timer (s i) \<longrightarrow> (\<exists>j\<ge>i. ev j = Timeout \<or> \<not> ch_timer (s j)))"

definition on_ledger :: "('cfg, 'bundle) writer_env \<Rightarrow> Envelope \<Rightarrow> 'bundle chain \<Rightarrow> bool" where
  "on_ledger e msg ch \<longleftrightarrow> (\<exists>block\<in>set (bw_ledger (ch_writer ch)). \<exists>bytes\<in>set (block_data block). ma_Envelope e msg = Some bytes)"

lemma execution_ok: "execution e s ev \<Longrightarrow> chain_ok e (s 0) \<Longrightarrow> chain_ok e (s i)"
proof (induction i)
  case (Suc i)
  then show ?case using main_step_round [of e "s i" "ev i" "s (Suc i)"] by (simp add: execution_def round_ok_def)
qed

lemma round_written_or_pending:
  assumes "round_ok e ch msgs ch'" and "msg \<in> set (pending_msgs ch @ msgs)" and "\<not> on_ledger e msg ch'"
  shows "msg \<in> set (pending_msgs ch')"
proof -
  obtain written new where eq: "pending_msgs ch @ msgs = written @ pending_msgs ch'"
    and new: "bw_ledger (ch_writer ch') = bw_ledger (ch_writer ch) @ new" "map (ma_Envelope e) written = map Some (concat (map block_data new))"
    using assms(1) unfolding round_ok_def appended_def by blast
  have "msg \<notin> set written"
  proof
    assume "msg \<in> set written"
    then have "ma_Envelope e msg \<in> set (map Some (concat (map block_data new)))" using new(2) by (metis image_eqI list.set_map)
    then show False using assms(3) new(1) by (auto simp: on_ledger_def)
  qed
  then show ?thesis using assms(2) unfolding eq by simp
qed

lemma eventually_on_ledger:
  assumes run: "execution e s ev" and ok: "chain_ok e (s 0)" and fair: "timer_fair s ev" and msg: "msg \<in> set (accepted e (s i) (ev i))"
  shows "\<exists>j>i. on_ledger e msg (s j)"
proof (rule ccontr)
  assume "\<not> (\<exists>j>i. on_ledger e msg (s j))"
  then have never: "\<not> on_ledger e msg (s j)" if "i < j" for j using that by blast
  have round: "round_ok e (s j) (accepted e (s j) (ev j)) (s (Suc j))" for j
    using run main_step_round execution_ok [OF run ok] unfolding execution_def by blast
  have pend: "msg \<in> set (pending_msgs (s (Suc i + k)))" for k
  proof (induction k)
    case 0
    then show ?case using round_written_or_pending [OF round [of i]] msg never by simp
  next
    case (Suc k)
    then show ?case using round_written_or_pending [OF round [of "Suc i + k"]] never by simp
  qed
  have timer: "ch_timer (s j)" if "i < j" for j
    using pend [of "j - Suc i"] execution_ok [OF run ok, of j] that by (auto simp: chain_ok_def)
  then obtain j where j: "i < j" "ev j = Timeout"
    using fair unfolding timer_fair_def by (metis Suc_le_lessD lessI order_less_le_trans)
  then have "main_timer e (s j) = Inr (s (Suc j))" using run unfolding execution_def by (metis main_step_timeoutE)
  then have "pending_msgs (s (Suc j)) = []" using main_timer_round execution_ok [OF run ok] by blast
  then show False using pend [of "j - i"] j(1) by simp
qed

text \<open>
  C33: Every accepted message reaches the ledger. In an execution of the loop whose timer fires unless it is
  stopped, each message that is accepted is in a block of the ledger at some later time: the timer runs
  whenever messages are pending, and no path drops them.
\<close>

theorem accepted_message_reaches_ledger:
  assumes "execution e s ev" and "s 0 = newChain maxBatchSize bw" and "writer_ok e bw" and "timer_fair s ev"
    and "msg \<in> set (accepted e (s i) (ev i))"
  shows "\<exists>j>i. \<exists>block\<in>set (bw_ledger (ch_writer (s j))). \<exists>bytes\<in>set (block_data block). ma_Envelope e msg = Some bytes"
  using eventually_on_ledger [OF assms(1) _ assms(4,5)] newChain_ok [OF assms(3), of maxBatchSize] assms(2) by (simp add: on_ledger_def)

section \<open>Restart\<close>

text \<open>The protobuf library on the metadata of a block: decoding inverts encoding, and a message with a field set is not empty.\<close>

definition metadata_codec :: "('cfg, 'bundle) writer_env \<Rightarrow> bool" where
  "metadata_codec e \<longleftrightarrow> (\<forall>v sigs. um_Metadata (we_proto e) (ma_Metadata e v sigs) = (\<lparr>pm_Value = v\<rparr>, True)) \<and>
     (\<forall>m. um_OrdererBlockMetadata (we_proto e) (ma_OrdererBlockMetadata e m) = (m, True)) \<and>
     (\<forall>m. obm_LastConfig m \<noteq> None \<longrightarrow> ma_OrdererBlockMetadata e m \<noteq> [])"

lemma commitBlock_metadata:
  assumes "commitBlock e md bw = Inr bw'"
  obtains mds sigs where "b_Metadata (bw_lastBlock bw') = Some mds" "BlockMetadataIndex_SIGNATURES < length mds"
    "mds ! BlockMetadataIndex_SIGNATURES =
       ma_Metadata e (ma_OrdererBlockMetadata e \<lparr>obm_LastConfig = Some \<lparr>lcfg_Index = bw_lastConfigBlockNum bw'\<rparr>,
         obm_ConsenterMetadata = ma_Metadata e md []\<rparr>) sigs"
proof -
  obtain bw1 bw2 where 1: "addBlockSignature e md bw1 = Inr bw2" and bw': "bw' = bw2\<lparr>bw_ledger := bw_ledger bw2 @ [bw_lastBlock bw2]\<rparr>"
    using assms unfolding commitBlock_def bindE_Inr_iff by blast
  obtain sigs block where "setMetadata BlockMetadataIndex_SIGNATURES
       (ma_Metadata e (ma_OrdererBlockMetadata e \<lparr>obm_LastConfig = Some \<lparr>lcfg_Index = bw_lastConfigBlockNum bw1\<rparr>,
         obm_ConsenterMetadata = ma_Metadata e md []\<rparr>) sigs) (bw_lastBlock bw1) = Inr block" and "bw2 = bw1\<lparr>bw_lastBlock := block\<rparr>"
    using 1 unfolding addBlockSignature_def Let_def bindE_Inr_iff by blast
  then show thesis using that bw' by (auto simp: setMetadata_def bindE_Inr_iff split: if_splits)
qed

lemma commitBlock_sequence:
  assumes "commitBlock e md bw = Inr bw'" and "bw_lastConfigSeq bw \<le> we_Sequence e (bw_bundle bw)"
  shows "bw_lastConfigSeq bw' = we_Sequence e (bw_bundle bw')"
proof -
  obtain bw1 bw2 where "addLastConfig e bw = Inr bw1" "addBlockSignature e md bw1 = Inr bw2" "bw' = bw2\<lparr>bw_ledger := bw_ledger bw2 @ [bw_lastBlock bw2]\<rparr>"
    using assms(1) unfolding commitBlock_def bindE_Inr_iff by blast
  moreover from this(1) have "bw_lastConfigSeq bw1 = we_Sequence e (bw_bundle bw1)"
    using assms(2) by (auto simp: addLastConfig_def Let_def bindE_Inr_iff split: if_splits)
  ultimately show ?thesis by (auto simp: addBlockSignature_def Let_def bindE_Inr_iff)
qed

text \<open>
  C35: A writer survives a restart: a writer created from the last block that was committed, with the same
  configuration and ledger, is the writer that committed it, with the same number of the last config block.
\<close>

theorem restarted_writer_resumes:
  assumes "commitBlock e md bw = Inr bw'" and "metadata_codec e" and "bw_lastConfigSeq bw \<le> we_Sequence e (bw_bundle bw)"
    and "b_Header (bw_lastBlock bw) = Some h" and "bh_Number h \<noteq> 0"
  shows "newBlockWriter e (bw_lastBlock bw') (bw_bundle bw') (bw_ledger bw') = Inr bw'"
proof -
  obtain mds sigs where "b_Metadata (bw_lastBlock bw') = Some mds" "BlockMetadataIndex_SIGNATURES < length mds"
    "mds ! BlockMetadataIndex_SIGNATURES =
       ma_Metadata e (ma_OrdererBlockMetadata e \<lparr>obm_LastConfig = Some \<lparr>lcfg_Index = bw_lastConfigBlockNum bw'\<rparr>,
         obm_ConsenterMetadata = ma_Metadata e md []\<rparr>) sigs"
    by (rule commitBlock_metadata [OF assms(1)])
  then have "GetLastConfigIndexFromBlock (we_proto e) (bw_lastBlock bw') = Inr (bw_lastConfigBlockNum bw')"
    using assms(2) by (simp add: GetLastConfigIndexFromBlock_def GetMetadataFromBlock_def metadata_codec_def index_def)
  moreover have "b_Header (bw_lastBlock bw') = Some h" using commitBlock_result [OF assms(1)] assms(4) by simp
  ultimately show ?thesis
    using assms(5) commitBlock_sequence [OF assms(1,3)] by (simp add: newBlockWriter_def)
qed

section \<open>Witnesses\<close>

text \<open>
  An environment in which messages are their payload, the hash is the identity and the orderer metadata is
  the number of the config block in unary. The configuration never changes: a normal message that is older
  than sequence 1 is refused.
\<close>

definition solo_proto :: proto_lib where
  "solo_proto = sample_proto\<lparr>um_Metadata := (\<lambda>b. (\<lparr>pm_Value = b\<rparr>, True)),
     um_OrdererBlockMetadata := (\<lambda>b. (case b of [] \<Rightarrow> (\<lparr>obm_LastConfig = None, obm_ConsenterMetadata = []\<rparr>, False)
       | c # r \<Rightarrow> (\<lparr>obm_LastConfig = (if c = CHR ''S'' then Some \<lparr>lcfg_Index = of_nat (length (takeWhile (\<lambda>d. d = CHR ''1'') r))\<rparr> else None),
                   obm_ConsenterMetadata = tl (dropWhile (\<lambda>d. d = CHR ''1'') r)\<rparr>, True)))\<rparr>"

definition unary :: "u64 \<Rightarrow> bytes" where
  "unary n = replicate (unat n) (CHR ''1'')"

definition solo_env :: "(unit, unit) writer_env" where
  "solo_env =
     \<lparr>we_proto = solo_proto, ma_Envelope = (\<lambda>msg. Some (env_Payload msg)), ma_LastConfig = (\<lambda>lc. unary (lcfg_Index lc)),
      ma_Metadata = (\<lambda>v _. v),
      ma_OrdererBlockMetadata = (\<lambda>m. (case obm_LastConfig m of None \<Rightarrow> ''N'' | Some lc \<Rightarrow> CHR ''S'' # unary (lcfg_Index lc)) @
        CHR ''.'' # obm_ConsenterMetadata m),
      we_asn1 = (\<lambda>n prev data. unary n @ CHR '':'' # prev @ data), we_sha256 = (\<lambda>b. b), we_SignatureHeader = Inr [],
      we_Sign = (\<lambda>_. Inr []), um_ConfigEnvelope = (\<lambda>_. None), we_Validate = (\<lambda>_ _. False), we_CreateBundle = (\<lambda>_ _. None),
      we_Sequence = (\<lambda>_. 1), we_OrdererConfig = (\<lambda>_. Some \<lparr>oc_ConsensusType = ''solo'', oc_BatchSize = sample_size\<rparr>),
      we_ProcessNormalMsg = (\<lambda>_ _. False), we_ProcessConfigMsg = (\<lambda>_ _. None)\<rparr>"

lemma solo_codec: "metadata_codec solo_env"
proof -
  have "takeWhile (\<lambda>d. d = CHR ''1'') (unary n @ CHR ''.'' # r) = unary n" "dropWhile (\<lambda>d. d = CHR ''1'') (unary n @ CHR ''.'' # r) = CHR ''.'' # r" for n r
    by (simp_all add: unary_def takeWhile_append dropWhile_append)
  moreover have "of_nat (length (unary n)) = n" for n by (simp add: unary_def)
  ultimately show ?thesis by (auto simp: metadata_codec_def solo_env_def solo_proto_def split: option.splits)
qed

definition solo_writer :: "unit BlockWriter" where
  "solo_writer = \<lparr>bw_lastConfigBlockNum = 0, bw_lastConfigSeq = 1, bw_lastBlock = NewBlock 0 [], bw_bundle = (), bw_ledger = [NewBlock 0 []]\<rparr>"

lemma solo_writer_ok: "writer_ok solo_env solo_writer"
  by (simp add: writer_ok_def solo_writer_def)

text \<open>A message arrives, the timer fires, and from then on only refused messages arrive.\<close>

definition solo_msg :: Envelope where
  "solo_msg = sample_env2 ''abc''"

definition solo_event :: "nat \<Rightarrow> event" where
  "solo_event i = (if i = 0 then Receive (NormalMsg 1 solo_msg) else if i = 1 then Timeout else Receive (NormalMsg 0 solo_msg))"

definition solo_block :: Block where
  "solo_block = \<lparr>b_Header = Some \<lparr>bh_Number = 1, bh_PreviousHash = '':'', bh_DataHash = ''abc''\<rparr>, b_Data = Some [''abc''],
     b_Metadata = Some (''S.'' # replicate 8 [])\<rparr>"

definition solo_state :: "nat \<Rightarrow> unit chain" where
  "solo_state i =
     (if i = 0 then newChain 0 solo_writer
      else if i = 1 then \<lparr>ch_cutter = (NewReceiverImpl 0)\<lparr>rc_pendingBatch := [solo_msg], rc_pendingBatchSizeBytes := 3\<rparr>, ch_writer = solo_writer, ch_timer = True\<rparr>
      else newChain 0 (solo_writer\<lparr>bw_lastBlock := solo_block, bw_ledger := [NewBlock 0 [], solo_block]\<rparr>))"

lemma solo_first: "main_normal solo_env 1 solo_msg (solo_state 0) = Inr (solo_state 1)"
  by code_simp

lemma solo_second: "main_timer solo_env (solo_state 1) = Inr (solo_state 2)"
  by code_simp

lemma solo_later: "1 < i \<Longrightarrow> main_normal solo_env 0 solo_msg (solo_state i) = Inr (solo_state i)"
  by (simp add: main_normal_def solo_env_def)

lemma solo_execution: "execution solo_env solo_state solo_event"
  unfolding execution_def
proof
  fix i :: nat
  consider "i = 0" | "i = 1" | "1 < i" by linarith
  then show "main_step solo_env (solo_state i) (solo_event i) (solo_state (Suc i))"
  proof cases
    case 2
    have "ch_timer (solo_state 1)" by (simp add: solo_state_def)
    then have "main_step solo_env (solo_state 1) Timeout (solo_state 2)" by (rule main_step.timeout [OF _ solo_second])
    then show ?thesis using 2 by (simp add: solo_event_def numeral_2_eq_2)
  next
    case 3
    then have "solo_state (Suc i) = solo_state i" by (simp add: solo_state_def)
    then show ?thesis using main_step.normal [OF solo_later [OF 3]] 3 by (simp add: solo_event_def)
  qed (use main_step.normal [OF solo_first] in \<open>simp add: solo_event_def\<close>)
qed

lemma solo_fair: "timer_fair solo_state solo_event"
  unfolding timer_fair_def
proof (intro allI impI)
  fix i :: nat
  assume "ch_timer (solo_state i)"
  then have "i = 1" by (simp add: solo_state_def newChain_def split: if_splits)
  then show "\<exists>j\<ge>i. solo_event j = Timeout \<or> \<not> ch_timer (solo_state j)" by (intro exI [of _ 1]) (simp add: solo_event_def)
qed

lemma solo_accepted: "accepted solo_env (solo_state 0) (solo_event 0) = [solo_msg]"
  by code_simp

lemma solo_runs: "runs solo_env (newChain 0 solo_writer) [solo_msg] (solo_state 2)"
proof -
  have "runs solo_env (newChain 0 solo_writer) [] (solo_state 0)" by (simp add: solo_state_def runs.start)
  then have "runs solo_env (newChain 0 solo_writer) ([] @ [solo_msg]) (solo_state 1)"
    using runs.step [OF _ solo_execution [unfolded execution_def, rule_format, of 0]] solo_accepted by fastforce
  then have "runs solo_env (newChain 0 solo_writer) (([] @ [solo_msg]) @ accepted solo_env (solo_state 1) (solo_event 1)) (solo_state (Suc 1))"
    by (rule runs.step [OF _ solo_execution [unfolded execution_def, rule_format, of 1]])
  then show ?thesis by (simp add: accepted_def solo_event_def Let_def numeral_2_eq_2)
qed

theorem messages_ordered_exactly_once_witness:
  "\<exists>new. bw_ledger (ch_writer (solo_state 2)) = bw_ledger solo_writer @ new \<and>
     map (ma_Envelope solo_env) [solo_msg] = map Some (concat (map block_data new)) @ map (ma_Envelope solo_env) (pending_msgs (solo_state 2))"
  by (rule messages_ordered_exactly_once [OF solo_runs solo_writer_ok])

theorem ledger_is_hash_chain_witness:
  "successively (linked solo_env) [NewBlock 0 [], solo_block]"
  using ledger_is_hash_chain [OF solo_runs solo_writer_ok] by (simp add: solo_state_def newChain_def)

theorem accepted_message_reaches_ledger_witness:
  "\<exists>j>0. \<exists>block\<in>set (bw_ledger (ch_writer (solo_state j))). \<exists>bytes\<in>set (block_data block). ma_Envelope solo_env solo_msg = Some bytes"
  by (rule accepted_message_reaches_ledger [OF solo_execution _ solo_writer_ok solo_fair])
     (simp_all add: solo_state_def solo_accepted [unfolded solo_state_def, simplified])

definition config_block :: Block where
  "config_block = solo_block\<lparr>b_Metadata := Some (''S1.'' # ''1'' # replicate 7 [])\<rparr>"

definition config_writer :: "unit BlockWriter" where
  "config_writer = \<lparr>bw_lastConfigBlockNum = 1, bw_lastConfigSeq = 1, bw_lastBlock = config_block, bw_bundle = (),
     bw_ledger = [NewBlock 0 [], config_block]\<rparr>"

lemma solo_commit: "commitBlock solo_env [] (solo_writer\<lparr>bw_lastBlock := solo_block, bw_lastConfigSeq := 0\<rparr>) = Inr config_writer"
  by code_simp

theorem restarted_writer_resumes_witness:
  "newBlockWriter solo_env config_block () [NewBlock 0 [], config_block] = Inr config_writer"
  using restarted_writer_resumes [OF solo_commit solo_codec] by (simp add: solo_block_def solo_env_def config_writer_def)

end
