(* ===== verification/PurgeMgr.thy ===== *)
theory PurgeMgr
  imports PrivacyState
begin

text \<open>
  The expiry of private data (txmgmt/pvtstatepurgemgmt and src/core/ledger/pvtdatapolicy): the schedule of
  keys by the block at which they expire, kept in a leveldb, and the manager that adds the expired keys
  to the updates of a block. The background goroutine that prepares the working set holds a lock that all
  users of the working set acquire, so preparing it is one step. The codec of the schedule entries and the
  hash are parameters. A nil map is \<open>None\<close>: writing into it panics.
\<close>

section \<open>Blocks to live\<close>

definition defaultBTL :: u64 where "defaultBTL = - 1"

definition ComputeExpiringBlock :: "u64 \<Rightarrow> u64 \<Rightarrow> u64" where
  "ComputeExpiringBlock committingBlock btl =
     (let expiryBlk = committingBlock + btl + 1 in if expiryBlk \<le> committingBlock then - 1 else expiryBlk)"

text \<open>
  The policy caches what the provider of collection configurations says. \<open>CollectionInfo\<close> gives the
  configured number of blocks, if the collection exists.
\<close>

type_synonym collectionInfoProvider = "gostring \<Rightarrow> gostring \<Rightarrow> u64 option res"
type_synonym btl_cache = "(gostring \<times> gostring, u64) gomap"

definition GetBTL :: "collectionInfoProvider \<Rightarrow> gostring \<Rightarrow> gostring \<Rightarrow> btl_cache \<Rightarrow> (u64 \<times> btl_cache) res" where
  "GetBTL CollectionInfo namespace collection cache =
     (case map_of cache (namespace, collection) of
        Some btl \<Rightarrow> Inr (btl, cache)
      | None \<Rightarrow>
          bindE (CollectionInfo namespace collection) (\<lambda>collConfig. case collConfig of
            None \<Rightarrow> Inl (Error ''collection could not be found'')
          | Some btlConfigured \<Rightarrow>
              (let btl = (if btlConfigured > 0 then btlConfigured else defaultBTL) in
               Inr (btl, AList.update (namespace, collection) btl cache))))"

definition GetExpiringBlock ::
  "collectionInfoProvider \<Rightarrow> gostring \<Rightarrow> gostring \<Rightarrow> u64 \<Rightarrow> btl_cache \<Rightarrow> (u64 \<times> btl_cache) res" where
  "GetExpiringBlock CollectionInfo namespace collection committingBlock cache =
     bindE (GetBTL CollectionInfo namespace collection cache) (\<lambda>(btl, cache).
       Inr (ComputeExpiringBlock committingBlock btl, cache))"

section \<open>Keys of a schedule entry\<close>

record KeyAndHash =
  kh_Key :: gostring
  kh_Hash :: bytes

record Collections =
  cs_Map :: "(gostring, KeyAndHash list) gomap option"

record PvtdataKeys =
  pk_Map :: "(gostring, Collections) gomap option"

definition newPvtdataKeys :: PvtdataKeys where "newPvtdataKeys = \<lparr>pk_Map = Some []\<rparr>"
definition newCollections :: Collections where "newCollections = \<lparr>cs_Map = Some []\<rparr>"

definition writable :: "'a option \<Rightarrow> 'a res" where
  "writable m = (case m of None \<Rightarrow> Inl (Panic ''assignment to entry in nil map'') | Some m \<Rightarrow> Inr m)"

text \<open>Looking up in a nil map finds nothing, so a nil map is always written to.\<close>

definition getOrCreateCollections :: "gostring \<Rightarrow> PvtdataKeys \<Rightarrow> Collections res" where
  "getOrCreateCollections ns pvtdataKeys =
     bindE (writable (pk_Map pvtdataKeys)) (\<lambda>m. Inr (case map_of m ns of None \<Rightarrow> newCollections | Some colls \<Rightarrow> colls))"

definition getOrCreateKeysAndHashes :: "gostring \<Rightarrow> Collections \<Rightarrow> KeyAndHash list res" where
  "getOrCreateKeysAndHashes coll colls =
     bindE (writable (cs_Map colls)) (\<lambda>m. Inr (case map_of m coll of None \<Rightarrow> [] | Some l \<Rightarrow> l))"

definition PvtdataKeys_add :: "gostring \<Rightarrow> gostring \<Rightarrow> gostring \<Rightarrow> bytes \<Rightarrow> PvtdataKeys \<Rightarrow> PvtdataKeys res" where
  "PvtdataKeys_add ns coll key keyhash pvtdataKeys =
     bindE (getOrCreateCollections ns pvtdataKeys) (\<lambda>colls.
     bindE (getOrCreateKeysAndHashes coll colls) (\<lambda>keysAndHashes.
     let colls = colls\<lparr>cs_Map := map_option (AList.update coll (keysAndHashes @ [\<lparr>kh_Key = key, kh_Hash = keyhash\<rparr>])) (cs_Map colls)\<rparr> in
       Inr (pvtdataKeys\<lparr>pk_Map := map_option (AList.update ns colls) (pk_Map pvtdataKeys)\<rparr>)))"

definition map_entries :: "('k, 'v) gomap option \<Rightarrow> ('k, 'v) gomap" where
  "map_entries m = (case m of None \<Rightarrow> [] | Some m \<Rightarrow> m)"

definition PvtdataKeys_addAll :: "PvtdataKeys \<Rightarrow> PvtdataKeys \<Rightarrow> PvtdataKeys res" where
  "PvtdataKeys_addAll toAdd =
     foldE (\<lambda>(ns, colls). foldE (\<lambda>(coll, keysAndHashes). foldE (\<lambda>k. PvtdataKeys_add ns coll (kh_Key k) (kh_Hash k)) keysAndHashes)
       (map_entries (cs_Map colls))) (map_entries (pk_Map toAdd))"

section \<open>The schedule\<close>

record expiryInfoKey =
  ek_committingBlk :: u64
  ek_expiryBlk :: u64

record expiryInfo =
  ei_expiryInfoKey :: expiryInfoKey
  ei_pvtdataKeys :: PvtdataKeys

text \<open>The libraries: the codec of schedule entries, the hash, and the policy of the collections.\<close>

record purge_env =
  pg_Marshal :: "PvtdataKeys \<Rightarrow> bytes res"
  pg_Unmarshal :: "bytes \<Rightarrow> PvtdataKeys res"
  pg_ComputeHash :: "bytes \<Rightarrow> bytes"
  pg_GetExpiringBlock :: "gostring \<Rightarrow> gostring \<Rightarrow> u64 \<Rightarrow> u64 res"

record 'b expiryKeeper =
  xk_leveldb :: "'b goleveldb_ops"
  xk_dbName :: gostring
  xk_store :: 'b

definition expiryPrefix :: char where "expiryPrefix = CHR ''1''"

definition encodeExpiryInfoKey :: "expiryInfoKey \<Rightarrow> bytes res" where
  "encodeExpiryInfoKey expinfoKey =
     bindE (EncodeOrderPreservingVarUint64 (ek_expiryBlk expinfoKey)) (\<lambda>e.
     bindE (EncodeOrderPreservingVarUint64 (ek_committingBlk expinfoKey)) (\<lambda>c. Inr (expiryPrefix # e @ c)))"

definition encodeKV :: "purge_env \<Rightarrow> expiryInfo \<Rightarrow> (bytes \<times> bytes) res" where
  "encodeKV e expinfo =
     bindE (encodeExpiryInfoKey (ei_expiryInfoKey expinfo)) (\<lambda>key.
     bindE (pg_Marshal e (ei_pvtdataKeys expinfo)) (\<lambda>value. Inr (key, value)))"

definition decodeExpiryInfo :: "purge_env \<Rightarrow> bytes \<Rightarrow> bytes \<Rightarrow> expiryInfo res" where
  "decodeExpiryInfo e key value =
     (if key = [] then Inl (Panic ''slice bounds out of range'') else
      bindE (DecodeOrderPreservingVarUint64 (tl key)) (\<lambda>(expiryBlk, n).
      bindE (DecodeOrderPreservingVarUint64 (drop (n + 1) key)) (\<lambda>(committingBlk, _).
      bindE (pg_Unmarshal e value) (\<lambda>pvtdataKeys.
        Inr \<lparr>ei_expiryInfoKey = \<lparr>ek_committingBlk = committingBlk, ek_expiryBlk = expiryBlk\<rparr>, ei_pvtdataKeys = pvtdataKeys\<rparr>))))"

definition expiryKeeper_update :: "purge_env \<Rightarrow> expiryInfo list \<Rightarrow> expiryInfoKey list \<Rightarrow> 'b expiryKeeper \<Rightarrow> 'b expiryKeeper res" where
  "expiryKeeper_update e toTrack toClear ek =
     bindE (foldE (\<lambda>expinfo batch. bindE (encodeKV e expinfo) (\<lambda>(k, v). LevelBatch_Put k (Some v) batch))
              toTrack (DBHandle_NewUpdateBatch (xk_dbName ek))) (\<lambda>batch.
     bindE (foldE (\<lambda>expinfokey batch. bindE (encodeExpiryInfoKey expinfokey) (\<lambda>k. Inr (LevelBatch_Delete k batch))) toClear batch) (\<lambda>batch.
     bindE (DBHandle_WriteBatch (xk_leveldb ek) batch (xk_store ek)) (\<lambda>store. Inr (ek\<lparr>xk_store := store\<rparr>))))"

definition expiryKeeper_retrieve :: "purge_env \<Rightarrow> u64 \<Rightarrow> 'b expiryKeeper \<Rightarrow> expiryInfo list res" where
  "expiryKeeper_retrieve e expiringAtBlkNum ek =
     bindE (encodeExpiryInfoKey \<lparr>ek_committingBlk = 0, ek_expiryBlk = expiringAtBlkNum\<rparr>) (\<lambda>startKey.
     bindE (encodeExpiryInfoKey \<lparr>ek_committingBlk = 0, ek_expiryBlk = expiringAtBlkNum + 1\<rparr>) (\<lambda>endKey.
     bindE (DBHandle_GetIterator (xk_leveldb ek) (xk_dbName ek) (Some startKey) (Some endKey) (xk_store ek)) (\<lambda>itr.
       mapE (\<lambda>kv. bindE (Iterator_Key kv) (\<lambda>key. decodeExpiryInfo e key (snd kv))) itr)))"

definition retrieveByExpiryKey :: "purge_env \<Rightarrow> expiryInfoKey \<Rightarrow> 'b expiryKeeper \<Rightarrow> expiryInfo res" where
  "retrieveByExpiryKey e expiryKey ek =
     bindE (encodeExpiryInfoKey expiryKey) (\<lambda>key.
     bindE (DBHandle_Get (xk_leveldb ek) (xk_dbName ek) key (xk_store ek)) (\<lambda>value. decodeExpiryInfo e key (content value)))"

section \<open>Building the schedule of a block\<close>

type_synonym scheduleEntries = "(expiryInfoKey, PvtdataKeys) gomap"

definition neverExpires :: "u64 \<Rightarrow> bool" where "neverExpires expiryBlk = (expiryBlk = - 1)"

definition builder_add ::
  "purge_env \<Rightarrow> gostring \<Rightarrow> gostring \<Rightarrow> gostring \<Rightarrow> bytes \<Rightarrow> VersionedValue \<Rightarrow> scheduleEntries \<Rightarrow> scheduleEntries res" where
  "builder_add e ns coll key keyHash versionedValue scheduleEntries =
     bindE (deref (vv_Version versionedValue)) (\<lambda>ver.
     let committingBlk = BlockNum ver in
     bindE (pg_GetExpiringBlock e ns coll committingBlk) (\<lambda>expiryBlk.
     if vv_Value versionedValue = None \<or> neverExpires expiryBlk then Inr scheduleEntries
     else
       (let expinfoKey = \<lparr>ek_committingBlk = committingBlk, ek_expiryBlk = expiryBlk\<rparr>;
            pvtdataKeys = (case map_of scheduleEntries expinfoKey of None \<Rightarrow> newPvtdataKeys | Some p \<Rightarrow> p) in
        bindE (PvtdataKeys_add ns coll key keyHash pvtdataKeys) (\<lambda>pvtdataKeys.
          Inr (AList.update expinfoKey pvtdataKeys scheduleEntries)))))"

definition getExpiryInfo :: "scheduleEntries \<Rightarrow> expiryInfo list" where
  "getExpiryInfo scheduleEntries = map (\<lambda>(k, p). \<lparr>ei_expiryInfoKey = k, ei_pvtdataKeys = p\<rparr>) scheduleEntries"

definition hashedKeyOf :: "purge_env \<Rightarrow> PvtdataCompositeKey \<Rightarrow> HashedCompositeKey" where
  "hashedKeyOf e k = \<lparr>hk_Namespace = pk_Namespace k, hk_CollectionName = pk_CollectionName k, hk_KeyHash = pg_ComputeHash e (pk_Key k)\<rparr>"

definition buildExpirySchedule :: "purge_env \<Rightarrow> UpdateMap \<Rightarrow> UpdateMap \<Rightarrow> expiryInfo list res" where
  "buildExpirySchedule e pvtUpdates hashedUpdates =
     bindE (foldE (\<lambda>(k, vv) (entries, hashedUpdateKeys).
         bindE (builder_add e (pk_Namespace k) (pk_CollectionName k) (pk_Key k) (pg_ComputeHash e (pk_Key k)) vv entries) (\<lambda>entries.
           Inr (entries, AList.delete (hashedKeyOf e k) hashedUpdateKeys)))
       (Pvt_ToCompositeKeyMap pvtUpdates) ([], Hashed_ToCompositeKeyMap hashedUpdates)) (\<lambda>(entries, hashedUpdateKeys).
     bindE (foldE (\<lambda>(k, vv). builder_add e (hk_Namespace k) (hk_CollectionName k) [] (hk_KeyHash k) vv) hashedUpdateKeys entries) (\<lambda>entries.
       Inr (getExpiryInfo entries)))"

section \<open>The manager\<close>

record keyAndVersion =
  kv_key :: gostring
  kv_committingBlock :: u64
  kv_purgeKeyOnly :: bool

type_synonym expiryInfoMap = "(HashedCompositeKey, keyAndVersion) gomap"

record workingset =
  ws_toPurge :: expiryInfoMap
  ws_toClearFromSchedule :: "expiryInfoKey list"
  ws_expiringBlk :: u64
  ws_err :: "string option"

record 'b PurgeMgr =
  pm_expKeeper :: "'b expiryKeeper"
  pm_workingset :: "workingset option"

definition InstantiatePurgeMgr :: "'b expiryKeeper \<Rightarrow> 'b PurgeMgr" where
  "InstantiatePurgeMgr expKeeper = \<lparr>pm_expKeeper = expKeeper, pm_workingset = None\<rparr>"

definition sameVersion :: "Height option \<Rightarrow> u64 \<Rightarrow> bool" where
  "sameVersion version blockNum = (case version of None \<Rightarrow> False | Some h \<Rightarrow> BlockNum h = blockNum)"

definition sameVersionFromVal :: "VersionedValue option \<Rightarrow> u64 \<Rightarrow> bool" where
  "sameVersionFromVal vv blockNum = (case vv of None \<Rightarrow> False | Some vv \<Rightarrow> sameVersion (vv_Version vv) blockNum)"

definition transformToExpiryInfoMap :: "expiryInfo list \<Rightarrow> expiryInfoMap" where
  "transformToExpiryInfoMap expiryInfo =
     fold (\<lambda>expinfo. fold (\<lambda>(ns, colls). fold (\<lambda>(coll, keysAndHashes). fold (\<lambda>keyAndHash.
         AList.update \<lparr>hk_Namespace = ns, hk_CollectionName = coll, hk_KeyHash = kh_Hash keyAndHash\<rparr>
           \<lparr>kv_key = kh_Key keyAndHash, kv_committingBlock = ek_committingBlk (ei_expiryInfoKey expinfo), kv_purgeKeyOnly = False\<rparr>)
       keysAndHashes) (map_entries (cs_Map colls))) (map_entries (pk_Map (ei_pvtdataKeys expinfo)))) expiryInfo []"

definition preloadCommittedVersionsInCache :: "expiryInfoMap \<Rightarrow> ('s, 'h) DB \<Rightarrow> ('s, 'h) DB res" where
  "preloadCommittedVersionsInCache expInfoMap db =
     (if \<not> IsBulkOptimizable db then Inr db else LoadCommittedVersionsOfPubAndHashedKeys [] (map fst expInfoMap) db)"

text \<open>
  What becomes of one entry of the purge list: it stays, it stays for the private key only, or it goes
  because the key was written again later.
\<close>

definition evaluateEntry :: "('s, 'h) DB \<Rightarrow> HashedCompositeKey \<Rightarrow> keyAndVersion \<Rightarrow> keyAndVersion option res" where
  "evaluateEntry db k v =
     bindE (GetKeyHashVersion db (hk_Namespace k) (hk_CollectionName k) (hk_KeyHash k)) (\<lambda>currentVersion.
     if sameVersion currentVersion (kv_committingBlock v) then Inr (Some v)
     else if kv_key v \<noteq> [] then
       bindE (GetPrivateData db (hk_Namespace k) (hk_CollectionName k) (kv_key v)) (\<lambda>committedPvtVerVal.
         Inr (if sameVersionFromVal committedPvtVerVal (kv_committingBlock v) then Some (v\<lparr>kv_purgeKeyOnly := True\<rparr>) else None))
     else Inr None)"

definition evaluateEntries :: "('s, 'h) DB \<Rightarrow> u64 \<Rightarrow> expiryInfoMap \<Rightarrow> (expiryInfoMap \<times> expiryInfoKey list) res" where
  "evaluateEntries db expiringAtBlk toPurge =
     foldE (\<lambda>(k, v) (toPurge, toClear).
       bindE (evaluateEntry db k v) (\<lambda>r.
         Inr (case r of None \<Rightarrow> AList.delete k toPurge | Some v \<Rightarrow> AList.update k v toPurge,
              toClear @ [\<lparr>ek_committingBlk = kv_committingBlock v, ek_expiryBlk = expiringAtBlk\<rparr>])))
     toPurge (toPurge, [])"

text \<open>An error is kept in the working set, for the commit to report.\<close>

definition orErr :: "u64 \<Rightarrow> ('s, 'h) DB \<Rightarrow> (workingset \<times> ('s, 'h) DB) res \<Rightarrow> (workingset \<times> ('s, 'h) DB) res" where
  "orErr expiringAtBlk db r =
     (case r of
        Inl (Error err) \<Rightarrow> Inr (\<lparr>ws_toPurge = [], ws_toClearFromSchedule = [], ws_expiringBlk = expiringAtBlk, ws_err = Some err\<rparr>, db)
      | _ \<Rightarrow> r)"

definition prepareWorkingsetFor ::
  "purge_env \<Rightarrow> u64 \<Rightarrow> ('s, 'h) DB \<Rightarrow> 'b PurgeMgr \<Rightarrow> (workingset \<times> ('s, 'h) DB) res" where
  "prepareWorkingsetFor e expiringAtBlk db p =
     orErr expiringAtBlk db (bindE (expiryKeeper_retrieve e expiringAtBlk (pm_expKeeper p)) (\<lambda>expiryInfo.
     let toPurge = transformToExpiryInfoMap expiryInfo in
     bindE (preloadCommittedVersionsInCache toPurge db) (\<lambda>db.
     orErr expiringAtBlk db (
       if toPurge = [] then Inr (\<lparr>ws_toPurge = [], ws_toClearFromSchedule = [], ws_expiringBlk = expiringAtBlk, ws_err = None\<rparr>, db)
       else bindE (evaluateEntries db expiringAtBlk toPurge) (\<lambda>(toPurge, toClear).
         Inr (\<lparr>ws_toPurge = toPurge, ws_toClearFromSchedule = toClear, ws_expiringBlk = expiringAtBlk, ws_err = None\<rparr>, db))))))"

definition PrepareForExpiringKeys ::
  "purge_env \<Rightarrow> u64 \<Rightarrow> ('s, 'h) DB \<times> 'b PurgeMgr \<Rightarrow> (('s, 'h) DB \<times> 'b PurgeMgr) res" where
  "PrepareForExpiringKeys e expiringAtBlk = (\<lambda>(db, p).
     bindE (prepareWorkingsetFor e expiringAtBlk db p) (\<lambda>(ws, db). Inr (db, p\<lparr>pm_workingset := Some ws\<rparr>)))"

definition UpdateExpiryInfo :: "purge_env \<Rightarrow> UpdateMap \<Rightarrow> UpdateMap \<Rightarrow> 'b PurgeMgr \<Rightarrow> 'b PurgeMgr res" where
  "UpdateExpiryInfo e pvtUpdates hashedUpdates p =
     bindE (buildExpirySchedule e pvtUpdates hashedUpdates) (\<lambda>expiryInfoUpdates.
     bindE (expiryKeeper_update e expiryInfoUpdates [] (pm_expKeeper p)) (\<lambda>ek. Inr (p\<lparr>pm_expKeeper := ek\<rparr>)))"

definition MaxUint64 :: u64 where "MaxUint64 = - 1"

definition addExpiredEntry :: "u64 \<Rightarrow> HashedCompositeKey \<times> keyAndVersion \<Rightarrow> UpdateMap \<times> UpdateMap \<Rightarrow> UpdateMap \<times> UpdateMap" where
  "addExpiredEntry expiringBlk = (\<lambda>(k, v) (pvtUpdates, hashedUpdates).
     let ns = hk_Namespace k; coll = hk_CollectionName k; keyHash = Some (hk_KeyHash k); key = kv_key v;
         hashUpdated = Hashed_Contains hashedUpdates ns coll keyHash;
         pvtKeyUpdated = UpdateMap_Contains pvtUpdates ns coll key;
         expiringTxVersion = Some (NewHeight expiringBlk MaxUint64) in
     (if key \<noteq> [] \<and> \<not> pvtKeyUpdated then UpdateMap_Delete ns coll key expiringTxVersion pvtUpdates else pvtUpdates,
      if \<not> hashUpdated \<and> \<not> kv_purgeKeyOnly v then Hashed_Delete ns coll keyHash expiringTxVersion hashedUpdates else hashedUpdates))"

definition AddExpiredEntriesToUpdateBatch :: "'b PurgeMgr \<Rightarrow> UpdateMap \<times> UpdateMap \<Rightarrow> (UpdateMap \<times> UpdateMap) res" where
  "AddExpiredEntriesToUpdateBatch p updates =
     bindE (deref (pm_workingset p)) (\<lambda>ws.
     case ws_err ws of Some err \<Rightarrow> Inl (Error err)
     | None \<Rightarrow> Inr (fold (addExpiredEntry (ws_expiringBlk ws)) (ws_toPurge ws) updates))"

text \<open>The working set is dropped even when the schedule cannot be updated.\<close>

definition BlockCommitDone :: "purge_env \<Rightarrow> 'b PurgeMgr \<Rightarrow> 'b PurgeMgr \<times> unit res" where
  "BlockCommitDone e p =
     (let p' = p\<lparr>pm_workingset := None\<rparr> in
      case bindE (deref (pm_workingset p)) (\<lambda>ws. expiryKeeper_update e [] (ws_toClearFromSchedule ws) (pm_expKeeper p)) of
        Inl err \<Rightarrow> (p', Inl err)
      | Inr ek \<Rightarrow> (p'\<lparr>pm_expKeeper := ek\<rparr>, Inr ()))"

section \<open>Private data of old blocks\<close>

definition addMissingPvtDataToWorkingSet :: "purge_env \<Rightarrow> PvtdataCompositeKey list \<Rightarrow> workingset option \<Rightarrow> workingset option" where
  "addMissingPvtDataToWorkingSet e pvtKeys =
     map_option (\<lambda>ws. ws\<lparr>ws_toPurge := fold (\<lambda>k toPurge.
       case map_of toPurge (hashedKeyOf e k) of
         None \<Rightarrow> toPurge
       | Some toPurgeKey \<Rightarrow>
           if kv_purgeKeyOnly toPurgeKey then AList.delete (hashedKeyOf e k) toPurge
           else AList.update (hashedKeyOf e k) (toPurgeKey\<lparr>kv_key := pk_Key k\<rparr>) toPurge) pvtKeys (ws_toPurge ws)\<rparr>)"

text \<open>The working set has its new keys even when the schedule cannot be written.\<close>

definition mergeExpiryInfo :: "purge_env \<Rightarrow> (PvtdataCompositeKey, VersionedValue) gomap \<Rightarrow> 'b expiryKeeper \<Rightarrow> expiryInfo list res" where
  "mergeExpiryInfo e pvtUpdateCompositeKeyMap ek =
     bindE (foldE (\<lambda>(k, vv). builder_add e (pk_Namespace k) (pk_CollectionName k) (pk_Key k) (pg_ComputeHash e (pk_Key k)) vv)
       pvtUpdateCompositeKeyMap []) (\<lambda>entries.
     mapE (\<lambda>toAdd.
       bindE (retrieveByExpiryKey e (ei_expiryInfoKey toAdd) ek) (\<lambda>toUpdate.
       bindE (PvtdataKeys_addAll (ei_pvtdataKeys toAdd) (ei_pvtdataKeys toUpdate)) (\<lambda>keys.
         Inr (toUpdate\<lparr>ei_pvtdataKeys := keys\<rparr>)))) (getExpiryInfo entries))"

definition UpdateExpiryInfoOfPvtDataOfOldBlocks :: "purge_env \<Rightarrow> UpdateMap \<Rightarrow> 'b PurgeMgr \<Rightarrow> 'b PurgeMgr \<times> unit res" where
  "UpdateExpiryInfoOfPvtDataOfOldBlocks e pvtUpdates p =
     (let pvtUpdateCompositeKeyMap = Pvt_ToCompositeKeyMap pvtUpdates in
      case mergeExpiryInfo e pvtUpdateCompositeKeyMap (pm_expKeeper p) of
        Inl err \<Rightarrow> (p, Inl err)
      | Inr expiryInfoUpdates \<Rightarrow>
          (let p = p\<lparr>pm_workingset := addMissingPvtDataToWorkingSet e (map fst pvtUpdateCompositeKeyMap) (pm_workingset p)\<rparr> in
           case expiryKeeper_update e expiryInfoUpdates [] (pm_expKeeper p) of
             Inl err \<Rightarrow> (p, Inl err)
           | Inr ek \<Rightarrow> (p\<lparr>pm_expKeeper := ek\<rparr>, Inr ())))"

section \<open>Snapshots\<close>

definition ConsumeSnapshotData ::
  "purge_env \<Rightarrow> gostring \<Rightarrow> gostring \<Rightarrow> bytes \<Rightarrow> Height \<Rightarrow> 'b expiryKeeper \<Rightarrow> 'b expiryKeeper res" where
  "ConsumeSnapshotData e namespace coll keyHash version ek =
     bindE (pg_GetExpiringBlock e namespace coll (BlockNum version)) (\<lambda>expiringBlock.
     if neverExpires expiringBlock then Inr ek
     else bindE (retrieveByExpiryKey e \<lparr>ek_committingBlk = BlockNum version, ek_expiryBlk = expiringBlock\<rparr> ek) (\<lambda>expInfo.
       let keys = ei_pvtdataKeys expInfo;
           keys = (if pk_Map keys = None then keys\<lparr>pk_Map := Some []\<rparr> else keys) in
       bindE (PvtdataKeys_add namespace coll [] keyHash keys) (\<lambda>keys.
         expiryKeeper_update e [expInfo\<lparr>ei_pvtdataKeys := keys\<rparr>] [] ek)))"

section \<open>The schedule as a map\<close>

definition expiry_key :: "expiryInfoKey \<Rightarrow> bytes" where
  "expiry_key k = expiryPrefix # opv_bytes (ek_expiryBlk k) @ opv_bytes (ek_committingBlk k)"

lemma encodeExpiryInfoKey_key: "encodeExpiryInfoKey k = Inr (expiry_key k)"
  by (simp add: encodeExpiryInfoKey_def encode_opv expiry_key_def)

lemma decodeExpiryInfo_key:
  "decodeExpiryInfo e (expiry_key k) v = bindE (pg_Unmarshal e v) (\<lambda>p. Inr \<lparr>ei_expiryInfoKey = k, ei_pvtdataKeys = p\<rparr>)"
  using decode_opv [of "ek_expiryBlk k" "opv_bytes (ek_committingBlk k)"] decode_opv [of "ek_committingBlk k" "[]"]
  by (cases k) (simp add: decodeExpiryInfo_def expiry_key_def)

lemma expiry_key_inject [simp]: "expiry_key k = expiry_key k' \<longleftrightarrow> k = k'"
proof
  assume "expiry_key k = expiry_key k'"
  then have "\<not> expiry_key k < expiry_key k'" "\<not> expiry_key k' < expiry_key k" by simp_all
  then have "ek_expiryBlk k = ek_expiryBlk k'" "ek_committingBlk k = ek_committingBlk k'"
    using opv_append_less_iff [of "ek_committingBlk k" "[]" "ek_committingBlk k'" "[]"]
      opv_append_less_iff [of "ek_committingBlk k'" "[]" "ek_committingBlk k" "[]"]
    by (auto simp: expiry_key_def opv_append_less_iff)
  then show "k = k'" by (cases k; cases k') simp
qed simp

lemma expiry_key_bounds:
  assumes "b \<noteq> - 1"
  shows "in_bounds (Some (expiry_key \<lparr>ek_committingBlk = 0, ek_expiryBlk = b\<rparr>)) (Some (expiry_key \<lparr>ek_committingBlk = 0, ek_expiryBlk = b + 1\<rparr>))
           (expiry_key k) \<longleftrightarrow> ek_expiryBlk k = b"
proof -
  have "1 + b \<noteq> 0" using assms by (metis add.commute add_eq_0_iff2)
  then have "unat (1 + b) = Suc (unat b)" by (rule unatSuc)
  then have s: "x < b + 1 \<longleftrightarrow> x \<le> b" for x by (simp add: word_less_nat_alt word_le_nat_alt add.commute less_Suc_eq_le)
  have "\<not> opv_bytes m < opv_bytes 0" for m using opv_append_less_iff [of m "[]" 0 "[]"] by simp
  then show ?thesis
    by (auto simp: in_bounds_def expiry_key_def opv_append_less_iff not_less [symmetric] s)
qed

text \<open>What the keeper holds for a key; \<open>keeper_ok\<close>: nothing else is in its database.\<close>

definition schedule ::
  "purge_env \<Rightarrow> ('b \<Rightarrow> bytes \<Rightarrow> bytes option) \<Rightarrow> 'b expiryKeeper \<Rightarrow> expiryInfoKey \<Rightarrow> PvtdataKeys option" where
  "schedule e contents ek k =
     Option.bind (contents (xk_store ek) (constructLevelKey (xk_dbName ek) (expiry_key k)))
       (\<lambda>v. case pg_Unmarshal e v of Inl _ \<Rightarrow> None | Inr p \<Rightarrow> Some p)"

definition keeper_ok :: "('b \<Rightarrow> bytes \<Rightarrow> bytes option) \<Rightarrow> 'b expiryKeeper \<Rightarrow> bool" where
  "keeper_ok contents ek \<longleftrightarrow>
     (\<forall>key v. contents (xk_store ek) (constructLevelKey (xk_dbName ek) key) = Some v \<longrightarrow> (\<exists>k. key = expiry_key k))"

text \<open>
  Decoding inverts encoding, except that an empty map is not on the wire and so comes back as a nil map.
\<close>

definition nil_map :: "('k, 'v) gomap option \<Rightarrow> ('k, 'v) gomap option" where
  "nil_map m = (if m = Some [] then None else m)"

definition unmarshalled :: "PvtdataKeys \<Rightarrow> PvtdataKeys" where
  "unmarshalled p = \<lparr>pk_Map = nil_map (map_option (map (\<lambda>(ns, colls). (ns, \<lparr>cs_Map = nil_map (cs_Map colls)\<rparr>))) (pk_Map p))\<rparr>"

definition codec_faithful :: "purge_env \<Rightarrow> bool" where
  "codec_faithful e \<longleftrightarrow> (\<forall>p v. pg_Marshal e p = Inr v \<longrightarrow> pg_Unmarshal e v = Inr (unmarshalled p))"

text \<open>The records of the batch that an update writes.\<close>

lemma update_puts:
  assumes "foldE (\<lambda>x batch. bindE (encodeKV e x) (\<lambda>(k, v). LevelBatch_Put k (Some v) batch)) xs b = Inr b'"
  shows "\<exists>vs. list_all2 (\<lambda>x v. pg_Marshal e (ei_pvtdataKeys x) = Inr v) xs vs \<and> lb_dbName b' = lb_dbName b \<and>
    lb_leveldbBatch b' = lb_leveldbBatch b @ map (\<lambda>(x, v). (constructLevelKey (lb_dbName b) (expiry_key (ei_expiryInfoKey x)), Some v)) (zip xs vs)"
  using assms
proof (induction xs arbitrary: b)
  case (Cons x xs)
  obtain v b1 where v: "pg_Marshal e (ei_pvtdataKeys x) = Inr v"
    and b1: "LevelBatch_Put (expiry_key (ei_expiryInfoKey x)) (Some v) b = Inr b1"
    and r: "foldE (\<lambda>x batch. bindE (encodeKV e x) (\<lambda>(k, v). LevelBatch_Put k (Some v) batch)) xs b1 = Inr b'"
    using Cons.prems by (auto simp: bindE_Inr_iff encodeKV_def encodeExpiryInfoKey_key)
  have b1': "lb_dbName b1 = lb_dbName b"
    "lb_leveldbBatch b1 = lb_leveldbBatch b @ [(constructLevelKey (lb_dbName b) (expiry_key (ei_expiryInfoKey x)), Some v)]"
    using b1 by (auto simp: LevelBatch_Put_def Let_def)
  show ?case using Cons.IH [OF r] v b1' by (fastforce simp: list_all2_Cons1)
qed simp

lemma update_deletes:
  "foldE (\<lambda>k batch. bindE (encodeExpiryInfoKey k) (\<lambda>k. Inr (LevelBatch_Delete k batch))) ks b =
     Inr (fold (\<lambda>k. LevelBatch_Delete (expiry_key k)) ks b)"
  by (induction ks arbitrary: b) (simp_all add: encodeExpiryInfoKey_key)

lemma deletes_batch:
  "lb_dbName (fold (\<lambda>k. LevelBatch_Delete (expiry_key k)) ks b) = lb_dbName b \<and>
   lb_leveldbBatch (fold (\<lambda>k. LevelBatch_Delete (expiry_key k)) ks b) =
     lb_leveldbBatch b @ map (\<lambda>k. (constructLevelKey (lb_dbName b) (expiry_key k), None)) ks"
  by (induction ks arbitrary: b) (simp_all add: LevelBatch_Delete_def Let_def)

lemma apply_batch_last:
  "apply_batch b m k = (case map_of (rev b) k of None \<Rightarrow> m k | Some v \<Rightarrow> v)"
proof (induction b arbitrary: m)
  case (Cons e b)
  obtain k0 v where e: "e = (k0, v)" by fastforce
  have "apply_batch (e # b) m k = apply_batch b (m(k0 := v)) k" by (simp add: apply_batch_def e)
  then show ?case by (auto simp: Cons.IH e map_add_def split: option.splits if_splits)
qed (simp add: apply_batch_def)

definition tracked :: "expiryInfo list \<Rightarrow> expiryInfoKey \<Rightarrow> PvtdataKeys option" where
  "tracked xs = map_of (rev (map (\<lambda>x. (ei_expiryInfoKey x, ei_pvtdataKeys x)) xs))"

lemma tracked_values:
  assumes "list_all2 (\<lambda>x v. pg_Marshal e (ei_pvtdataKeys x) = Inr v) xs vs"
  shows "rel_option (\<lambda>p v. pg_Marshal e p = Inr v) (tracked xs k) (map_of (rev (zip (map ei_expiryInfoKey xs) vs)) k)"
  using assms
proof (induction rule: list_all2_induct)
  case (Cons x xs v vs)
  then show ?case
    by (cases "tracked xs k"; cases "map_of (rev (zip (map ei_expiryInfoKey xs) vs)) k") (simp_all add: tracked_def map_add_def)
qed (simp add: tracked_def)

lemma map_of_rev_keys:
  assumes "inj f"
  shows "map_of (rev (map (\<lambda>(k, v). (f k, g v)) xs)) (f k) = map_option g (map_of (rev xs) k)"
proof -
  have "map_of (map (\<lambda>(k, v). (f k, g v)) ys) (f k) = map_option g (map_of ys k)" for ys
    using assms by (induction ys) (auto simp: inj_eq)
  then show ?thesis by (simp add: rev_map)
qed

lemma expiryKeeper_update_contents:
  assumes "expiryKeeper_update e toTrack toClear ek = Inr ek'" and "goleveldb (xk_leveldb ek) contents" and "no_NUL (xk_dbName ek)"
  obtains vs where "list_all2 (\<lambda>x v. pg_Marshal e (ei_pvtdataKeys x) = Inr v) toTrack vs"
    "xk_leveldb ek' = xk_leveldb ek" "xk_dbName ek' = xk_dbName ek"
    "\<And>key. contents (xk_store ek') (constructLevelKey (xk_dbName ek) key) =
       apply_batch (map (\<lambda>(x, v). (expiry_key (ei_expiryInfoKey x), Some v)) (zip toTrack vs) @ map (\<lambda>k. (expiry_key k, None)) toClear)
         (\<lambda>key. contents (xk_store ek) (constructLevelKey (xk_dbName ek) key)) key"
proof -
  let ?n = "xk_dbName ek"
  obtain b1 store where p: "foldE (\<lambda>x batch. bindE (encodeKV e x) (\<lambda>(k, v). LevelBatch_Put k (Some v) batch)) toTrack (DBHandle_NewUpdateBatch ?n) = Inr b1"
    and w: "DBHandle_WriteBatch (xk_leveldb ek) (fold (\<lambda>k. LevelBatch_Delete (expiry_key k)) toClear b1) (xk_store ek) = Inr store"
    and ek': "ek' = ek\<lparr>xk_store := store\<rparr>"
    using assms(1) unfolding expiryKeeper_update_def bindE_Inr_iff update_deletes by blast
  obtain vs where vs: "list_all2 (\<lambda>x v. pg_Marshal e (ei_pvtdataKeys x) = Inr v) toTrack vs"
    and b1: "lb_dbName b1 = ?n" "lb_leveldbBatch b1 = map (\<lambda>(x, v). (constructLevelKey ?n (expiry_key (ei_expiryInfoKey x)), Some v)) (zip toTrack vs)"
    using update_puts [OF p] by (auto simp: DBHandle_NewUpdateBatch_def)
  let ?b = "map (\<lambda>(x, v). (expiry_key (ei_expiryInfoKey x), Some v)) (zip toTrack vs) @ map (\<lambda>k. (expiry_key k, None)) toClear"
  have b: "lb_leveldbBatch (fold (\<lambda>k. LevelBatch_Delete (expiry_key k)) toClear b1) = map (\<lambda>(k, v). (constructLevelKey ?n k, v)) ?b"
    using deletes_batch [of toClear b1] b1 by (simp add: comp_def case_prod_beta)
  have "contents store = apply_batch (map (\<lambda>(k, v). (constructLevelKey ?n k, v)) ?b) (contents (xk_store ek))"
  proof (cases "?b = []")
    case True
    then have "store = xk_store ek" using w unfolding DBHandle_WriteBatch_def b True by simp
    then show ?thesis unfolding True by (simp add: apply_batch_def)
  next
    case False
    then have "ldb_Write (xk_leveldb ek) (map (\<lambda>(k, v). (constructLevelKey ?n k, v)) ?b) (xk_store ek) = Inr store"
      using w unfolding DBHandle_WriteBatch_def b DB_WriteBatch_def by (metis length_0_conv map_is_Nil_conv)
    then show ?thesis by (rule goleveldb.write_contents [OF assms(2)])
  qed
  then have "contents store (constructLevelKey ?n key) = apply_batch ?b (\<lambda>key. contents (xk_store ek) (constructLevelKey ?n key)) key" for key
    by (simp only: apply_batch_construct)
  then show thesis using vs ek' by (intro that [of vs]) simp_all
qed

lemma schedule_update:
  assumes "expiryKeeper_update e toTrack toClear ek = Inr ek'" and "goleveldb (xk_leveldb ek) contents" and "no_NUL (xk_dbName ek)"
    and "codec_faithful e"
  shows "schedule e contents ek' k =
    (if k \<in> set toClear then None else case tracked toTrack k of None \<Rightarrow> schedule e contents ek k | Some p \<Rightarrow> Some (unmarshalled p))"
proof -
  obtain vs where vs: "list_all2 (\<lambda>x v. pg_Marshal e (ei_pvtdataKeys x) = Inr v) toTrack vs" and n: "xk_dbName ek' = xk_dbName ek"
    and c: "contents (xk_store ek') (constructLevelKey (xk_dbName ek) (expiry_key k)) =
       apply_batch (map (\<lambda>(x, v). (expiry_key (ei_expiryInfoKey x), Some v)) (zip toTrack vs) @ map (\<lambda>k. (expiry_key k, None)) toClear)
         (\<lambda>key. contents (xk_store ek) (constructLevelKey (xk_dbName ek) key)) (expiry_key k)"
    using expiryKeeper_update_contents [OF assms(1-3)] by metis
  have inj: "inj expiry_key" by (simp add: inj_def)
  have puts: "map_of (rev (map (\<lambda>(x, v). (expiry_key (ei_expiryInfoKey x), Some v)) (zip toTrack vs))) (expiry_key k) =
      map_option Some (map_of (rev (zip (map ei_expiryInfoKey toTrack) vs)) k)"
    unfolding map_of_rev_keys [OF inj, symmetric] by (simp add: zip_map1 comp_def case_prod_unfold)
  have dels: "map_of (rev (map (\<lambda>k. (expiry_key k, None)) toClear)) (expiry_key k) = (if k \<in> set toClear then Some None else None)"
    by (induction toClear) (auto simp: map_add_def)
  show ?thesis
    using tracked_values [OF vs, of k] assms(4)
    by (auto simp: schedule_def n c apply_batch_last puts dels map_add_def codec_faithful_def option_rel_Some1 option_rel_Some2 split: option.splits)
qed


lemma keeper_ok_update:
  assumes "expiryKeeper_update e toTrack toClear ek = Inr ek'" and "goleveldb (xk_leveldb ek) contents" and "no_NUL (xk_dbName ek)"
    and "keeper_ok contents ek"
  shows "keeper_ok contents ek' \<and> xk_leveldb ek' = xk_leveldb ek \<and> xk_dbName ek' = xk_dbName ek"
proof -
  obtain vs where n: "xk_leveldb ek' = xk_leveldb ek" "xk_dbName ek' = xk_dbName ek"
    and c: "\<And>key. contents (xk_store ek') (constructLevelKey (xk_dbName ek) key) =
       apply_batch (map (\<lambda>(x, v). (expiry_key (ei_expiryInfoKey x), Some v)) (zip toTrack vs) @ map (\<lambda>k. (expiry_key k, None)) toClear)
         (\<lambda>key. contents (xk_store ek) (constructLevelKey (xk_dbName ek) key)) key"
    using expiryKeeper_update_contents [OF assms(1-3)] by metis
  have "\<exists>k. key = expiry_key k" if "contents (xk_store ek') (constructLevelKey (xk_dbName ek) key) = Some v" for key v
  proof (rule ccontr)
    assume no: "\<nexists>k. key = expiry_key k"
    then have "contents (xk_store ek) (constructLevelKey (xk_dbName ek) key) = Some v"
      using that unfolding c by (subst (asm) apply_batch_other) auto
    then show False using assms(4) no unfolding keeper_ok_def by blast
  qed
  then show ?thesis using n unfolding keeper_ok_def by simp
qed

lemma mapE_bind: "mapE (\<lambda>x. bindE (g x) h) xs = Inr zs \<longleftrightarrow> (\<exists>ys. mapE g xs = Inr ys \<and> mapE h ys = Inr zs)"
proof (induction xs arbitrary: zs)
  case (Cons x xs)
  show ?case by (auto simp: bindE_Inr_iff Cons.IH)
qed simp

context named_db
begin

lemma handle_iterator:
  "ldb_NewIterator (handle_ops L dbName) s start limit = Inr kvs \<Longrightarrow>
     sorted_wrt (<) (map fst kvs) \<and> (\<forall>k v. (k, v) \<in> set kvs \<longleftrightarrow> in_bounds start limit k \<and> contents s (constructLevelKey dbName k) = Some v)"
  by (rule handle.iterator_contents)

end

lemma retrieve_entries:
  assumes "expiryKeeper_retrieve e b ek = Inr xs"
  obtains kvs where "ldb_NewIterator (handle_ops (xk_leveldb ek) (xk_dbName ek)) (xk_store ek)
      (Some (expiry_key \<lparr>ek_committingBlk = 0, ek_expiryBlk = b\<rparr>)) (Some (expiry_key \<lparr>ek_committingBlk = 0, ek_expiryBlk = b + 1\<rparr>)) = Inr kvs"
    "list_all2 (\<lambda>kv x. decodeExpiryInfo e (fst kv) (snd kv) = Inr x) kvs xs"
proof -
  let ?h = "\<lambda>kv. decodeExpiryInfo e (fst kv) (snd kv)" and ?g = "\<lambda>kv. bindE (Iterator_Key kv) (\<lambda>k. Inr (k, snd kv))"
  have F: "(\<lambda>kv. bindE (Iterator_Key kv) (\<lambda>key. decodeExpiryInfo e key (snd kv))) = (\<lambda>kv. bindE (?g kv) ?h)"
    by (simp add: fun_eq_iff bindE_assoc)
  obtain itr kvs where "DBHandle_GetIterator (xk_leveldb ek) (xk_dbName ek) (Some (expiry_key \<lparr>ek_committingBlk = 0, ek_expiryBlk = b\<rparr>))
      (Some (expiry_key \<lparr>ek_committingBlk = 0, ek_expiryBlk = b + 1\<rparr>)) (xk_store ek) = Inr itr"
    "mapE ?g itr = Inr kvs" "mapE ?h kvs = Inr xs"
    using assms unfolding expiryKeeper_retrieve_def encodeExpiryInfoKey_key F by (auto simp: bindE_Inr_iff mapE_bind)
  then show thesis using that by (simp add: handle_ops_def mapE_Inr_iff)
qed

lemma schedule_Some:
  "schedule e contents ek k = Some p \<longleftrightarrow>
     (\<exists>v. contents (xk_store ek) (constructLevelKey (xk_dbName ek) (expiry_key k)) = Some v \<and> pg_Unmarshal e v = Inr p)"
  by (cases "contents (xk_store ek) (constructLevelKey (xk_dbName ek) (expiry_key k))") (auto simp: schedule_def split: sum.splits)

lemma retrieve_schedule:
  assumes "expiryKeeper_retrieve e b ek = Inr xs" and "goleveldb (xk_leveldb ek) contents" and "no_NUL (xk_dbName ek)"
    and "keeper_ok contents ek" and "b \<noteq> - 1"
  shows "distinct (map ei_expiryInfoKey xs)"
    and "x \<in> set xs \<longleftrightarrow> ek_expiryBlk (ei_expiryInfoKey x) = b \<and> schedule e contents ek (ei_expiryInfoKey x) = Some (ei_pvtdataKeys x)"
proof -
  have L: "named_db (xk_leveldb ek) contents (xk_dbName ek)" using assms(2,3) by (simp add: named_db_def named_db_axioms_def)
  obtain kvs where "ldb_NewIterator (handle_ops (xk_leveldb ek) (xk_dbName ek)) (xk_store ek)
      (Some (expiry_key \<lparr>ek_committingBlk = 0, ek_expiryBlk = b\<rparr>)) (Some (expiry_key \<lparr>ek_committingBlk = 0, ek_expiryBlk = b + 1\<rparr>)) = Inr kvs"
    and d: "list_all2 (\<lambda>kv x. decodeExpiryInfo e (fst kv) (snd kv) = Inr x) kvs xs"
    by (rule retrieve_entries [OF assms(1)])
  note it = named_db.handle_iterator [OF L this(1), THEN conjunct1] named_db.handle_iterator [OF L this(1), THEN conjunct2, rule_format]
  let ?c = "\<lambda>key. contents (xk_store ek) (constructLevelKey (xk_dbName ek) key)"
  have mem: "(expiry_key k, v) \<in> set kvs \<longleftrightarrow> ek_expiryBlk k = b \<and> ?c (expiry_key k) = Some v" for k v
    unfolding it(2) expiry_key_bounds [OF assms(5)] by (rule refl)
  have *: "fst kv = expiry_key (ei_expiryInfoKey x) \<and> pg_Unmarshal e (snd kv) = Inr (ei_pvtdataKeys x)"
    if "kv \<in> set kvs" "decodeExpiryInfo e (fst kv) (snd kv) = Inr x" for kv x
  proof -
    have "?c (fst kv) = Some (snd kv)" using it(2) [of "fst kv" "snd kv"] that(1) by simp
    then obtain k where "fst kv = expiry_key k" using assms(4) unfolding keeper_ok_def by blast
    then show ?thesis using that(2) by (auto simp: decodeExpiryInfo_key bindE_Inr_iff)
  qed
  have r: "list_all2 (\<lambda>kv x. fst kv = expiry_key (ei_expiryInfoKey x) \<and> pg_Unmarshal e (snd kv) = Inr (ei_pvtdataKeys x)) kvs xs"
    by (rule list.rel_mono_strong [OF d]) (rule *)
  then have "map fst kvs = map expiry_key (map ei_expiryInfoKey xs)"
    by (simp add: list_all2_conv_all_nth list_eq_iff_nth_eq)
  then have "distinct (map expiry_key (map ei_expiryInfoKey xs))" using it(1) by (simp add: strict_sorted_iff)
  then show "distinct (map ei_expiryInfoKey xs)" by (rule distinct_map [THEN iffD1, THEN conjunct1])
  have "x \<in> set xs \<longleftrightarrow> (\<exists>v. (expiry_key (ei_expiryInfoKey x), v) \<in> set kvs \<and> pg_Unmarshal e v = Inr (ei_pvtdataKeys x))"
  proof
    assume "x \<in> set xs"
    then obtain i where i: "i < length xs" "xs ! i = x" by (auto simp: in_set_conv_nth)
    then have "fst (kvs ! i) = expiry_key (ei_expiryInfoKey x)" "pg_Unmarshal e (snd (kvs ! i)) = Inr (ei_pvtdataKeys x)" "kvs ! i \<in> set kvs"
      using r by (auto simp: list_all2_conv_all_nth)
    then show "\<exists>v. (expiry_key (ei_expiryInfoKey x), v) \<in> set kvs \<and> pg_Unmarshal e v = Inr (ei_pvtdataKeys x)"
      by (intro exI [of _ "snd (kvs ! i)"]) (metis prod.collapse)
  next
    assume "\<exists>v. (expiry_key (ei_expiryInfoKey x), v) \<in> set kvs \<and> pg_Unmarshal e v = Inr (ei_pvtdataKeys x)"
    then obtain v where v: "(expiry_key (ei_expiryInfoKey x), v) \<in> set kvs" "pg_Unmarshal e v = Inr (ei_pvtdataKeys x)" by blast
    then obtain i where i: "i < length kvs" "kvs ! i = (expiry_key (ei_expiryInfoKey x), v)" by (auto simp: in_set_conv_nth)
    then have "ei_expiryInfoKey (xs ! i) = ei_expiryInfoKey x" "ei_pvtdataKeys (xs ! i) = ei_pvtdataKeys x" and l: "i < length xs"
      using r v(2) by (auto simp: list_all2_conv_all_nth)
    then have "xs ! i = x" by (simp add: expiryInfo.equality)
    then show "x \<in> set xs" using l by auto
  qed
  then show "x \<in> set xs \<longleftrightarrow> ek_expiryBlk (ei_expiryInfoKey x) = b \<and> schedule e contents ek (ei_expiryInfoKey x) = Some (ei_pvtdataKeys x)"
    unfolding mem schedule_Some by blast
qed

text \<open>
  C39: The expiry schedule is a map from pairs of blocks to keys: after an update with entries to track and
  entries to clear, what is retrieved for a block is exactly the entries that expire at that block, where
  an entry is gone if it was cleared, is the tracked one if it was tracked (with nil for an empty map), and otherwise what it was.
\<close>

theorem schedule_refines_map:
  assumes "goleveldb (xk_leveldb ek) contents" and "no_NUL (xk_dbName ek)" and "keeper_ok contents ek" and "codec_faithful e"
    and "expiryKeeper_update e toTrack toClear ek = Inr ek'" and "expiryKeeper_retrieve e b ek' = Inr xs" and "b \<noteq> - 1"
  shows "distinct (map ei_expiryInfoKey xs) \<and>
    set xs = {x. ek_expiryBlk (ei_expiryInfoKey x) = b \<and> ei_expiryInfoKey x \<notin> set toClear \<and>
       (case tracked toTrack (ei_expiryInfoKey x) of None \<Rightarrow> schedule e contents ek (ei_expiryInfoKey x) | Some p \<Rightarrow> Some (unmarshalled p)) = Some (ei_pvtdataKeys x)}"
proof -
  have ok: "keeper_ok contents ek'" "goleveldb (xk_leveldb ek') contents" "no_NUL (xk_dbName ek')"
    using keeper_ok_update [OF assms(5,1,2,3)] assms(1,2) by simp_all
  note r = retrieve_schedule [OF assms(6) ok(2,3,1) assms(7)]
  show ?thesis unfolding set_eq_iff mem_Collect_eq r(2) schedule_update [OF assms(5,1,2,4)] using r(1) by simp
qed

section \<open>What a commit purges\<close>

definition outcome :: "('s, 'h) DB \<Rightarrow> HashedCompositeKey \<Rightarrow> keyAndVersion \<Rightarrow> keyAndVersion option" where
  "outcome db k v = (case evaluateEntry db k v of Inl _ \<Rightarrow> None | Inr r \<Rightarrow> r)"

lemma evaluate_loop:
  assumes "foldE (\<lambda>(k, v) (toPurge, toClear).
       bindE (evaluateEntry db k v) (\<lambda>r.
         Inr (case r of None \<Rightarrow> AList.delete k toPurge | Some v \<Rightarrow> AList.update k v toPurge,
              toClear @ [\<lparr>ek_committingBlk = kv_committingBlock v, ek_expiryBlk = b\<rparr>]))) xs (t, cl) = Inr (t', cl')"
    and "distinct (map fst xs)" and "distinct (map fst t)"
  shows "map_of t' k = (case map_of xs k of None \<Rightarrow> map_of t k | Some v \<Rightarrow> outcome db k v) \<and> distinct (map fst t') \<and>
    (\<forall>v. map_of xs k = Some v \<longrightarrow> (\<exists>r. evaluateEntry db k v = Inr r))"
  using assms
proof (induction xs arbitrary: t cl)
  case (Cons x xs)
  obtain k0 v0 where x: "x = (k0, v0)" by fastforce
  obtain r cl1 where r: "evaluateEntry db k0 v0 = Inr r"
    and rest: "foldE (\<lambda>(k, v) (toPurge, toClear).
       bindE (evaluateEntry db k v) (\<lambda>r.
         Inr (case r of None \<Rightarrow> AList.delete k toPurge | Some v \<Rightarrow> AList.update k v toPurge,
              toClear @ [\<lparr>ek_committingBlk = kv_committingBlock v, ek_expiryBlk = b\<rparr>]))) xs
        ((case r of None \<Rightarrow> AList.delete k0 t | Some v \<Rightarrow> AList.update k0 v t), cl1) = Inr (t', cl')"
    using Cons.prems(1) by (auto simp: x bindE_Inr_iff)
  let ?t = "case r of None \<Rightarrow> AList.delete k0 t | Some v \<Rightarrow> AList.update k0 v t"
  have t: "distinct (map fst ?t)" using Cons.prems(3) by (simp add: distinct_delete distinct_update split: option.splits)
  have "map_of ?t k = (if k = k0 then outcome db k0 v0 else map_of t k)"
    by (simp add: outcome_def r split: option.splits)
  moreover have "map_of xs k0 = None" using Cons.prems(2) by (simp add: x map_of_eq_None_iff)
  ultimately show ?case using Cons.IH [OF rest] Cons.prems(2) t r by (auto simp: x split: option.splits)
qed simp

lemma evaluateEntries_outcome:
  assumes "evaluateEntries db b m = Inr (m', cl)" and "distinct (map fst m)"
  shows "map_of m' k = Option.bind (map_of m k) (outcome db k) \<and> distinct (map fst m') \<and>
    (\<forall>v. map_of m k = Some v \<longrightarrow> (\<exists>r. evaluateEntry db k v = Inr r))"
  using evaluate_loop [OF assms(1) [unfolded evaluateEntries_def] assms(2,2), of k] by (simp split: option.splits)

lemma fold_updates_distinct:
  assumes "\<And>x m. P x \<Longrightarrow> distinct (map fst m) \<Longrightarrow> distinct (map fst (f x m))" and "list_all P xs" and "distinct (map fst m)"
  shows "distinct (map fst (fold f xs m))"
  using assms(2,3) by (induction xs arbitrary: m) (simp_all add: assms(1))

lemma transformToExpiryInfoMap_distinct: "distinct (map fst (transformToExpiryInfoMap infos))"
  unfolding transformToExpiryInfoMap_def
  by (intro fold_updates_distinct [where P = "\<lambda>_. True"]; (clarsimp simp: list_all_iff)?)
     (intro fold_updates_distinct [where P = "\<lambda>_. True"]; (clarsimp simp: list_all_iff distinct_update)?)+

definition purged :: "u64 \<Rightarrow> VersionedValue" where
  "purged b = \<lparr>vv_Value = None, vv_Metadata = None, vv_Version = Some (NewHeight b MaxUint64)\<rparr>"

lemma addExpiredEntry_hashed:
  "UpdateMap_Get (snd (addExpiredEntry b (k, v) (pvt, hash))) ns coll kh =
     (if k = \<lparr>hk_Namespace = ns, hk_CollectionName = coll, hk_KeyHash = kh\<rparr> \<and> UpdateMap_Get hash ns coll kh = None \<and> \<not> kv_purgeKeyOnly v
      then Some (purged b) else UpdateMap_Get hash ns coll kh)"
  by (cases k) (auto simp: addExpiredEntry_def Let_def Hashed_Contains_def Hashed_Delete_def UpdateMap_Contains_iff UpdateMap_Delete_upd purged_def)

lemma addExpiredEntry_private:
  "UpdateMap_Get (fst (addExpiredEntry b (k, v) (pvt, hash))) ns coll key =
     (if hk_Namespace k = ns \<and> hk_CollectionName k = coll \<and> kv_key v = key \<and> key \<noteq> [] \<and> UpdateMap_Get pvt ns coll key = None
      then Some (purged b) else UpdateMap_Get pvt ns coll key)"
  by (auto simp: addExpiredEntry_def Let_def UpdateMap_Contains_iff UpdateMap_Delete_upd purged_def)

lemma addExpired_hashed:
  assumes "distinct (map fst xs)"
  shows "UpdateMap_Get (snd (fold (addExpiredEntry b) xs u)) ns coll kh =
     (case UpdateMap_Get (snd u) ns coll kh of Some vv \<Rightarrow> Some vv
      | None \<Rightarrow> (case map_of xs \<lparr>hk_Namespace = ns, hk_CollectionName = coll, hk_KeyHash = kh\<rparr> of None \<Rightarrow> None
                | Some v \<Rightarrow> if kv_purgeKeyOnly v then None else Some (purged b)))"
  using assms
proof (induction xs arbitrary: u)
  case (Cons x xs)
  obtain k v pvt hash where x: "x = (k, v)" "u = (pvt, hash)" by (metis prod.exhaust)
  have "map_of xs k = None" using Cons.prems by (simp add: x map_of_eq_None_iff)
  then show ?case
    using Cons.IH [of "addExpiredEntry b x u"] Cons.prems by (auto simp: x addExpiredEntry_hashed split: option.splits if_splits)
qed (simp split: option.splits)

lemma addExpired_private:
  "UpdateMap_Get (fst (fold (addExpiredEntry b) xs u)) ns coll key =
     (case UpdateMap_Get (fst u) ns coll key of Some vv \<Rightarrow> Some vv
      | None \<Rightarrow> if key \<noteq> [] \<and> (\<exists>(k, v)\<in>set xs. hk_Namespace k = ns \<and> hk_CollectionName k = coll \<and> kv_key v = key)
                then Some (purged b) else None)"
proof (induction xs arbitrary: u)
  case (Cons x xs)
  obtain k v pvt hash where x: "x = (k, v)" "u = (pvt, hash)" by (metis prod.exhaust)
  show ?case
    using Cons.IH [of "addExpiredEntry b x u"] by (auto simp: x addExpiredEntry_private split: option.splits if_splits)
qed (simp split: option.splits)

text \<open>The entry of a hashed key is due: nobody has written the key since, or the private key at least is still the one.\<close>

definition hash_due :: "('s, 'h) DB \<Rightarrow> HashedCompositeKey \<Rightarrow> keyAndVersion \<Rightarrow> bool" where
  "hash_due db k v \<longleftrightarrow>
     (case GetKeyHashVersion db (hk_Namespace k) (hk_CollectionName k) (hk_KeyHash k) of Inl _ \<Rightarrow> False
      | Inr ver \<Rightarrow> sameVersion ver (kv_committingBlock v))"

definition key_due :: "('s, 'h) DB \<Rightarrow> HashedCompositeKey \<Rightarrow> keyAndVersion \<Rightarrow> bool" where
  "key_due db k v \<longleftrightarrow>
     (case GetPrivateData db (hk_Namespace k) (hk_CollectionName k) (kv_key v) of Inl _ \<Rightarrow> False
      | Inr vv \<Rightarrow> sameVersionFromVal vv (kv_committingBlock v))"

lemma evaluateEntry_cases:
  assumes "evaluateEntry db k v = Inr r"
  shows "r = (if hash_due db k v then Some v
              else if kv_key v \<noteq> [] \<and> key_due db k v then Some (v\<lparr>kv_purgeKeyOnly := True\<rparr>) else None)"
proof -
  obtain ver where "GetKeyHashVersion db (hk_Namespace k) (hk_CollectionName k) (hk_KeyHash k) = Inr ver"
    using assms by (auto simp: evaluateEntry_def bindE_Inr_iff)
  moreover from this have "hash_due db k v \<longleftrightarrow> sameVersion ver (kv_committingBlock v)" by (simp add: hash_due_def)
  ultimately show ?thesis
    using assms by (cases "GetPrivateData db (hk_Namespace k) (hk_CollectionName k) (kv_key v)") (simp_all add: evaluateEntry_def key_due_def split: if_splits)
qed

lemma fold_inv: "(\<And>y m. P m \<Longrightarrow> P (g y m)) \<Longrightarrow> P m \<Longrightarrow> P (fold g ys m)"
  by (induction ys arbitrary: m) simp_all

lemma transform_flag:
  assumes "map_of (transformToExpiryInfoMap infos) k = Some v"
  shows "\<not> kv_purgeKeyOnly v"
proof -
  let ?P = "\<lambda>m. \<forall>k v. map_of m k = Some v \<longrightarrow> \<not> kv_purgeKeyOnly v"
  define put where "put = (\<lambda>(c :: u64) ns coll (kh :: KeyAndHash).
    AList.update \<lparr>hk_Namespace = ns, hk_CollectionName = coll, hk_KeyHash = kh_Hash kh\<rparr> \<lparr>kv_key = kh_Key kh, kv_committingBlock = c, kv_purgeKeyOnly = False\<rparr>)"
  have u: "?P (put c ns coll kh m)" if "?P m" for c ns coll kh m using that by (simp add: put_def)
  have 1: "?P (fold (put c ns coll) l m)" if "?P m" for c ns coll l m by (rule fold_inv [of ?P]) (use u that in blast)+
  have 2: "?P (fold (\<lambda>(coll, l). fold (put c ns coll) l) cs m)" if "?P m" for c ns cs m
    by (rule fold_inv [of ?P]) (use 1 that in \<open>auto split: prod.splits\<close>)
  have 3: "?P (fold (\<lambda>(ns, colls). fold (\<lambda>(coll, l). fold (put c ns coll) l) (map_entries (cs_Map colls))) ns m)" if "?P m" for c ns m
    by (rule fold_inv [of ?P]) (use 2 that in \<open>auto split: prod.splits\<close>)
  have "?P (fold (\<lambda>x. fold (\<lambda>(ns, colls). fold (\<lambda>(coll, l). fold (put (ek_committingBlk (ei_expiryInfoKey x)) ns coll) l) (map_entries (cs_Map colls)))
      (map_entries (pk_Map (ei_pvtdataKeys x)))) infos [])"
    by (rule fold_inv [of ?P]) (use 3 in blast, simp)
  then show ?thesis using assms unfolding transformToExpiryInfoMap_def put_def by blast
qed

text \<open>The purge list of a prepared working set.\<close>

lemma workingset_list:
  assumes "prepareWorkingsetFor e b db p = Inr (ws, db')" and "ws_err ws = None" and "expiryKeeper_retrieve e b (pm_expKeeper p) = Inr infos"
  shows "ws_expiringBlk ws = b \<and> distinct (map fst (ws_toPurge ws)) \<and>
    map_of (ws_toPurge ws) k = Option.bind (map_of (transformToExpiryInfoMap infos) k) (outcome db' k) \<and>
    (\<forall>v. map_of (transformToExpiryInfoMap infos) k = Some v \<longrightarrow> (\<exists>r. evaluateEntry db' k v = Inr r))"
proof -
  let ?m = "transformToExpiryInfoMap infos"
  obtain db1 where 1: "preloadCommittedVersionsInCache ?m db = Inr db1"
    using assms(1-3) by (cases "preloadCommittedVersionsInCache ?m db") (auto simp: prepareWorkingsetFor_def orErr_def Let_def split: goerr.splits)
  show ?thesis
  proof (cases "?m = []")
    case True
    then show ?thesis using assms 1 by (auto simp: prepareWorkingsetFor_def orErr_def)
  next
    case False
    then obtain t cl where 2: "evaluateEntries db1 b ?m = Inr (t, cl)"
      using assms 1 by (cases "evaluateEntries db1 b ?m") (auto simp: prepareWorkingsetFor_def orErr_def Let_def split: goerr.splits)
    then have "ws_toPurge ws = t" "db' = db1" "ws_expiringBlk ws = b"
      using assms 1 False by (auto simp: prepareWorkingsetFor_def orErr_def)
    then show ?thesis using evaluateEntries_outcome [OF 2 transformToExpiryInfoMap_distinct] by simp
  qed
qed

lemma purge_outcome:
  assumes "prepareWorkingsetFor e b db p = Inr (ws, db')" and "ws_err ws = None" and "expiryKeeper_retrieve e b (pm_expKeeper p) = Inr infos"
    and m: "map_of (transformToExpiryInfoMap infos) k = Some v"
  shows "outcome db' k v = (if hash_due db' k v then Some v else if kv_key v \<noteq> [] \<and> key_due db' k v then Some (v\<lparr>kv_purgeKeyOnly := True\<rparr>) else None)"
proof -
  obtain r where "evaluateEntry db' k v = Inr r" using workingset_list [OF assms(1-3), of k] m by blast
  then show ?thesis using evaluateEntry_cases [of db' k v r] by (simp add: outcome_def)
qed

lemma purge_list:
  assumes "prepareWorkingsetFor e b db p = Inr (ws, db')" and "ws_err ws = None" and "expiryKeeper_retrieve e b (pm_expKeeper p) = Inr infos"
  shows "map_of (ws_toPurge ws) k = Some w \<longleftrightarrow>
    (\<exists>v. map_of (transformToExpiryInfoMap infos) k = Some v \<and>
       (hash_due db' k v \<and> w = v \<or> \<not> hash_due db' k v \<and> kv_key v \<noteq> [] \<and> key_due db' k v \<and> w = v\<lparr>kv_purgeKeyOnly := True\<rparr>))"
proof (cases "map_of (transformToExpiryInfoMap infos) k")
  case None
  then show ?thesis using workingset_list [OF assms, of k] by simp
next
  case (Some v)
  then have "map_of (ws_toPurge ws) k = outcome db' k v" using workingset_list [OF assms, of k] by simp
  then show ?thesis unfolding purge_outcome [OF assms Some] Some by (cases "hash_due db' k v"; cases "kv_key v \<noteq> [] \<and> key_due db' k v") auto
qed

lemma purge_list_hashed:
  assumes "prepareWorkingsetFor e b db p = Inr (ws, db')" and "ws_err ws = None" and "expiryKeeper_retrieve e b (pm_expKeeper p) = Inr infos"
  shows "(case map_of (ws_toPurge ws) k of None \<Rightarrow> None | Some v \<Rightarrow> if kv_purgeKeyOnly v then None else Some (purged b)) =
    (case map_of (transformToExpiryInfoMap infos) k of None \<Rightarrow> None | Some v \<Rightarrow> if hash_due db' k v then Some (purged b) else None)"
proof (cases "map_of (transformToExpiryInfoMap infos) k")
  case None
  then show ?thesis using workingset_list [OF assms, of k] by simp
next
  case (Some v)
  then have "map_of (ws_toPurge ws) k = outcome db' k v" using workingset_list [OF assms, of k] by simp
  then show ?thesis using transform_flag [OF Some] unfolding purge_outcome [OF assms Some] Some by simp
qed

lemma purge_list_keys:
  assumes "prepareWorkingsetFor e b db p = Inr (ws, db')" and "ws_err ws = None" and "expiryKeeper_retrieve e b (pm_expKeeper p) = Inr infos"
    and "key \<noteq> []"
  shows "(\<exists>(k, v)\<in>set (ws_toPurge ws). hk_Namespace k = ns \<and> hk_CollectionName k = coll \<and> kv_key v = key) \<longleftrightarrow>
    (\<exists>k v. map_of (transformToExpiryInfoMap infos) k = Some v \<and> hk_Namespace k = ns \<and> hk_CollectionName k = coll \<and> kv_key v = key
       \<and> (hash_due db' k v \<or> key_due db' k v))"
proof -
  have "(\<exists>(k, v)\<in>set (ws_toPurge ws). hk_Namespace k = ns \<and> hk_CollectionName k = coll \<and> kv_key v = key) \<longleftrightarrow>
      (\<exists>k w. map_of (ws_toPurge ws) k = Some w \<and> hk_Namespace k = ns \<and> hk_CollectionName k = coll \<and> kv_key w = key)"
    using map_of_eq_Some_iff [of "ws_toPurge ws"] workingset_list [OF assms(1-3)] by auto
  also have "\<dots> \<longleftrightarrow> (\<exists>k v. map_of (transformToExpiryInfoMap infos) k = Some v \<and> hk_Namespace k = ns \<and> hk_CollectionName k = coll \<and> kv_key v = key \<and> (hash_due db' k v \<or> key_due db' k v))"
    (is "?A \<longleftrightarrow> ?B")
  proof
    assume ?A
    then obtain k w v where "map_of (transformToExpiryInfoMap infos) k = Some v" "hk_Namespace k = ns" "hk_CollectionName k = coll" "kv_key w = key"
      "hash_due db' k v \<and> w = v \<or> \<not> hash_due db' k v \<and> kv_key v \<noteq> [] \<and> key_due db' k v \<and> w = v\<lparr>kv_purgeKeyOnly := True\<rparr>"
      unfolding purge_list [OF assms(1-3)] by blast
    then show ?B by (intro exI [of _ k] exI [of _ v]) auto
  next
    assume ?B
    then obtain k v where v: "map_of (transformToExpiryInfoMap infos) k = Some v" "hk_Namespace k = ns" "hk_CollectionName k = coll" "kv_key v = key" "hash_due db' k v \<or> key_due db' k v"
      by blast
    show ?A
    proof (cases "hash_due db' k v")
      case True
      then show ?thesis using v purge_list [OF assms(1-3), of k v] by (intro exI [of _ k] exI [of _ v]) simp
    next
      case False
      then show ?thesis using v assms(4) purge_list [OF assms(1-3), of k "v\<lparr>kv_purgeKeyOnly := True\<rparr>"] by (intro exI [of _ k] exI [of _ "v\<lparr>kv_purgeKeyOnly := True\<rparr>"]) simp
    qed
  qed
  finally show ?thesis .
qed

text \<open>
  C38: Private data expire exactly when they should. With the working set prepared for a block, the commit of
  that block deletes a hashed key iff the schedule has it for that block, the block itself does not write it,
  and the version in the database is still the one that was scheduled; a private key is deleted likewise,
  also when only the private data, but not the hash, is still the scheduled one. Updates of the block are
  never overwritten.
\<close>

theorem expired_keys_purged:
  assumes "prepareWorkingsetFor e b db p = Inr (ws, db')" and "expiryKeeper_retrieve e b (pm_expKeeper p) = Inr infos"
    and "AddExpiredEntriesToUpdateBatch (p\<lparr>pm_workingset := Some ws\<rparr>) (pvt, hash) = Inr (pvt', hash')"
  shows "UpdateMap_Get hash' ns coll kh =
      (case UpdateMap_Get hash ns coll kh of Some vv \<Rightarrow> Some vv
       | None \<Rightarrow> (case map_of (transformToExpiryInfoMap infos) \<lparr>hk_Namespace = ns, hk_CollectionName = coll, hk_KeyHash = kh\<rparr> of
                   None \<Rightarrow> None
                 | Some v \<Rightarrow> if hash_due db' \<lparr>hk_Namespace = ns, hk_CollectionName = coll, hk_KeyHash = kh\<rparr> v then Some (purged b) else None)) \<and>
    UpdateMap_Get pvt' ns coll key =
      (case UpdateMap_Get pvt ns coll key of Some vv \<Rightarrow> Some vv
       | None \<Rightarrow> if key \<noteq> [] \<and> (\<exists>k v. map_of (transformToExpiryInfoMap infos) k = Some v \<and> hk_Namespace k = ns \<and> hk_CollectionName k = coll
                   \<and> kv_key v = key \<and> (hash_due db' k v \<or> key_due db' k v))
                 then Some (purged b) else None)"
proof -
  have err: "ws_err ws = None" and u: "(pvt', hash') = fold (addExpiredEntry (ws_expiringBlk ws)) (ws_toPurge ws) (pvt, hash)"
    using assms(3) by (auto simp: AddExpiredEntriesToUpdateBatch_def split: option.splits)
  note l = assms(1) err assms(2)
  have b: "ws_expiringBlk ws = b" and d: "distinct (map fst (ws_toPurge ws))" using workingset_list [OF l] by simp_all
  have u': "hash' = snd (fold (addExpiredEntry b) (ws_toPurge ws) (pvt, hash))" "pvt' = fst (fold (addExpiredEntry b) (ws_toPurge ws) (pvt, hash))"
    using u unfolding b by (simp_all add: prod_eq_iff)
  show ?thesis
  proof (rule conjI, goal_cases)
    case 1
    show ?case unfolding u' addExpired_hashed [OF d] snd_conv purge_list_hashed [OF l] ..
  next
    case 2
    show ?case
    proof (cases "key = []")
      case True
      then show ?thesis unfolding u' addExpired_private fst_conv by simp
    next
      case False
      show ?thesis unfolding u' addExpired_private fst_conv purge_list_keys [OF l False] ..
    qed
  qed
qed

section \<open>The policy with its cache\<close>

text \<open>A cached policy answers what the provider says, as long as the provider does not change its mind.\<close>

definition cache_ok :: "collectionInfoProvider \<Rightarrow> btl_cache \<Rightarrow> bool" where
  "cache_ok CollectionInfo cache \<longleftrightarrow>
     (\<forall>ns coll btl. map_of cache (ns, coll) = Some btl \<longrightarrow>
        (\<exists>configured. CollectionInfo ns coll = Inr (Some configured) \<and> btl = (if configured > 0 then configured else defaultBTL)))"

lemma GetBTL_cached:
  assumes "GetBTL CollectionInfo ns coll cache = Inr (btl, cache')" and "cache_ok CollectionInfo cache"
  shows "cache_ok CollectionInfo cache' \<and> GetBTL CollectionInfo ns coll [] = Inr (btl, [((ns, coll), btl)])"
proof (cases "map_of cache (ns, coll)")
  case (Some b)
  then obtain configured where "CollectionInfo ns coll = Inr (Some configured)" "b = (if configured > 0 then configured else defaultBTL)"
    using assms(2) unfolding cache_ok_def by blast
  then show ?thesis using assms Some by (auto simp: GetBTL_def)
next
  case None
  then obtain configured where "CollectionInfo ns coll = Inr (Some configured)" "btl = (if configured > 0 then configured else defaultBTL)"
    "cache' = AList.update (ns, coll) btl cache"
    using assms(1) by (auto simp: GetBTL_def bindE_Inr_iff Let_def split: option.splits)
  then show ?thesis using assms(2) by (auto simp: cache_ok_def GetBTL_def split: if_splits)
qed

lemma ComputeExpiringBlock_later: "ComputeExpiringBlock c btl = - 1 \<or> c < ComputeExpiringBlock c btl"
  by (simp add: ComputeExpiringBlock_def Let_def not_le)

lemma ComputeExpiringBlock_exact:
  assumes "unat c + unat btl + 1 < 2 ^ 64"
  shows "unat (ComputeExpiringBlock c btl) = unat c + unat btl + 1"
proof -
  have "unat (c + btl) = unat c + unat btl" using assms by (intro unat_add_lem [THEN iffD1]) simp
  moreover from this have "unat (c + btl + 1) = unat (c + btl) + 1" using assms unat_add_lem [of "c + btl" 1] by simp
  ultimately show ?thesis by (simp add: ComputeExpiringBlock_def Let_def word_le_nat_alt)
qed

section \<open>Witnesses\<close>

definition sample_keys :: PvtdataKeys where
  "sample_keys = \<lparr>pk_Map = Some [(''ns1'', \<lparr>cs_Map = Some [(''c1'', [\<lparr>kh_Key = ''a'', kh_Hash = ''k''\<rparr>])]\<rparr>)]\<rparr>"

definition sample_purge_env :: purge_env where
  "sample_purge_env = \<lparr>pg_Marshal = (\<lambda>p. if p = sample_keys then Inr ''p'' else Inl (Error ''marshal'')),
     pg_Unmarshal = (\<lambda>b. if b = ''p'' then Inr sample_keys else Inl (Error ''unmarshal'')), pg_ComputeHash = (\<lambda>_. ''k''),
     pg_GetExpiringBlock = (\<lambda>_ _ c. Inr (ComputeExpiringBlock c 2))\<rparr>"

definition sample_info :: expiryInfo where
  "sample_info = \<lparr>ei_expiryInfoKey = \<lparr>ek_committingBlk = 7, ek_expiryBlk = 10\<rparr>, ei_pvtdataKeys = sample_keys\<rparr>"

definition sample_keeper :: "(bytes, bytes) gomap \<Rightarrow> (bytes, bytes) gomap expiryKeeper" where
  "sample_keeper store = \<lparr>xk_leveldb = mem_ops, xk_dbName = ''e'', xk_store = store\<rparr>"

definition sample_scheduled :: "(bytes, bytes) gomap" where
  "sample_scheduled = [(constructLevelKey ''e'' (expiry_key \<lparr>ek_committingBlk = 7, ek_expiryBlk = 10\<rparr>), ''p'')]"

lemma sample_tracked: "expiryKeeper_update sample_purge_env [sample_info] [] (sample_keeper []) = Inr (sample_keeper sample_scheduled)"
  by (simp add: expiryKeeper_update_def encodeKV_def encodeExpiryInfoKey_key sample_info_def sample_purge_env_def LevelBatch_Put_def
      DBHandle_NewUpdateBatch_def DBHandle_WriteBatch_def DB_WriteBatch_def sample_keeper_def sample_scheduled_def mem_ops_def Let_def)

lemma sample_retrieved: "expiryKeeper_retrieve sample_purge_env 10 (sample_keeper sample_scheduled) = Inr [sample_info]"
proof -
  let ?k = "\<lparr>ek_committingBlk = 7, ek_expiryBlk = 10\<rparr>"
  have "in_bounds (Some (constructLevelKey n a)) (Some (constructLevelKey n b)) (constructLevelKey n k) = in_bounds (Some a) (Some b) k" for n a b k
    by (simp add: in_bounds_def constructLevelKey_def)
  then have "in_bounds (Some (constructLevelKey ''e'' (expiry_key \<lparr>ek_committingBlk = 0, ek_expiryBlk = 10\<rparr>)))
      (Some (constructLevelKey ''e'' (expiry_key \<lparr>ek_committingBlk = 0, ek_expiryBlk = 11\<rparr>))) (constructLevelKey ''e'' (expiry_key ?k))"
    using expiry_key_bounds [of 10 ?k] by simp
  moreover have "decodeExpiryInfo sample_purge_env (expiry_key ?k) ''p'' = Inr sample_info"
    by (simp add: decodeExpiryInfo_key sample_purge_env_def sample_info_def)
  ultimately show ?thesis
    by (simp add: expiryKeeper_retrieve_def encodeExpiryInfoKey_key DBHandle_GetIterator_def sample_keeper_def sample_scheduled_def mem_ops_def
        Iterator_Key_def retrieveAppKey_construct no_NUL_def)
qed

theorem schedule_refines_map_witness:
  "distinct (map ei_expiryInfoKey [sample_info]) \<and>
    set [sample_info] = {x. ek_expiryBlk (ei_expiryInfoKey x) = 10 \<and> ei_expiryInfoKey x \<notin> set [] \<and>
       (case tracked [sample_info] (ei_expiryInfoKey x) of None \<Rightarrow> schedule sample_purge_env map_of (sample_keeper []) (ei_expiryInfoKey x)
        | Some p \<Rightarrow> Some (unmarshalled p)) = Some (ei_pvtdataKeys x)}"
  by (rule schedule_refines_map [OF _ _ _ _ sample_tracked sample_retrieved])
     (simp_all add: sample_keeper_def mem.goleveldb_axioms no_NUL_def keeper_ok_def codec_faithful_def sample_purge_env_def unmarshalled_def nil_map_def
       sample_keys_def)

definition sample_workingset :: workingset where
  "sample_workingset = \<lparr>ws_toPurge = [(\<lparr>hk_Namespace = ''ns1'', hk_CollectionName = ''c1'', hk_KeyHash = ''k''\<rparr>,
       \<lparr>kv_key = ''a'', kv_committingBlock = 7, kv_purgeKeyOnly = False\<rparr>)],
     ws_toClearFromSchedule = [\<lparr>ek_committingBlk = 7, ek_expiryBlk = 10\<rparr>], ws_expiringBlk = 10, ws_err = None\<rparr>"

definition sample_purge_mgr :: "(bytes, bytes) gomap PurgeMgr" where
  "sample_purge_mgr = InstantiatePurgeMgr (sample_keeper sample_scheduled)"

lemma sample_infos: "transformToExpiryInfoMap [sample_info] = ws_toPurge sample_workingset"
  by code_simp

lemma sample_hash_version: "GetKeyHashVersion sample_db' ''ns1'' ''c1'' ''k'' = Inr (Some (NewHeight 7 1))"
  by (simp add: GetKeyHashVersion_def keyHashStr_def sample_names sample_db'_def leveldb_VersionedDB_def GetVersion_def GetState_def
      DBHandle_Get_def DB_Get_def mem_ops_def encodeDataKey_inject no_NUL_def sample_decode)
    (simp add: sample_md_def)

lemma sample_prepared_set:
  "prepareWorkingsetFor sample_purge_env 10 sample_db' sample_purge_mgr = Inr (sample_workingset, sample_db')"
proof -
  have "preloadCommittedVersionsInCache m sample_db' = Inr sample_db'" for m
    by (simp add: preloadCommittedVersionsInCache_def IsBulkOptimizable_def sample_db'_def leveldb_VersionedDB_def)
  then show ?thesis
    by (simp add: prepareWorkingsetFor_def sample_purge_mgr_def InstantiatePurgeMgr_def sample_retrieved sample_infos evaluateEntries_def
        sample_workingset_def evaluateEntry_def sample_hash_version sameVersion_def NewHeight_def orErr_def)
qed

theorem expired_keys_purged_witness:
  "UpdateMap_Get [(''ns1'', UpdateBatch_Delete ''c1'' ''k'' (Some (NewHeight 10 MaxUint64)) NewUpdateBatch)] ''ns1'' ''c1'' ''k'' = Some (purged 10)"
proof -
  let ?d = "\<lambda>key. [(''ns1'', UpdateBatch_Delete ''c1'' key (Some (NewHeight 10 MaxUint64)) NewUpdateBatch)]"
  have "AddExpiredEntriesToUpdateBatch (sample_purge_mgr\<lparr>pm_workingset := Some sample_workingset\<rparr>) ([], []) = Inr (?d ''a'', ?d ''k'')"
    by (simp add: AddExpiredEntriesToUpdateBatch_def sample_workingset_def addExpiredEntry_def Let_def Hashed_Contains_def UpdateMap_Contains_def
        UpdateMap_Delete_def Hashed_Delete_def getOrCreateNsBatch_def)
  note * = expired_keys_purged [OF sample_prepared_set _ this, of "[sample_info]" "''ns1''" "''c1''" "''k''"]
  show ?thesis
    using * by (simp add: sample_purge_mgr_def InstantiatePurgeMgr_def sample_retrieved sample_infos sample_workingset_def hash_due_def
        sample_hash_version sameVersion_def NewHeight_def UpdateMap_Get_def)
qed

end
