(* ===== verification/UpdateBytes.thy ===== *)
theory UpdateBytes
  imports PrivacyState "HOL-Library.Product_Lexorder"
begin

text \<open>
  The bytes from which the commit hash of a block is computed (txmgmt/txmgr/update_batch_bytes.go): the
  public and hashed updates of the block as one list of writes, in an order that does not depend on the
  iteration over Go maps, with a namespace or collection named only where it changes. The serialization of
  the list is a parameter.
\<close>

section \<open>Definitions\<close>

record UpdateKVWrite =
  uw_Namespace :: gostring
  uw_Collection :: gostring
  uw_Key :: bytes
  uw_IsDelete :: bool
  uw_Value :: gobytes
  uw_VersionBytes :: bytes

definition dedupAndSort :: "gostring list \<Rightarrow> gostring list \<Rightarrow> gostring list" where
  "dedupAndSort a b = GetSortedKeys (fold (\<lambda>entry m. AList.update entry () m) (a @ b) [])"

definition genKV :: "gostring \<Rightarrow> VersionedValue \<Rightarrow> UpdateKVWrite res" where
  "genKV key val =
     bindE (heightBytes (vv_Version val)) (\<lambda>versionBytes.
       Inr \<lparr>uw_Namespace = [], uw_Collection = [], uw_Key = key, uw_IsDelete = (vv_Value val = None), uw_Value = vv_Value val,
            uw_VersionBytes = versionBytes\<rparr>)"

definition genKVs :: "(gostring, VersionedValue) gomap \<Rightarrow> UpdateKVWrite list res" where
  "genKVs updates = mapE (\<lambda>key. bindE (deref (map_of updates key)) (genKV key)) (GetSortedKeys updates)"

text \<open>Assigning to a field of the first element, which must exist.\<close>

definition setFirst :: "('a \<Rightarrow> 'a) \<Rightarrow> 'a list \<Rightarrow> 'a list res" where
  "setFirst f kvs = (case kvs of [] \<Rightarrow> Inl (Panic ''index out of range'') | kv # r \<Rightarrow> Inr (f kv # r))"

definition genKVsFromColl :: "NsBatch \<Rightarrow> gostring \<Rightarrow> UpdateKVWrite list res" where
  "genKVsFromColl collsUpdates collName =
     bindE (genKVs (GetCollectionUpdates collsUpdates collName)) (setFirst (\<lambda>kv. kv\<lparr>uw_Collection := collName\<rparr>))"

definition genKVsFromCollsUpdates :: "NsBatch \<Rightarrow> UpdateKVWrite list res" where
  "genKVsFromCollsUpdates collsUpdates =
     bindE (mapE (genKVsFromColl collsUpdates) (sort (GetCollectionNames collsUpdates))) (\<lambda>kvs. Inr (concat kvs))"

definition genKVsFromNs :: "PrivacyUpdateBatch \<Rightarrow> gostring \<Rightarrow> UpdateKVWrite list res" where
  "genKVsFromNs u ns =
     bindE (genKVs (GetUpdates (PubUpdates u) ns)) (\<lambda>kvs.
     bindE (case map_of (HashUpdates u) ns of None \<Rightarrow> Inr kvs
            | Some collsForNs \<Rightarrow> bindE (genKVsFromCollsUpdates collsForNs) (\<lambda>colls. Inr (kvs @ colls))) (\<lambda>kvs.
     setFirst (\<lambda>kv. kv\<lparr>uw_Namespace := ns\<rparr>) kvs))"

definition updateNamespaces :: "PrivacyUpdateBatch \<Rightarrow> gostring list" where
  "updateNamespaces u = dedupAndSort (GetUpdatedNamespaces (PubUpdates u)) (UpdateMap_GetUpdatedNamespaces (HashUpdates u))"

definition kvWrites :: "PrivacyUpdateBatch \<Rightarrow> UpdateKVWrite list res" where
  "kvWrites u = bindE (mapE (genKVsFromNs u) (filter (\<lambda>ns. ns \<noteq> []) (updateNamespaces u))) (\<lambda>kvs. Inr (concat kvs))"

definition deterministicBytesForPubAndHashUpdates :: "(UpdateKVWrite list \<Rightarrow> bytes res) \<Rightarrow> PrivacyUpdateBatch \<Rightarrow> bytes res" where
  "deterministicBytesForPubAndHashUpdates marshal u = bindE (kvWrites u) marshal"

section \<open>Specification\<close>

text \<open>
  A key of the public or the hashed state; the public state has the empty collection name. What the bytes
  say of a key is its value and version.
\<close>

type_synonym update_key = "gostring \<times> gostring \<times> gostring"
type_synonym update_value = "gobytes \<times> Height option"

definition update_view :: "PrivacyUpdateBatch \<Rightarrow> update_key \<Rightarrow> update_value option" where
  "update_view u = (\<lambda>(ns, coll, key).
     map_option (\<lambda>vv. (vv_Value vv, vv_Version vv))
       (if ns = [] then None else if coll = [] then UpdateBatch_Get (PubUpdates u) ns key else UpdateMap_Get (HashUpdates u) ns coll key))"

text \<open>Writes with the namespace and collection only where they change, and reading them back.\<close>

definition to_write :: "gostring \<Rightarrow> gostring \<Rightarrow> update_key \<times> update_value \<Rightarrow> UpdateKVWrite" where
  "to_write ns0 coll0 = (\<lambda>((ns, coll, key), (val, ver)).
     \<lparr>uw_Namespace = (if ns = ns0 then [] else ns), uw_Collection = (if ns = ns0 \<and> coll = coll0 then [] else coll),
      uw_Key = key, uw_IsDelete = (val = None), uw_Value = val, uw_VersionBytes = projr (heightBytes ver)\<rparr>)"

fun to_writes :: "gostring \<Rightarrow> gostring \<Rightarrow> (update_key \<times> update_value) list \<Rightarrow> UpdateKVWrite list" where
  "to_writes ns0 coll0 [] = []"
| "to_writes ns0 coll0 (e # es) = to_write ns0 coll0 e # to_writes (fst (fst e)) (fst (snd (fst e))) es"

fun read_writes :: "gostring \<Rightarrow> gostring \<Rightarrow> UpdateKVWrite list \<Rightarrow> (update_key \<times> gobytes \<times> bytes) list" where
  "read_writes ns0 coll0 [] = []"
| "read_writes ns0 coll0 (w # ws) =
     (let ns = (if uw_Namespace w = [] then ns0 else uw_Namespace w);
          coll = (if uw_Namespace w = [] \<and> uw_Collection w = [] then coll0 else uw_Collection w)
      in ((ns, coll, uw_Key w), (uw_Value w, uw_VersionBytes w)) # read_writes ns coll ws)"

definition wf_pub_hash :: "PrivacyUpdateBatch \<Rightarrow> bool" where
  "wf_pub_hash u \<longleftrightarrow> wf_batch (PubUpdates u) \<and> wf_map_batch (HashUpdates u) \<and>
     (\<forall>ns b. map_of (HashUpdates u) ns = Some b \<longrightarrow> [] \<notin> set (GetCollectionNames b))"

section \<open>The list of writes\<close>

definition map_list :: "gostring \<Rightarrow> gostring \<Rightarrow> (gostring, VersionedValue) gomap \<Rightarrow> (update_key \<times> update_value) list" where
  "map_list ns coll updates =
     map (\<lambda>key. ((ns, coll, key), (vv_Value (the (map_of updates key)), vv_Version (the (map_of updates key))))) (GetSortedKeys updates)"

definition colls_list :: "gostring \<Rightarrow> NsBatch \<Rightarrow> gostring list \<Rightarrow> (update_key \<times> update_value) list" where
  "colls_list ns b colls = concat (map (\<lambda>coll. map_list ns coll (GetCollectionUpdates b coll)) colls)"

definition ns_list :: "PrivacyUpdateBatch \<Rightarrow> gostring \<Rightarrow> (update_key \<times> update_value) list" where
  "ns_list u ns = map_list ns [] (GetUpdates (PubUpdates u) ns) @
     (case map_of (HashUpdates u) ns of None \<Rightarrow> [] | Some b \<Rightarrow> colls_list ns b (sort (GetCollectionNames b)))"

definition update_list :: "PrivacyUpdateBatch \<Rightarrow> (update_key \<times> update_value) list" where
  "update_list u = concat (map (ns_list u) (filter (\<lambda>ns. ns \<noteq> []) (updateNamespaces u)))"

lemma to_writes_append:
  assumes "es \<noteq> []" and "\<forall>e\<in>set es. fst (fst e) = ns \<and> fst (snd (fst e)) = coll"
  shows "to_writes ns0 coll0 (es @ es') = to_writes ns0 coll0 es @ to_writes ns coll es'"
  using assms
proof (induction es arbitrary: ns0 coll0)
  case (Cons e es)
  then show ?case by (cases "es = []") auto
qed simp

lemma genKVs_writes:
  assumes "genKVs updates = Inr kvs"
  shows "kvs = to_writes ns coll (map_list ns coll updates) \<and> (\<forall>e\<in>set (map_list ns coll updates). snd (snd e) \<noteq> None)"
proof -
  let ?f = "\<lambda>key. ((ns, coll, key), (vv_Value (the (map_of updates key)), vv_Version (the (map_of updates key))))"
  have "kvs' = to_writes ns coll (map ?f keys) \<and> (\<forall>e\<in>set (map ?f keys). snd (snd e) \<noteq> None)"
    if "mapE (\<lambda>key. bindE (deref (map_of updates key)) (genKV key)) keys = Inr kvs'" for keys kvs'
    using that
  proof (induction keys arbitrary: kvs')
    case (Cons key keys)
    obtain val kv r where v: "map_of updates key = Some val" "genKV key val = Inr kv"
      and r: "mapE (\<lambda>key. bindE (deref (map_of updates key)) (genKV key)) keys = Inr r" and k: "kvs' = kv # r"
      using Cons.prems by (cases "map_of updates key") (auto simp: bindE_Inr_iff)
    have "kv = to_write ns coll (?f key)" "vv_Version val \<noteq> None"
      using v by (auto simp: genKV_def to_write_def bindE_Inr_iff heightBytes_def split: option.splits)
    then show ?case using Cons.IH [OF r] k v(1) by simp
  qed simp
  then show ?thesis using assms unfolding genKVs_def map_list_def by blast
qed

lemma first_coll:
  assumes "es \<noteq> []" and "\<forall>e\<in>set es. fst (fst e) = ns \<and> fst (snd (fst e)) = coll" and "coll \<noteq> coll0"
  shows "setFirst (\<lambda>kv. kv\<lparr>uw_Collection := coll\<rparr>) (to_writes ns coll es) = Inr (to_writes ns coll0 es)"
  using assms by (cases es) (auto simp: setFirst_def to_write_def split: prod.splits)

lemma first_ns:
  assumes "es \<noteq> []" and "\<forall>e\<in>set es. fst (fst e) = ns" and "ns \<noteq> ns0"
  shows "setFirst (\<lambda>kv. kv\<lparr>uw_Namespace := ns\<rparr>) (to_writes ns [] es) = Inr (to_writes ns0 coll0 es)"
  using assms by (cases es) (auto simp: setFirst_def to_write_def split: prod.splits)

lemma map_list_key: "e \<in> set (map_list ns coll m) \<Longrightarrow> fst (fst e) = ns \<and> fst (snd (fst e)) = coll"
  by (auto simp: map_list_def)

definition versions_set :: "(update_key \<times> update_value) list \<Rightarrow> bool" where
  "versions_set es \<longleftrightarrow> (\<forall>e\<in>set es. snd (snd e) \<noteq> None)"

lemma versions_set_append [simp]: "versions_set (es @ es') \<longleftrightarrow> versions_set es \<and> versions_set es'"
  by (auto simp: versions_set_def)

lemma genKVsFromColl_writes:
  assumes "genKVsFromColl b coll = Inr kvs" and "coll \<noteq> coll0"
  shows "kvs = to_writes ns coll0 (map_list ns coll (GetCollectionUpdates b coll)) \<and> map_list ns coll (GetCollectionUpdates b coll) \<noteq> [] \<and>
    versions_set (map_list ns coll (GetCollectionUpdates b coll))"
proof -
  let ?es = "map_list ns coll (GetCollectionUpdates b coll)"
  obtain kvs0 where "genKVs (GetCollectionUpdates b coll) = Inr kvs0" and f: "setFirst (\<lambda>kv. kv\<lparr>uw_Collection := coll\<rparr>) kvs0 = Inr kvs"
    using assms(1) by (auto simp: genKVsFromColl_def bindE_Inr_iff)
  note * = genKVs_writes [OF this(1), of ns coll]
  have ne: "?es \<noteq> []" using f * by (auto simp: setFirst_def)
  then show ?thesis using f * first_coll [OF ne _ assms(2)] map_list_key by (auto simp: versions_set_def)
qed

lemma genKVsFromColls_writes:
  assumes "mapE (genKVsFromColl b) colls = Inr kvss" and "distinct colls" and "coll0 \<notin> set colls"
  shows "concat kvss = to_writes ns coll0 (colls_list ns b colls) \<and> versions_set (colls_list ns b colls)"
  using assms
proof (induction colls arbitrary: kvss coll0)
  case (Cons coll colls)
  let ?es = "map_list ns coll (GetCollectionUpdates b coll)"
  obtain kvs r where 1: "genKVsFromColl b coll = Inr kvs" and 2: "mapE (genKVsFromColl b) colls = Inr r" and k: "kvss = kvs # r"
    using Cons.prems(1) by (auto simp: bindE_Inr_iff)
  note * = genKVsFromColl_writes [OF 1, of coll0 ns]
  have "concat r = to_writes ns coll (colls_list ns b colls) \<and> versions_set (colls_list ns b colls)" 
    using Cons.IH [OF 2, of coll] Cons.prems(2) by simp
  then show ?case
    using * Cons.prems(3) k to_writes_append [of ?es ns coll ns coll0] map_list_key by (auto simp: colls_list_def)
qed (simp add: colls_list_def versions_set_def)

lemma colls_list_ns: "e \<in> set (colls_list ns b colls) \<Longrightarrow> fst (fst e) = ns \<and> fst (snd (fst e)) \<in> set colls"
  by (auto simp: colls_list_def dest: map_list_key)

lemma ns_list_ns: "e \<in> set (ns_list u ns) \<Longrightarrow> fst (fst e) = ns"
  by (auto simp: ns_list_def split: option.splits dest: map_list_key colls_list_ns)

lemma wf_colls: "wf_pub_hash u \<Longrightarrow> map_of (HashUpdates u) ns = Some b \<Longrightarrow> wf_batch b \<and> distinct (sort (GetCollectionNames b)) \<and> [] \<notin> set (GetCollectionNames b)"
  by (auto simp: wf_pub_hash_def wf_map_batch_def wf_batch_def GetCollectionNames_def GetUpdatedNamespaces_def wf_map_def)

lemma genKVsFromNs_writes:
  assumes "genKVsFromNs u ns = Inr kvs" and "wf_pub_hash u" and "ns \<noteq> ns0"
  shows "kvs = to_writes ns0 coll0 (ns_list u ns) \<and> ns_list u ns \<noteq> [] \<and> versions_set (ns_list u ns)"
proof -
  let ?pub = "map_list ns [] (GetUpdates (PubUpdates u) ns)"
  obtain kvs1 kvs2 where 1: "genKVs (GetUpdates (PubUpdates u) ns) = Inr kvs1"
    and 2: "(case map_of (HashUpdates u) ns of None \<Rightarrow> Inr kvs1
            | Some collsForNs \<Rightarrow> bindE (genKVsFromCollsUpdates collsForNs) (\<lambda>colls. Inr (kvs1 @ colls))) = Inr kvs2"
    and 3: "setFirst (\<lambda>kv. kv\<lparr>uw_Namespace := ns\<rparr>) kvs2 = Inr kvs"
    using assms(1) unfolding genKVsFromNs_def bindE_Inr_iff by blast
  have p: "kvs1 = to_writes ns [] ?pub" "versions_set ?pub" using genKVs_writes [OF 1, of ns "[]"] by (simp_all add: versions_set_def)
  have k: "kvs2 = to_writes ns [] (ns_list u ns) \<and> versions_set (ns_list u ns)"
  proof (cases "map_of (HashUpdates u) ns")
    case None
    then show ?thesis using 2 p by (simp add: ns_list_def)
  next
    case (Some b)
    let ?cs = "colls_list ns b (sort (GetCollectionNames b))"
    obtain kvss where m: "mapE (genKVsFromColl b) (sort (GetCollectionNames b)) = Inr kvss" and k2: "kvs2 = kvs1 @ concat kvss"
      using 2 by (auto simp: Some genKVsFromCollsUpdates_def bindE_Inr_iff)
    have "concat kvss = to_writes ns [] ?cs \<and> versions_set ?cs"
      using genKVsFromColls_writes [OF m, of "[]" ns] wf_colls [OF assms(2) Some] by simp
    moreover have "to_writes ns [] (?pub @ ?cs) = to_writes ns [] ?pub @ to_writes ns [] ?cs"
      using to_writes_append [of ?pub ns "[]"] map_list_key by (cases "?pub = []") auto
    ultimately show ?thesis using k2 p by (simp add: ns_list_def Some)
  qed
  then have ne: "ns_list u ns \<noteq> []" using 3 by (auto simp: setFirst_def)
  then show ?thesis using 3 k first_ns [OF ne _ assms(3)] ns_list_ns by auto
qed

lemma to_writes_block:
  assumes "es \<noteq> []" and "\<forall>e\<in>set es. fst (fst e) = ns"
  obtains coll where "\<And>es'. to_writes ns0 coll0 (es @ es') = to_writes ns0 coll0 es @ to_writes ns coll es'"
  using assms
proof (induction es arbitrary: ns0 coll0 thesis)
  case (Cons e es)
  show ?case
  proof (cases "es = []")
    case True
    then show ?thesis using Cons.prems by (intro Cons.prems(1) [of "fst (snd (fst e))"]) simp
  next
    case False
    then obtain coll where "\<And>es'. to_writes (fst (fst e)) (fst (snd (fst e))) (es @ es') = to_writes (fst (fst e)) (fst (snd (fst e))) es @ to_writes ns coll es'"
      using Cons.IH [of "fst (fst e)" "fst (snd (fst e))"] Cons.prems(3) by auto
    then show ?thesis by (intro Cons.prems(1) [of coll]) simp
  qed
qed simp

lemma genKVs_all_writes:
  assumes "mapE (genKVsFromNs u) nss = Inr kvss" and "wf_pub_hash u" and "distinct nss" and "ns0 \<notin> set nss"
  shows "concat kvss = to_writes ns0 coll0 (concat (map (ns_list u) nss)) \<and> versions_set (concat (map (ns_list u) nss))"
  using assms
proof (induction nss arbitrary: kvss ns0 coll0)
  case (Cons ns nss)
  obtain kvs r where 1: "genKVsFromNs u ns = Inr kvs" and 2: "mapE (genKVsFromNs u) nss = Inr r" and k: "kvss = kvs # r"
    using Cons.prems(1) by (auto simp: bindE_Inr_iff)
  have n: "kvs = to_writes ns0 coll0 (ns_list u ns)" "ns_list u ns \<noteq> []" "versions_set (ns_list u ns)"
    using genKVsFromNs_writes [OF 1 assms(2), of ns0 coll0] Cons.prems(4) by auto
  obtain coll where c: "\<And>es'. to_writes ns0 coll0 (ns_list u ns @ es') = to_writes ns0 coll0 (ns_list u ns) @ to_writes ns coll es'"
    using to_writes_block [OF n(2)] ns_list_ns by blast
  have "concat r = to_writes ns coll (concat (map (ns_list u) nss)) \<and> versions_set (concat (map (ns_list u) nss))"
    using Cons.IH [OF 2 assms(2), of ns coll] Cons.prems(3) by simp
  then show ?case using k n c by simp
qed (simp add: versions_set_def)

lemma dedupAndSort_set: "set (dedupAndSort a b) = set a \<union> set b" "distinct (dedupAndSort a b)" "sorted (dedupAndSort a b)"
proof -
  have "dom (map_of (fold (\<lambda>entry m. AList.update entry () m) xs m)) = set xs \<union> dom (map_of m)" for xs :: "gostring list" and m
    by (induction xs arbitrary: m) (auto simp: map_of_AList_update)
  then show "set (dedupAndSort a b) = set a \<union> set b" by (simp add: dedupAndSort_def Un_commute)
  have "wf_map (fold (\<lambda>entry m. AList.update entry () m) xs m)" if "wf_map m" for xs :: "gostring list" and m
    using that by (induction xs arbitrary: m) simp_all
  then show "distinct (dedupAndSort a b)" by (simp add: dedupAndSort_def wf_map_def [of "[]"] distinct_GetSortedKeys)
  show "sorted (dedupAndSort a b)" by (simp add: dedupAndSort_def)
qed

lemma kvWrites_list:
  assumes "kvWrites u = Inr kvs" and "wf_pub_hash u"
  shows "kvs = to_writes [] [] (update_list u) \<and> versions_set (update_list u)"
proof -
  obtain kvss where "mapE (genKVsFromNs u) (filter (\<lambda>ns. ns \<noteq> []) (updateNamespaces u)) = Inr kvss" "kvs = concat kvss"
    using assms(1) by (auto simp: kvWrites_def bindE_Inr_iff)
  then show ?thesis
    using genKVs_all_writes [of u _ kvss "[]" "[]"] assms(2) dedupAndSort_set(2) by (simp add: update_list_def updateNamespaces_def)
qed

section \<open>The list is determined by the updates\<close>

lemma sorted_wrt_concat_map:
  assumes "sorted_wrt R xs" and "\<And>x. x \<in> set xs \<Longrightarrow> sorted_wrt S (f x)"
    and "\<And>x y a b. R x y \<Longrightarrow> a \<in> set (f x) \<Longrightarrow> b \<in> set (f y) \<Longrightarrow> S a b"
  shows "sorted_wrt S (concat (map f xs))"
  using assms(1,2) by (induction xs) (auto simp: sorted_wrt_append intro: assms(3))

abbreviation (input) key_less :: "update_key \<times> update_value \<Rightarrow> update_key \<times> update_value \<Rightarrow> bool" where
  "key_less e e' \<equiv> fst e < fst e'"

lemma key_less_ns: "fst (fst e) < fst (fst e') \<Longrightarrow> key_less e e'"
  by (simp add: less_prod_def)

lemma key_less_coll: "fst (fst e) = fst (fst e') \<Longrightarrow> fst (snd (fst e)) < fst (snd (fst e')) \<Longrightarrow> key_less e e'"
  by (simp add: less_prod_def)

lemma Nil_less_iff: "([] :: gostring) < coll \<longleftrightarrow> coll \<noteq> []"
  by (cases coll) simp_all

lemma map_list_sorted: "wf_map m \<Longrightarrow> sorted_wrt key_less (map_list ns coll m)"
  by (simp add: map_list_def sorted_wrt_map strict_sorted_iff)

lemma wf_GetUpdates: "wf_batch b \<Longrightarrow> wf_map (GetUpdates b ns)"
  by (simp add: wf_batch_def GetUpdates_def split: option.splits)

lemma colls_list_sorted:
  assumes "wf_batch b"
  shows "sorted_wrt key_less (colls_list ns b (sort (GetCollectionNames b)))"
  unfolding colls_list_def
proof (rule sorted_wrt_concat_map)
  have "distinct (GetCollectionNames b)" using assms by (simp add: wf_batch_def wf_map_def GetCollectionNames_def GetUpdatedNamespaces_def)
  then show "sorted_wrt (<) (sort (GetCollectionNames b))" by (simp add: strict_sorted_iff)
  show "sorted_wrt key_less (map_list ns coll (GetCollectionUpdates b coll))" for coll
    using map_list_sorted wf_GetUpdates [OF assms] by (simp add: GetCollectionUpdates_def)
qed (auto simp: map_list_def)

lemma ns_list_sorted:
  assumes "wf_pub_hash u"
  shows "sorted_wrt key_less (ns_list u ns)"
proof -
  have "sorted_wrt key_less (map_list ns [] (GetUpdates (PubUpdates u) ns))"
    using assms map_list_sorted wf_GetUpdates by (simp add: wf_pub_hash_def)
  moreover have "sorted_wrt key_less (colls_list ns b (sort (GetCollectionNames b)))"
    if "map_of (HashUpdates u) ns = Some b" for b
    using wf_colls [OF assms that] colls_list_sorted by blast
  moreover have "key_less e e'"
    if b: "map_of (HashUpdates u) ns = Some b" and e: "e \<in> set (map_list ns [] (GetUpdates (PubUpdates u) ns))"
      and e': "e' \<in> set (colls_list ns b (sort (GetCollectionNames b)))" for b e e'
  proof (rule key_less_coll)
    have "[] \<notin> set (sort (GetCollectionNames b))" using wf_colls [OF assms b] by simp
    then have "fst (snd (fst e')) \<noteq> []" using colls_list_ns [OF e'] by metis
    then show "fst (snd (fst e)) < fst (snd (fst e'))" using map_list_key [OF e] by (simp add: Nil_less_iff)
  qed (use map_list_key [OF e] colls_list_ns [OF e'] in simp)
  ultimately show ?thesis by (auto simp: ns_list_def sorted_wrt_append split: option.splits)
qed

lemma update_list_sorted:
  assumes "wf_pub_hash u"
  shows "sorted_wrt key_less (update_list u)"
  unfolding update_list_def
proof (rule sorted_wrt_concat_map)
  show "sorted_wrt (<) (filter (\<lambda>ns. ns \<noteq> []) (updateNamespaces u))"
    using dedupAndSort_set(2,3) by (simp add: updateNamespaces_def strict_sorted_iff sorted_wrt_filter)
  show "sorted_wrt key_less (ns_list u ns)" for ns by (rule ns_list_sorted [OF assms])
  show "key_less a b" if "x < y" "a \<in> set (ns_list u x)" "b \<in> set (ns_list u y)" for x y a b
    using that(1) ns_list_ns [OF that(2)] ns_list_ns [OF that(3)] by (intro key_less_ns) simp
qed

lemma map_list_mem: "((ns', coll', key), v) \<in> set (map_list ns coll m) \<longleftrightarrow>
    ns' = ns \<and> coll' = coll \<and> map_option (\<lambda>vv. (vv_Value vv, vv_Version vv)) (map_of m key) = Some v"
  by (auto simp: map_list_def image_iff)

lemma Get_namespace: "UpdateBatch_Get b ns key = Some vv \<Longrightarrow> ns \<in> set (GetCollectionNames b)"
  by (auto simp: UpdateBatch_Get_def GetCollectionNames_def GetUpdatedNamespaces_def domIff simp flip: dom_map_of_conv_image_fst split: option.splits)

lemma colls_list_mem:
  "((ns', coll, key), v) \<in> set (colls_list ns b (sort (GetCollectionNames b))) \<longleftrightarrow>
    ns' = ns \<and> map_option (\<lambda>vv. (vv_Value vv, vv_Version vv)) (UpdateBatch_Get b coll key) = Some v"
proof -
  have "((ns', coll, key), v) \<in> set (colls_list ns b (sort (GetCollectionNames b))) \<longleftrightarrow>
      coll \<in> set (GetCollectionNames b) \<and> ns' = ns \<and> map_option (\<lambda>vv. (vv_Value vv, vv_Version vv)) (UpdateBatch_Get b coll key) = Some v"
    by (auto simp: colls_list_def map_list_mem GetCollectionUpdates_def GetUpdates_Get)
  moreover have "coll \<in> set (GetCollectionNames b)" if "UpdateBatch_Get b coll key = Some vv" for vv
    using that by (rule Get_namespace)
  ultimately show ?thesis by auto
qed

lemma ns_list_mem:
  assumes "wf_pub_hash u"
  shows "((ns', coll, key), v) \<in> set (ns_list u ns) \<longleftrightarrow> ns' = ns \<and>
    map_option (\<lambda>vv. (vv_Value vv, vv_Version vv)) (if coll = [] then UpdateBatch_Get (PubUpdates u) ns key else UpdateMap_Get (HashUpdates u) ns coll key) = Some v"
proof (cases "map_of (HashUpdates u) ns")
  case None
  then show ?thesis by (auto simp: ns_list_def map_list_mem GetUpdates_Get UpdateMap_Get_def)
next
  case (Some b)
  have "UpdateBatch_Get b [] key = None" using wf_colls [OF assms Some] Get_namespace by (cases "UpdateBatch_Get b [] key") blast+
  then show ?thesis by (auto simp: ns_list_def map_list_mem colls_list_mem GetUpdates_Get UpdateMap_Get_def Some)
qed

lemma update_list_mem:
  assumes "wf_pub_hash u"
  shows "(k, v) \<in> set (update_list u) \<longleftrightarrow> update_view u k = Some v"
proof -
  obtain ns coll key where k: "k = (ns, coll, key)" by (metis prod.exhaust)
  have "(k, v) \<in> set (update_list u) \<longleftrightarrow> ns \<in> set (updateNamespaces u) \<and> update_view u k = Some v"
    by (auto simp: update_list_def k update_view_def ns_list_mem [OF assms])
  moreover have "ns \<in> set (updateNamespaces u)" if "update_view u k = Some v"
  proof -
    have "ns \<in> set (GetUpdatedNamespaces (PubUpdates u)) \<or> map_of (HashUpdates u) ns \<noteq> None"
      using that Get_namespace [of "PubUpdates u" ns key]
      by (auto simp: k update_view_def GetCollectionNames_def UpdateMap_Get_def split: if_splits option.splits)
    then show ?thesis
      by (auto simp: updateNamespaces_def dedupAndSort_set UpdateMap_GetUpdatedNamespaces_def simp flip: dom_map_of_conv_image_fst)
  qed
  ultimately show ?thesis by blast
qed

lemma same_keys_same_list:
  assumes "map fst xs = map fst ys" and "\<And>k v. (k, v) \<in> set xs \<Longrightarrow> f k = Some v" and "\<And>k v. (k, v) \<in> set ys \<Longrightarrow> f k = Some v"
  shows "xs = ys"
proof -
  have "length xs = length ys" using assms(1) by (rule map_eq_imp_length_eq)
  then show ?thesis using assms
  proof (induction xs ys rule: list_induct2)
    case (Cons x xs y ys)
    have "f (fst x) = Some (snd x)" "f (fst y) = Some (snd y)" using Cons.prems(2,3) by (metis list.set_intros(1) prod.collapse)+
    then have "x = y" using Cons.prems(1) by (simp add: prod_eq_iff)
    moreover have "xs = ys" using Cons.prems by (intro Cons.IH) auto
    ultimately show ?case by simp
  qed simp
qed

lemma update_list_unique:
  assumes "wf_pub_hash u" and "wf_pub_hash u'" and "update_view u = update_view u'"
  shows "update_list u = update_list u'"
proof -
  have s: "sorted (map fst (update_list v))" "distinct (map fst (update_list v))" if "wf_pub_hash v" for v
  proof -
    have "sorted_wrt (<) (map fst (update_list v))" using update_list_sorted [OF that] by (simp add: sorted_wrt_map)
    then show "sorted (map fst (update_list v))" "distinct (map fst (update_list v))" by (simp_all add: strict_sorted_iff)
  qed
  have "map fst (update_list u) = map fst (update_list u')"
  proof (rule sorted_distinct_set_unique)
    have "set (map fst (update_list v)) = dom (update_view v)" if "wf_pub_hash v" for v
      unfolding dom_def not_None_eq update_list_mem [OF that, symmetric] by force
    then show "set (map fst (update_list u)) = set (map fst (update_list u'))" using assms by simp
  qed (use s assms in auto)
  then show ?thesis
    by (rule same_keys_same_list [where f = "update_view u"]) (use update_list_mem assms in auto)
qed

lemma read_to_writes:
  assumes "sorted_wrt key_less es" and "\<forall>e\<in>set es. fst (fst e) \<noteq> [] \<and> (ns0, coll0) \<le> (fst (fst e), fst (snd (fst e)))"
  shows "read_writes ns0 coll0 (to_writes ns0 coll0 es) = map (\<lambda>(k, val, ver). (k, val, projr (heightBytes ver))) es"
  using assms
proof (induction es arbitrary: ns0 coll0)
  case (Cons e es)
  obtain ns coll key val ver where e: "e = ((ns, coll, key), (val, ver))" by (metis prod.exhaust)
  have "(ns, coll) \<le> (fst (fst e'), fst (snd (fst e')))" if "e' \<in> set es" for e'
    using Cons.prems(1) that by (fastforce simp: e less_prod_def less_eq_prod_def)
  then have IH: "read_writes ns coll (to_writes ns coll es) = map (\<lambda>(k, val, ver). (k, val, projr (heightBytes ver))) es"
    using Cons.prems by (intro Cons.IH) auto
  have "ns \<noteq> []" and "coll = [] \<Longrightarrow> ns = ns0 \<Longrightarrow> coll0 = []"
    using Cons.prems(2) by (auto simp: e less_eq_prod_def)
  then show ?case using IH by (auto simp: e to_write_def Let_def)
qed simp

lemma ToBytes_inject:
  assumes "projr (ToBytes h) = projr (ToBytes h')"
  shows "h = h'"
proof -
  obtain b b' where b: "ToBytes h = Inr b" and b': "ToBytes h' = Inr b'" using ToBytes_opv by blast
  have "NewHeightFromBytes b = Inr (h, length b)" by (rule NewHeightFromBytes_ToBytes [OF b])
  moreover have "NewHeightFromBytes b' = Inr (h', length b')" by (rule NewHeightFromBytes_ToBytes [OF b'])
  moreover have "b = b'" using assms unfolding b b' sum.sel .
  ultimately have "(Inr (h, length b) :: (Height \<times> nat) res) = Inr (h', length b')" by (metis (no_types))
  then show ?thesis unfolding sum.inject prod.inject by (rule conjunct1)
qed

lemma option_eqI: "(\<And>v. x = Some v \<longleftrightarrow> y = Some v) \<Longrightarrow> x = y"
  by (metis not_Some_eq)

lemma kvWrites_iff:
  assumes "kvWrites u = Inr kvs" and "kvWrites u' = Inr kvs'" and "wf_pub_hash u" and "wf_pub_hash u'"
  shows "kvs = kvs' \<longleftrightarrow> update_view u = update_view u'"
proof
  have k: "kvs = to_writes [] [] (update_list u)" "versions_set (update_list u)" "kvs' = to_writes [] [] (update_list u')" "versions_set (update_list u')"
    using kvWrites_list assms by blast+
  have r: "read_writes [] [] (to_writes [] [] (update_list v)) = map (\<lambda>(k, val, ver). (k, val, projr (heightBytes ver))) (update_list v)"
    if "wf_pub_hash v" for v
    using update_list_mem [OF that]
    by (intro read_to_writes [OF update_list_sorted [OF that]]) (auto simp: update_view_def less_eq_prod_def)
  {
    assume "kvs = kvs'"
    then have m: "map (\<lambda>(k, val, ver). (k, val, projr (heightBytes ver))) (update_list u) = map (\<lambda>(k, val, ver). (k, val, projr (heightBytes ver))) (update_list u')"
      using k r [OF assms(3)] r [OF assms(4)] by simp
    have "update_list u = update_list u'"
    proof (rule list.inj_map_strong [OF _ m])
      fix e e'
      assume e: "e \<in> set (update_list u)" "e' \<in> set (update_list u')"
        and eq: "(case e of (k, val, ver) \<Rightarrow> (k, val, projr (heightBytes ver))) = (case e' of (k, val, ver) \<Rightarrow> (k, val, projr (heightBytes ver)))"
      obtain h h' where "snd (snd e) = Some h" "snd (snd e') = Some h'" using e k(2,4) unfolding versions_set_def by blast
      then show "e = e'" using eq ToBytes_inject [of h h'] by (auto simp: heightBytes_def split: prod.splits)
    qed
    then show "update_view u = update_view u'"
      by (intro ext option_eqI) (use update_list_mem assms(3,4) in metis)
  }
  show "kvs = kvs'" if "update_view u = update_view u'"
    using k update_list_unique [OF assms(3,4) that] by simp
qed

text \<open>The serialization of protobuf tells messages apart, except for nil and empty byte strings.\<close>

definition nil_as_empty :: "UpdateKVWrite \<Rightarrow> UpdateKVWrite" where
  "nil_as_empty w = w\<lparr>uw_Value := Some (content (uw_Value w))\<rparr>"

definition marshal_injective :: "(UpdateKVWrite list \<Rightarrow> bytes res) \<Rightarrow> bool" where
  "marshal_injective marshal \<longleftrightarrow> (\<forall>x y b. marshal x = Inr b \<longrightarrow> marshal y = Inr b \<longrightarrow> map nil_as_empty x = map nil_as_empty y)"

lemma writes_delete: "w \<in> set (to_writes ns coll es) \<Longrightarrow> uw_IsDelete w \<longleftrightarrow> uw_Value w = None"
  by (induction es arbitrary: ns coll) (auto simp: to_write_def split: prod.splits)

lemma nil_as_empty_inject:
  assumes "map nil_as_empty x = map nil_as_empty y"
    and "\<And>w. w \<in> set x \<union> set y \<Longrightarrow> uw_IsDelete w \<longleftrightarrow> uw_Value w = None"
  shows "x = y"
proof (rule list.inj_map_strong [OF _ assms(1)])
  fix w w'
  assume "w \<in> set x" "w' \<in> set y" and eq: "nil_as_empty w = nil_as_empty w'"
  then have d: "uw_IsDelete w \<longleftrightarrow> uw_Value w = None" "uw_IsDelete w' \<longleftrightarrow> uw_Value w' = None" using assms(2) by blast+
  show "w = w'" using eq d by (cases w; cases w') (auto simp: nil_as_empty_def)
qed



section \<open>Witness\<close>

text \<open>Two batches that differ in the order of their maps only, and a serialization that knows one list of writes.\<close>

definition bytes_vv :: VersionedValue where
  "bytes_vv = \<lparr>vv_Value = Some ''1'', vv_Metadata = None, vv_Version = Some (NewHeight 7 1)\<rparr>"

definition bytes_batch :: "(gostring, VersionedValue) gomap \<Rightarrow> PrivacyUpdateBatch" where
  "bytes_batch m = \<lparr>PubUpdates = \<lparr>ContainsPostOrderWrites = False, Updates = [(''ns1'', m)], SchemaUpdates = []\<rparr>,
     HashUpdates = [(''ns1'', \<lparr>ContainsPostOrderWrites = False, Updates = [(''c1'', [(''h'', bytes_vv)])], SchemaUpdates = []\<rparr>)], PvtUpdates = []\<rparr>"

definition bytes_writes :: "UpdateKVWrite list" where
  "bytes_writes = to_writes [] [] [((''ns1'', [], ''a''), (Some ''1'', Some (NewHeight 7 1))), ((''ns1'', [], ''b''), (Some ''1'', Some (NewHeight 7 1))),
     ((''ns1'', ''c1'', ''h''), (Some ''1'', Some (NewHeight 7 1)))]"

definition bytes_marshal :: "UpdateKVWrite list \<Rightarrow> bytes res" where
  "bytes_marshal kvs = (if kvs = bytes_writes then Inr ''x'' else Inl (Error ''marshal''))"

lemma bytes_results:
  "deterministicBytesForPubAndHashUpdates bytes_marshal (bytes_batch [(''a'', bytes_vv), (''b'', bytes_vv)]) = Inr ''x''"
  "deterministicBytesForPubAndHashUpdates bytes_marshal (bytes_batch [(''b'', bytes_vv), (''a'', bytes_vv)]) = Inr ''x''"
proof -
  have g: "genKV key bytes_vv = Inr \<lparr>uw_Namespace = [], uw_Collection = [], uw_Key = key, uw_IsDelete = False, uw_Value = Some ''1'',
      uw_VersionBytes = opv_bytes 7 @ opv_bytes 1\<rparr>" for key
    by (simp add: genKV_def heightBytes_def bytes_vv_def ToBytes_opv NewHeight_def)
  have s: "GetSortedKeys [(''a'', bytes_vv), (''b'', bytes_vv)] = [''a'', ''b'']" "GetSortedKeys [(''b'', bytes_vv), (''a'', bytes_vv)] = [''a'', ''b'']"
    by (simp_all add: GetSortedKeys_def less_char_def)
  have "kvWrites (bytes_batch m) = Inr bytes_writes" if "m = [(''a'', bytes_vv), (''b'', bytes_vv)] \<or> m = [(''b'', bytes_vv), (''a'', bytes_vv)]" for m
    using that
    by (auto simp: kvWrites_def updateNamespaces_def dedupAndSort_def bytes_batch_def GetUpdatedNamespaces_def UpdateMap_GetUpdatedNamespaces_def
        genKVsFromNs_def GetUpdates_def genKVs_def s g genKVsFromCollsUpdates_def genKVsFromColl_def GetCollectionNames_def GetCollectionUpdates_def
        setFirst_def GetSortedKeys_def [of "[x]" for x] bytes_writes_def to_write_def heightBytes_def ToBytes_opv NewHeight_def)
  then show "deterministicBytesForPubAndHashUpdates bytes_marshal (bytes_batch [(''a'', bytes_vv), (''b'', bytes_vv)]) = Inr ''x''"
    "deterministicBytesForPubAndHashUpdates bytes_marshal (bytes_batch [(''b'', bytes_vv), (''a'', bytes_vv)]) = Inr ''x''"
    by (simp_all add: deterministicBytesForPubAndHashUpdates_def bytes_marshal_def)
qed


end
