(* ===== verification/Spec2Isabelle.thy ===== *)
theory Spec2Isabelle
  imports Merkle BatchPreparer BlockWriter PurgeMgr UpdateBytes
begin

text \<open>
  Verification of the ledger core of Drunix, a permissioned blockchain in Go (a fork of Hyperledger
  Fabric with sparse blocks and a lite transaction format).

  \<^bold>\<open>The program.\<close> A peer executes a transaction against its state database and records what it read and
  wrote in a read-write set. Ordered blocks of such sets come back to every peer, which checks that the
  reads are still current (multi-version concurrency control, MVCC), applies the writes of the valid
  transactions to an update batch and commits the batch. The state has a public part, private collections
  and the hashes of the private collections, kept apart by derived namespaces in one database. The
  development models this path, from the leveldb helpers at the bottom to the preparation of a whole block, with the
  expiry of private data, and on the orderer's side the cutting and writing of blocks.

  \<^bold>\<open>Conventions.\<close> Strings and byte slices are lists of characters, ordered as Go orders them; a slice that may
  be nil is an option (type \<open>gobytes\<close>). Integers have their width (types \<open>u8\<close>, \<open>u32\<close>, \<open>u64\<close>), so overflow wraps.
  Maps are association lists; what the code does in iteration order is proved not to depend on it where it
  matters. An operation that may fail returns \<open>goerr + 'a\<close>, where the error is either a returned error or a
  panic: nil dereferences, indices out of range and explicit panics are values of the model. Mutation is
  state passing. The file of each definition and its lines are in the manifest; the names are the source's.

  \<^bold>\<open>Theories\<close>, in the order of their dependencies:

  \<^item> \<open>Drunix_Prelude\<close>: errors, folds, maps, sorted keys (src/core/ledger/util/util.go) and the lemmas on
    lists and maps that all components share; collections \<open>go_res\<close> and others carry the proofs.
  \<^item> \<open>TxFlags\<close>: the validation flags of a block (src/internal/pkg/txflags).
  \<^item> \<open>Version\<close>: heights and their order-preserving encoding (src/core/ledger/internal/version,
    src/common/ledger/util). The encoding round-trips and orders heights as pairs of numbers; \<open>Compare\<close>
    does so as long as the numbers stay below \<open>2^63\<close>, as it subtracts them as signed numbers.
  \<^item> \<open>StateDB\<close>: update batches and their iterators (txmgmt/statedb/statedb.go). \<open>VersionedDB\<close>: the database
    interface as a record and its contract as the locale \<open>versioned_db\<close>.
  \<^item> \<open>LevelDBHelper\<close>: several databases with a name in one leveldb (src/common/ledger/util/leveldbhelper);
    they do not interfere, and dropping one removes exactly its keys. goleveldb is a parameter.
  \<^item> \<open>StateLevelDB\<close>: the state database on leveldb (statedb/stateleveldb): keys, values, commits, scans with
    pages. A commit refines the update of an abstract map and a scan returns exactly the range; the
    database is an interpretation of \<open>versioned_db\<close>.
  \<^item> \<open>RWSet_Messages\<close>, \<open>RWSet\<close>, \<open>Merkle\<close>: the messages, the builder and the conversions of read-write sets and
    the merkle summaries of range queries (txmgmt/rwsetutil). The last operation on a key wins, the result is
    sorted and so canonical, the bytes round-trip, and equal summaries mean equal results or a collision of
    the hash.
  \<^item> \<open>PrivacyState\<close>: the database with collections and the cache of namespaces that use metadata
    (txmgmt/privacyenabledstate). Public data, private data and hashes stay apart; the cache is an
    optimisation that no read can observe.
  \<^item> \<open>TxOps\<close>, \<open>RangeQuery\<close>, \<open>Validator\<close>: the operations of a transaction, the iterators and validators of range
    queries and the MVCC validator (txmgmt/validation). A block that is validated and applied leaves the
    state that its valid transactions leave when executed one after the other, each reading what it read.
  \<^item> \<open>LiteValidator\<close>: the same for lite blocks (the \<open>_adapter\<close> files), which agree with full blocks.
  \<^item> \<open>ProtoUtil\<close>: envelopes, block metadata and the conversion to the lite format (src/protoutil).
  \<^item> \<open>BatchPreparer\<close>: parsing a block, validating it, matching private data with hashes and writing the
    verdicts back (validation/batch_preparer.go and its adapter).
  \<^item> \<open>BlockCutter\<close>, \<open>BlockWriter\<close>: the orderer's side of a block (src/orderer/common/blockcutter,
    multichannel/blockwriter.go, consensus/solo): batches within the configured limits, blocks that form a
    hash chain, and the main loop of the solo chain as a step relation. Every accepted message is in exactly
    one block, in order, and with a fair timer it gets there.
  \<^item> \<open>PurgeMgr\<close>: the expiry of private data (txmgmt/pvtstatepurgemgmt, src/core/ledger/pvtdatapolicy). The schedule
    refines a map, and a commit deletes exactly the keys that are due.
  \<^item> \<open>UpdateBytes\<close>: the bytes of the commit hash (txmgr/update_batch_bytes.go), equal exactly for equal updates.

  \<^bold>\<open>Parameters.\<close> Code outside the repository is an argument: the protobuf codecs and SHA-256 (records \<open>libs\<close>,
  \<open>ltx_libs\<close>, \<open>proto_codec\<close>, \<open>proto_lib\<close>, \<open>purge_env\<close>), goleveldb as an ordered map with atomic batches, the
  processors of custom transactions (\<open>preparer_env\<close>) and the configuration of a channel (\<open>writer_env\<close>). Their documented behaviour appears as hypotheses by name
  (decoding inverts encoding, a hash without collisions on the values at hand); each property that has
  such a hypothesis comes with a witness on a concrete instance.

  \<^bold>\<open>Bounds.\<close> The loops of the code are structural recursions or have a termination measure, so the model needs
  no fuel, except for the merkle tree: one iteration more than there are levels, which is proved enough.

  \<^bold>\<open>Not modelled.\<close> Raft consensus and the network services of the orderer, gossip, chaincode processes, the endorser and the
  services of the peer, identities and policies: concurrent or randomized protocols over networks and
  cryptographic libraries. CouchDB as a state database: an external service. The block files, the private
  data store, snapshots and the opening and rebuilding of ledgers: file access. The
  transaction manager and the simulator: locks, listeners and lifetimes around the operations modelled
  here, recovery, and the late commit of private data of old blocks. Rich queries: the query language of an external database. Locks are not modelled: each operation is one atomic step, which is what
  the commit lock enforces for those modelled here.
\<close>

end
